(* ===== verification/AE_Prelude.thy ===== *)
theory AE_Prelude
  imports Main "HOL-Library.Word" "HOL-Library.Monad_Syntax" "HOL-Library.Sublist"
begin

text \<open>
  The prelude of the development: the value types the components share (bytes, C strings,
  undefined behaviour), the decimal printing of \<^verbatim>\<open>std::to_string\<close>, the collections of
  rewrite rules the component theories extend, and the list lemmas they use.

  Undefined behaviour of C++ (an index outside an array, a dangling pointer, a null
  dereference) is the value \<open>None\<close> of an option result, so "the code never does this" is
  a theorem of the form \<open>f x = Some y\<close>. An error the code reports itself (an \<open>int\<close> return
  code, an early return) is an ordinary value.
\<close>

unbundle bit_operations_syntax

section \<open>Bytes and C strings\<close>

type_synonym byte = "8 word"
type_synonym u16 = "16 word"
type_synonym u32 = "32 word"

lemma unat_byte [simp]: "unat (b :: byte) < 256"
  using unsigned_less [of b] by simp

lemma unat_u16 [simp]: "unat (n :: u16) < 65536"
  using unsigned_less [of n] by simp

text \<open>\<^verbatim>\<open>std::string::c_str\<close> handed to a parameter of type \<^verbatim>\<open>const char*\<close>: a reader
  of the pointer sees the bytes up to the first NUL.\<close>

definition c_str :: "string \<Rightarrow> string" where
  "c_str s = takeWhile (\<lambda>c. c \<noteq> CHR 0x00) s"

lemma c_str_id [simp]: "CHR 0x00 \<notin> set s \<Longrightarrow> c_str s = s"
  by (auto simp: c_str_def takeWhile_eq_all_conv)

lemma c_str_idem [simp]: "c_str (c_str s) = c_str s"
  unfolding c_str_def by (metis set_takeWhileD takeWhile_eq_all_conv)

lemma set_c_str: "set (c_str s) \<subseteq> set s"
  unfolding c_str_def by (auto dest: set_takeWhileD)

text \<open>\<^verbatim>\<open>std::string::operator[]\<close>: the position one past the last character reads the
  terminating zero (ISO C++11, 21.4.5), anything beyond is undefined.\<close>

definition str_at :: "byte list \<Rightarrow> nat \<Rightarrow> byte option" where
  "str_at s i = (if i < length s then Some (s ! i) else if i = length s then Some 0 else None)"

lemma str_at_less [simp]: "i < length s \<Longrightarrow> str_at s i = Some (s ! i)"
  by (simp add: str_at_def)

text \<open>\<^verbatim>\<open>std::string::back\<close>: undefined on the empty string.\<close>

definition str_back :: "byte list \<Rightarrow> byte option" where
  "str_back s = (if s = [] then None else Some (last s))"

lemma str_back_nonempty: "s \<noteq> [] \<Longrightarrow> str_back s = Some (last s)"
  by (simp add: str_back_def)

lemma str_back_append [simp]: "ys \<noteq> [] \<Longrightarrow> str_back (xs @ ys) = Some (last ys)"
  by (simp add: str_back_def)

text \<open>Array access by index with C++'s bounds: outside the array there is no value.\<close>

definition at :: "'a list \<Rightarrow> nat \<Rightarrow> 'a option" where
  "at xs i = (if i < length xs then Some (xs ! i) else None)"

lemma at_less [simp]: "i < length xs \<Longrightarrow> at xs i = Some (xs ! i)"
  by (simp add: at_def)

lemma at_None_iff [simp]: "at xs i = None \<longleftrightarrow> length xs \<le> i"
  by (simp add: at_def not_less)

section \<open>Decimal numbers\<close>

text \<open>\<^verbatim>\<open>std::to_string\<close> on an integer: its decimal digits, a minus sign first when it is
  negative.\<close>

definition digit_char :: "nat \<Rightarrow> char" where
  "digit_char d = char_of (48 + d)"

fun dec_string :: "nat \<Rightarrow> string" where
  "dec_string n =
     (if n < 10 then [digit_char n] else dec_string (n div 10) @ [digit_char (n mod 10)])"

declare dec_string.simps [simp del]

definition to_string :: "int \<Rightarrow> string" where
  "to_string i = (if i < 0 then CHR ''-'' # dec_string (nat (- i)) else dec_string (nat i))"

lemma of_digit_char: "d < 10 \<Longrightarrow> of_char (digit_char d) = (48 + d :: nat)"
  by (simp add: digit_char_def)

lemma digit_char_inj: "d < 10 \<Longrightarrow> e < 10 \<Longrightarrow> digit_char d = digit_char e \<longleftrightarrow> d = e"
  by (metis add_left_cancel of_digit_char)

definition digits :: "char set" where
  "digits = digit_char ` {..<10}"

lemma digit_char_in [simp]: "d < 10 \<Longrightarrow> digit_char d \<in> digits"
  by (simp add: digits_def)

lemma dec_string_small [simp]: "n < 10 \<Longrightarrow> dec_string n = [digit_char n]"
  by (simp add: dec_string.simps)

lemma dec_string_step: "10 \<le> n \<Longrightarrow> dec_string n = dec_string (n div 10) @ [digit_char (n mod 10)]"
  by (subst dec_string.simps) simp

lemma dec_string_nonempty [simp]: "dec_string n \<noteq> []"
  by (subst dec_string.simps) simp

lemma set_dec_string: "set (dec_string n) \<subseteq> digits"
proof (induction n rule: dec_string.induct)
  case (1 n)
  then show ?case
    by (cases "n < 10") (simp_all add: dec_string_step not_less)
qed

text \<open>Decimal printing is injective: the number is read back from its digits.\<close>

fun dec_value :: "string \<Rightarrow> nat" where
  "dec_value s = foldl (\<lambda>v c. 10 * v + (of_char c - 48)) 0 s"

lemma dec_value_dec_string: "dec_value (dec_string n) = n"
proof (induction n rule: dec_string.induct)
  case (1 n)
  then show ?case
    by (cases "n < 10") (simp_all add: dec_string_step not_less of_digit_char)
qed

lemma dec_string_inj [simp]: "dec_string m = dec_string n \<longleftrightarrow> m = n"
  by (metis dec_value_dec_string)

lemma of_char_digits: "c \<in> digits \<Longrightarrow> 48 \<le> (of_char c :: nat) \<and> (of_char c :: nat) < 58"
  by (auto simp: digits_def of_digit_char)

lemma not_digit:
  "CHR ''-'' \<notin> digits" "CHR '':'' \<notin> digits" "CHR ''@'' \<notin> digits" "CHR 0x00 \<notin> digits"
  "CHR ''.'' \<notin> digits"
  by (auto dest!: of_char_digits)

lemma minus_not_in_dec [simp]: "CHR ''-'' # s \<noteq> dec_string n" "dec_string n \<noteq> CHR ''-'' # s"
  using set_dec_string [of n] not_digit by (metis list.set_intros(1) subsetD)+

lemma to_string_inj [simp]: "to_string i = to_string j \<longleftrightarrow> i = j"
  by (auto simp: to_string_def split: if_splits)

lemma set_to_string: "set (to_string i) \<subseteq> insert (CHR ''-'') digits"
  using set_dec_string by (auto simp: to_string_def)

lemma to_string_chars [simp]:
  "CHR '':'' \<notin> set (to_string i)" "CHR ''@'' \<notin> set (to_string i)" "CHR 0x00 \<notin> set (to_string i)"
  using set_to_string [of i] not_digit by auto

section \<open>Splitting a string at a separator\<close>

text \<open>Two strings that join at their first occurrence of a separator split the same way;
  likewise at the last occurrence. The session keys and printed addresses rest on these.\<close>

lemma split_first:
  assumes "x \<notin> set a" "x \<notin> set b" "a @ x # r = b @ x # s"
  shows "a = b \<and> r = s"
  using assms by (induction a arbitrary: b) (auto simp: Cons_eq_append_conv)

lemma split_last:
  assumes "x \<notin> set r" "x \<notin> set s" "a @ x # r = b @ x # s"
  shows "a = b \<and> r = s"
proof -
  from assms(3) have "rev r @ x # rev a = rev s @ x # rev b"
    by (metis append.assoc append_Cons append_Nil rev.simps(2) rev_append rev_rev_ident)
  then show ?thesis
    using split_first [of x "rev r" "rev s" "rev a" "rev b"] assms(1,2) by simp
qed

section \<open>Collections\<close>

text \<open>The rewrite rules of each group of components: facts about libuv's handle queries,
  the functional equations of operations on buffers, and projections of state updates.\<close>

named_theorems buffer_simps "content of a packet buffer after an operation"
named_theorems uv_simps "handle queries after a libuv call"
named_theorems state_defs "state transformers of the event handlers"

end
