(* ===== verification/Log_Writer.thy ===== *)
theory Log_Writer
  imports AE_Prelude
begin

text \<open>
  The logging singleton: \<^verbatim>\<open>ae/log_writer.h\<close> and \<^verbatim>\<open>ae/log_writer.cpp\<close>. A record holds the
  fields of \<^verbatim>\<open>LogWriter\<close>; each operation returns what it emits: a call of the registered
  callback or a line on standard output. An index outside \<^verbatim>\<open>levelStr_\<close> is \<open>None\<close>.
\<close>

section \<open>Levels\<close>

datatype log_level = Debug | Info | Warn | Error | Fatal | LevelSize

fun level_int :: "log_level \<Rightarrow> int" where
  "level_int Debug = 0"
| "level_int Info = 1"
| "level_int Warn = 2"
| "level_int Error = 3"
| "level_int Fatal = 4"
| "level_int LevelSize = 5"

lemma level_int_inj [simp]: "level_int a = level_int b \<longleftrightarrow> a = b"
  by (cases a; cases b) auto

text \<open>The levels are ordered as the enumeration lists them.\<close>

instantiation log_level :: linorder
begin

definition less_eq_log_level :: "log_level \<Rightarrow> log_level \<Rightarrow> bool" where
  "less_eq_log_level a b \<longleftrightarrow> level_int a \<le> level_int b"

definition less_log_level :: "log_level \<Rightarrow> log_level \<Rightarrow> bool" where
  "less_log_level a b \<longleftrightarrow> level_int a < level_int b"

instance
  by standard (auto simp: less_eq_log_level_def less_log_level_def)

end

lemma level_int_mono: "a \<le> b \<longleftrightarrow> level_int a \<le> level_int b"
  by (simp add: less_eq_log_level_def)

section \<open>State and operations\<close>

record 'cb log_writer =
  lw_callback :: "'cb option"
  lw_level :: int
  lw_levelStr :: "string list"
  lw_nullLevel :: string

datatype 'cb log_out = LogCall 'cb log_level string | LogStdout string

definition LogWriter_init :: "'cb log_writer" where
  "LogWriter_init = \<lparr>lw_callback = None, lw_level = 0,
     lw_levelStr = [''Debug'', ''Info'', ''Warn'', ''Error'', ''Fatal''],
     lw_nullLevel = ''NullLevel''\<rparr>"

definition LogWriter_register_interface :: "'cb \<Rightarrow> 'cb log_writer \<Rightarrow> 'cb log_writer" where
  "LogWriter_register_interface cb w = w\<lparr>lw_callback := Some cb\<rparr>"

definition LogWriter_set_level :: "int \<Rightarrow> 'cb log_writer \<Rightarrow> 'cb log_writer" where
  "LogWriter_set_level l w = w\<lparr>lw_level := l\<rparr>"

definition LogWriter_get_level :: "'cb log_writer \<Rightarrow> int" where
  "LogWriter_get_level w = lw_level w"

definition LogWriter_get_level_name :: "'cb log_writer \<Rightarrow> int \<Rightarrow> string option" where
  "LogWriter_get_level_name w l =
     (if 0 \<le> l \<and> l \<le> int (length (lw_levelStr w)) then at (lw_levelStr w) (nat l)
      else Some (lw_nullLevel w))"

definition LogWriter_write :: "'cb log_writer \<Rightarrow> log_level \<Rightarrow> string \<Rightarrow> 'cb log_out list option" where
  "LogWriter_write w l msg =
     (if l \<le> Error \<and> level_int l \<ge> lw_level w \<and> l \<ge> Debug
      then (case lw_callback w of
              Some cb \<Rightarrow> Some [LogCall cb l msg]
            | None \<Rightarrow> do { name \<leftarrow> LogWriter_get_level_name w (level_int l);
                          Some [LogStdout (name @ '' :'' @ msg @ [CHR 0x0A])] })
      else Some [])"

definition LogWriter_fatal :: "'cb log_writer \<Rightarrow> string \<Rightarrow> 'cb log_out list option" where
  "LogWriter_fatal w msg = LogWriter_write w Fatal msg"

definition LogWriter_warn :: "'cb log_writer \<Rightarrow> string \<Rightarrow> 'cb log_out list option" where
  "LogWriter_warn w msg = LogWriter_write w Warn msg"

definition LogWriter_error :: "'cb log_writer \<Rightarrow> string \<Rightarrow> 'cb log_out list option" where
  "LogWriter_error w msg = LogWriter_write w Error msg"

definition LogWriter_info :: "'cb log_writer \<Rightarrow> string \<Rightarrow> 'cb log_out list option" where
  "LogWriter_info w msg = LogWriter_write w Info msg"

definition LogWriter_debug :: "'cb log_writer \<Rightarrow> string \<Rightarrow> 'cb log_out list option" where
  "LogWriter_debug w msg = LogWriter_write w Debug msg"

text \<open>The text of \<^verbatim>\<open>sprintf(buf, " 0x%x ", c)\<close> for one byte, and the loop over the data.\<close>

definition hex_digit :: "nat \<Rightarrow> char" where
  "hex_digit d = (if d < 10 then char_of (48 + d) else char_of (87 + d))"

definition hex_byte :: "byte \<Rightarrow> string" where
  "hex_byte b = (let n = unat b in
     '' 0x'' @ (if n < 16 then [hex_digit n] else [hex_digit (n div 16), hex_digit (n mod 16)])
     @ '' '')"

fun LogWriter_to_hex :: "string \<Rightarrow> byte list \<Rightarrow> string" where
  "LogWriter_to_hex message [] = message"
| "LogWriter_to_hex message (b # data) = LogWriter_to_hex (message @ hex_byte b) data"

section \<open>Facts\<close>

text \<open>A writer built by the constructor and changed only through its interface keeps its
  table of names; \<open>names_ok\<close> is what the operations rely on.\<close>

definition names_ok :: "'cb log_writer \<Rightarrow> bool" where
  "names_ok w \<longleftrightarrow> lw_levelStr w = [''Debug'', ''Info'', ''Warn'', ''Error'', ''Fatal'']"

lemma names_ok_init [simp]: "names_ok LogWriter_init"
  by (simp add: names_ok_def LogWriter_init_def)

lemma names_ok_ops [simp]:
  "names_ok (LogWriter_register_interface cb w) = names_ok w"
  "names_ok (LogWriter_set_level l w) = names_ok w"
  by (simp_all add: names_ok_def LogWriter_register_interface_def LogWriter_set_level_def)

lemma level_bounds: "0 \<le> level_int l \<and> level_int l \<le> 5"
  by (cases l) auto

lemma level_name_defined:
  assumes "names_ok w" and "l \<le> Error"
  shows "\<exists>s. LogWriter_get_level_name w (level_int l) = Some s"
  using assms level_bounds [of l]
  by (auto simp: LogWriter_get_level_name_def names_ok_def level_int_mono at_def)

lemma write_cases:
  assumes "names_ok w"
  shows "\<exists>out. LogWriter_write w l msg = Some out \<and> length out \<le> 1 \<and>
           (out \<noteq> [] \<longleftrightarrow> l \<le> Error \<and> lw_level w \<le> level_int l)"
  using assms level_name_defined [of w l] level_bounds [of l]
  by (auto simp: LogWriter_write_def level_int_mono split: option.splits)

lemma hex_byte_length: "length (hex_byte b) \<le> 6"
  by (simp add: hex_byte_def Let_def)

lemma hex_digit_inj: "d < 16 \<Longrightarrow> e < 16 \<Longrightarrow> hex_digit d = hex_digit e \<longleftrightarrow> d = e"
proof -
  have of: "of_char (hex_digit k) = (if k < 10 then 48 + k else 87 + k :: nat)" if "k < 16" for k
    using that by (simp add: hex_digit_def)
  show "d < 16 \<Longrightarrow> e < 16 \<Longrightarrow> hex_digit d = hex_digit e \<longleftrightarrow> d = e"
    by (auto dest!: arg_cong [where f = "of_char :: char \<Rightarrow> nat"] simp: of split: if_splits)
qed

lemma hex_digit_not_space: "d < 16 \<Longrightarrow> hex_digit d \<noteq> CHR '' ''"
proof
  assume "d < 16" "hex_digit d = CHR '' ''"
  then have "of_char (hex_digit d) = (32 :: nat)" by simp
  with \<open>d < 16\<close> show False by (auto simp: hex_digit_def split: if_splits)
qed

lemma hex_byte_split: "hex_byte b @ r = hex_byte c @ s \<longleftrightarrow> b = c \<and> r = s"
proof
  assume eq: "hex_byte b @ r = hex_byte c @ s"
  have lt: "unat b < 256" "unat c < 256" by simp_all
  then have dm: "unat b div 16 < 16" "unat c div 16 < 16"
    by (simp_all add: less_mult_imp_div_less)
  have "unat b = unat c \<and> r = s"
    using eq dm lt hex_digit_not_space [of "unat b mod 16"] hex_digit_not_space [of "unat c mod 16"]
    by (auto simp: hex_byte_def Let_def hex_digit_inj split: if_splits)
       (metis div_mult_mod_eq)
  then show "b = c \<and> r = s"
    by (simp add: word_unat_eq_iff)
qed simp

lemma to_hex_concat: "LogWriter_to_hex m data = m @ concat (map hex_byte data)"
  by (induction data arbitrary: m) auto

lemma concat_hex_inj: "concat (map hex_byte d) = concat (map hex_byte e) \<longleftrightarrow> d = e"
proof (induction d arbitrary: e)
  case Nil
  then show ?case by (cases e) (auto simp: hex_byte_def Let_def)
next
  case (Cons b d)
  then show ?case
    by (cases e) (auto simp: hex_byte_split, auto simp: hex_byte_def Let_def)
qed

section \<open>Properties\<close>

text \<open>A writer whose table of names is the constructor's emits exactly the messages of a level from
  the configured one up to \<open>Error\<close>, each once, to the callback when one is registered and else as
  one line on standard output with the name of the level, and reads no name outside the table.\<close>

theorem write_filter:
  assumes "names_ok w"
  shows "LogWriter_write w l msg = Some
    (if l \<le> Error \<and> lw_level w \<le> level_int l
     then (case lw_callback w of
             Some cb \<Rightarrow> [LogCall cb l msg]
           | None \<Rightarrow> [LogStdout ((lw_levelStr w ! nat (level_int l)) @ '' :'' @ msg @ [CHR 0x0A])])
     else [])"
  using assms level_bounds [of l]
  by (auto simp: LogWriter_write_def LogWriter_get_level_name_def names_ok_def level_int_mono
      split: option.splits)

theorem write_filter_witness:
  "LogWriter_write (LogWriter_set_level 2 LogWriter_init :: unit log_writer) Warn ''x'' =
     Some [LogStdout (''Warn :x'' @ [CHR 0x0A])] \<and>
   LogWriter_write (LogWriter_set_level 2 LogWriter_init :: unit log_writer) Info ''x'' = Some []"
proof -
  have ok: "names_ok (LogWriter_set_level 2 LogWriter_init :: unit log_writer)" by simp
  show ?thesis
    unfolding write_filter [OF ok] by (simp add: level_int_mono LogWriter_set_level_def LogWriter_init_def)
qed

text \<open>Nothing logged through \<^verbatim>\<open>fatal\<close> is ever emitted, whatever the level and the callback: the
  filter of \<^verbatim>\<open>write\<close> stops above \<^verbatim>\<open>Error\<close>. The name of level 5 is read one past the end of the
  table, because the bound test of \<^verbatim>\<open>get_level_name\<close> admits its length.\<close>

theorem fatal_never_emitted:
  "LogWriter_fatal w msg = Some [] \<and>
   LogWriter_get_level_name (LogWriter_init :: 'cb log_writer) 5 = None"
  by (simp add: LogWriter_fatal_def LogWriter_write_def level_int_mono LogWriter_get_level_name_def
      LogWriter_init_def)

text \<open>The hex dump of a byte string fits the eight-character buffer byte by byte (six characters and
  the terminating zero at most), is appended to the message, and determines the bytes.\<close>

theorem to_hex_faithful:
  "(\<forall>b. length (hex_byte b) + 1 \<le> 7) \<and>
   (\<exists>s. LogWriter_to_hex m d = m @ s) \<and>
   (LogWriter_to_hex m d = LogWriter_to_hex m e \<longleftrightarrow> d = e)"
  using hex_byte_length by (simp add: to_hex_concat concat_hex_inj)

end
