(* ===== verification/Packet_Buffer.thy ===== *)
theory Packet_Buffer
  imports Log_Writer
begin

text \<open>
  The receive buffer of a connection: the abstract class \<^verbatim>\<open>PacketBuffer\<close>
  (\<^verbatim>\<open>ae/packet_buffer.h\<close>) as a table of its virtual functions, and the one implementation
  the repository has, \<^verbatim>\<open>ListBuffer\<close> (\<^verbatim>\<open>ae/list_buffer.h\<close>, \<^verbatim>\<open>ae/list_buffer.cpp\<close>). The
  locale \<open>byte_queue\<close> states what a caller relies on: the buffer holds a byte sequence, to
  whose end bytes are appended and from whose front they are read and cleared.
\<close>

section \<open>The virtual functions\<close>

text \<open>One field per pure virtual function. The out-parameter \<^verbatim>\<open>std::string& data\<close> of
  \<^verbatim>\<open>read_buffer_n\<close> is an argument and part of the result; \<open>None\<close> is undefined behaviour.\<close>

record 'b packet_buffer =
  pb_append :: "byte list \<Rightarrow> 'b \<Rightarrow> int \<times> 'b"
  pb_read_buffer_n :: "nat \<Rightarrow> 'b \<Rightarrow> byte list \<Rightarrow> (int \<times> byte list) option"
  pb_clear_buffer_n :: "nat \<Rightarrow> 'b \<Rightarrow> int \<times> 'b"
  pb_clear :: "'b \<Rightarrow> int \<times> 'b"
  pb_read_size :: "'b \<Rightarrow> nat"

locale byte_queue =
  fixes ops :: "'b packet_buffer"
    and content :: "'b \<Rightarrow> byte list"
  assumes size_content: "pb_read_size ops b = length (content b)"
    and append_rc: "fst (pb_append ops d b) = 0"
    and append_content: "content (snd (pb_append ops d b)) = content b @ d"
    and read_ok: "n \<le> length (content b) \<Longrightarrow>
      pb_read_buffer_n ops n b d = Some (0, d @ take n (content b))"
    and read_short: "length (content b) < n \<Longrightarrow> pb_read_buffer_n ops n b d = Some (- 1, d)"
    and clear_n_rc: "fst (pb_clear_buffer_n ops n b) = 0"
    and clear_n_content: "content (snd (pb_clear_buffer_n ops n b)) = drop n (content b)"
    and clear_rc: "fst (pb_clear ops b) = 0"
    and clear_content: "content (snd (pb_clear ops b)) = []"
begin

lemmas queue_content [buffer_simps] =
  size_content append_content clear_n_content clear_content

text \<open>A read never runs off the buffer, whatever length is asked for.\<close>

lemma read_defined: "\<exists>r d'. pb_read_buffer_n ops n b d = Some (r, d')"
  by (cases "n \<le> length (content b)") (auto simp: read_ok read_short)

text \<open>Clearing in two goes is clearing once.\<close>

lemma clear_n_twice:
  "content (snd (pb_clear_buffer_n ops m (snd (pb_clear_buffer_n ops n b)))) =
   drop (m + n) (content b)"
  by (simp add: buffer_simps)

text \<open>First in, first out: what was appended last is read last.\<close>

lemma fifo:
  assumes "n \<le> length (content b)"
  shows "pb_read_buffer_n ops n (snd (pb_append ops d b)) acc = pb_read_buffer_n ops n b acc"
  using assms by (simp add: read_ok buffer_simps)

end

section \<open>ListBuffer\<close>

record list_buffer =
  lb_buffer :: "byte list"

definition ListBuffer_init :: list_buffer where
  "ListBuffer_init = \<lparr>lb_buffer = []\<rparr>"

text \<open>The loop of \<^verbatim>\<open>append\<close>: one \<^verbatim>\<open>push_back\<close> per byte of the source range.\<close>

fun push_all :: "byte list \<Rightarrow> byte list \<Rightarrow> byte list" where
  "push_all buf [] = buf"
| "push_all buf (c # data) = push_all (buf @ [c]) data"

definition ListBuffer_append :: "byte list \<Rightarrow> list_buffer \<Rightarrow> int \<times> list_buffer" where
  "ListBuffer_append data b = (0, b\<lparr>lb_buffer := push_all (lb_buffer b) data\<rparr>)"

text \<open>The loop of \<^verbatim>\<open>read_buffer_n\<close>: \<open>it\<close> is what the iterator has still to visit;
  dereferencing it at the end of the list is undefined.\<close>

fun copy_n :: "nat \<Rightarrow> byte list \<Rightarrow> byte list \<Rightarrow> byte list option" where
  "copy_n 0 it data = Some data"
| "copy_n (Suc n) [] data = None"
| "copy_n (Suc n) (c # it) data = copy_n n it (data @ [c])"

definition ListBuffer_read_buffer_n ::
    "nat \<Rightarrow> list_buffer \<Rightarrow> byte list \<Rightarrow> (int \<times> byte list) option" where
  "ListBuffer_read_buffer_n N b data =
     (if N > length (lb_buffer b) then Some (- 1, data)
      else do { data' \<leftarrow> copy_n N (lb_buffer b) data; Some (0, data') })"

definition ListBuffer_read_size :: "list_buffer \<Rightarrow> nat" where
  "ListBuffer_read_size b = length (lb_buffer b)"

text \<open>The loop of \<^verbatim>\<open>clear_buffer_n\<close> with its \<^verbatim>\<open>break\<close> on the empty list.\<close>

fun pop_n :: "nat \<Rightarrow> byte list \<Rightarrow> byte list" where
  "pop_n 0 buf = buf"
| "pop_n (Suc n) buf = (case buf of [] \<Rightarrow> [] | _ # buf' \<Rightarrow> pop_n n buf')"

definition ListBuffer_clear_buffer_n :: "nat \<Rightarrow> list_buffer \<Rightarrow> int \<times> list_buffer" where
  "ListBuffer_clear_buffer_n N b = (0, b\<lparr>lb_buffer := pop_n N (lb_buffer b)\<rparr>)"

definition ListBuffer_clear :: "list_buffer \<Rightarrow> int \<times> list_buffer" where
  "ListBuffer_clear b = (0, b\<lparr>lb_buffer := []\<rparr>)"

definition ListBuffer_ops :: "list_buffer packet_buffer" where
  "ListBuffer_ops = \<lparr>pb_append = ListBuffer_append, pb_read_buffer_n = ListBuffer_read_buffer_n,
     pb_clear_buffer_n = ListBuffer_clear_buffer_n, pb_clear = ListBuffer_clear,
     pb_read_size = ListBuffer_read_size\<rparr>"

lemmas ListBuffer_defs =
  ListBuffer_ops_def ListBuffer_append_def ListBuffer_read_buffer_n_def ListBuffer_read_size_def
  ListBuffer_clear_buffer_n_def ListBuffer_clear_def

lemma push_all_append: "push_all buf data = buf @ data"
  by (induction data arbitrary: buf) auto

lemma copy_n_take: "n \<le> length it \<Longrightarrow> copy_n n it data = Some (data @ take n it)"
  by (induction n it data rule: copy_n.induct) auto

lemma pop_n_drop: "pop_n n buf = drop n buf"
  by (induction n arbitrary: buf) (auto split: list.splits)

interpretation lb: byte_queue ListBuffer_ops lb_buffer
  by unfold_locales (auto simp: ListBuffer_defs push_all_append copy_n_take pop_n_drop)

end
