(* ===== verification/Packet.thy ===== *)
theory Packet
  imports Packet_Buffer
begin

text \<open>
  The framing codec: \<^verbatim>\<open>ae/packet.h\<close> and \<^verbatim>\<open>ae/packet.cpp\<close>. A frame is a head byte, the
  16-bit payload size in the configured byte order, the payload and an end byte. The static
  members of \<^verbatim>\<open>Packet\<close> (head byte, end byte, byte order) can be reassigned by an
  application, so they are a record the operations take.
\<close>

section \<open>Data\<close>

datatype data_mode = BigEndian | LittleEndian

record packet_cfg =
  HeadByte :: byte
  EndByte :: byte
  Mode :: data_mode

definition Packet_statics :: packet_cfg where
  "Packet_statics = \<lparr>HeadByte = 0x7e, EndByte = 0xe7, Mode = LittleEndian\<rparr>"

record packet =
  pk_buffer :: "byte list"
  pk_dataSize :: u16

definition Packet_init :: packet where
  "Packet_init = \<lparr>pk_buffer = [], pk_dataSize = 0\<rparr>"

section \<open>Numbers in a byte order\<close>

text \<open>The templates \<^verbatim>\<open>unpack_num\<close> and \<^verbatim>\<open>pack_num\<close>, for an unsigned type of any width. The
  index sequence of the loop is a list; \<open>off\<close> is the offset of the pointer in its buffer.\<close>

fun get_loop :: "nat list \<Rightarrow> nat \<Rightarrow> byte list \<Rightarrow> 'a::len word \<Rightarrow> 'a word option" where
  "get_loop [] off data num = Some num"
| "get_loop (i # is) off data num =
     do { c \<leftarrow> str_at data (off + i); get_loop is off data (push_bit 8 num OR ucast c) }"

definition Packet_unpack_num :: "data_mode \<Rightarrow> byte list \<Rightarrow> nat \<Rightarrow> 'a::len word option" where
  "Packet_unpack_num mode data off =
     (let size = LENGTH('a) div 8 in
      case mode of
        BigEndian \<Rightarrow> get_loop [0..<size] off data 0
      | LittleEndian \<Rightarrow> get_loop (rev [0..<size]) off data 0)"

fun put_loop :: "nat list \<Rightarrow> nat \<Rightarrow> 'a::len word \<Rightarrow> byte list \<Rightarrow> byte list option" where
  "put_loop [] off num data = Some data"
| "put_loop (i # is) off num data =
     (if off + i < length data
      then put_loop is off (drop_bit 8 num) (data[off + i := ucast (num AND 0xff)])
      else None)"

definition Packet_pack_num :: "data_mode \<Rightarrow> nat \<Rightarrow> 'a::len word \<Rightarrow> byte list \<Rightarrow> byte list option" where
  "Packet_pack_num mode off num data =
     (let size = LENGTH('a) div 8 in
      case mode of
        BigEndian \<Rightarrow> put_loop (rev [0..<size]) off num data
      | LittleEndian \<Rightarrow> put_loop [0..<size] off num data)"

section \<open>Building a frame\<close>

definition packet_min_size :: nat where
  "packet_min_size = 4"

text \<open>\<^verbatim>\<open>std::string::resize\<close> and \<^verbatim>\<open>std::copy\<close> into a buffer at an offset.\<close>

definition str_resize :: "nat \<Rightarrow> byte list \<Rightarrow> byte list" where
  "str_resize n s = take n s @ replicate (n - length s) 0"

fun copy_to :: "nat \<Rightarrow> byte list \<Rightarrow> byte list \<Rightarrow> byte list option" where
  "copy_to off [] buf = Some buf"
| "copy_to off (c # data) buf =
     (if off < length buf then copy_to (Suc off) data (buf[off := c]) else None)"

definition Packet_pack :: "packet_cfg \<Rightarrow> byte list \<Rightarrow> u16 \<Rightarrow> packet \<Rightarrow> packet option" where
  "Packet_pack cfg data sz p =
     (let buf = (str_resize (unat sz + packet_min_size) (pk_buffer p))[0 := HeadByte cfg] in
      do {
        buf \<leftarrow> Packet_pack_num (Mode cfg) 1 sz buf;
        buf \<leftarrow> (if unat sz \<le> length data then copy_to 3 (take (unat sz) data) buf else None);
        Some (p\<lparr>pk_dataSize := sz, pk_buffer := buf[length buf - 1 := EndByte cfg]\<rparr>)
      })"

definition Packet_get_data :: "packet \<Rightarrow> byte list" where
  "Packet_get_data p = drop 3 (pk_buffer p)"

definition Packet_data_size :: "packet \<Rightarrow> u16" where
  "Packet_data_size p = pk_dataSize p"

definition Packet_buffer :: "packet \<Rightarrow> byte list" where
  "Packet_buffer p = pk_buffer p"

definition Packet_packet_size :: "packet \<Rightarrow> u32" where
  "Packet_packet_size p = of_nat (length (pk_buffer p))"

definition Packet_swap :: "byte list \<Rightarrow> packet \<Rightarrow> packet" where
  "Packet_swap str p =
     p\<lparr>pk_buffer := str, pk_dataSize := of_nat (length str) - of_nat packet_min_size\<rparr>"

text \<open>What an application reads through \<^verbatim>\<open>get_data()\<close> and \<^verbatim>\<open>data_size()\<close>.\<close>

definition Packet_payload :: "packet \<Rightarrow> byte list" where
  "Packet_payload p = take (unat (Packet_data_size p)) (Packet_get_data p)"

section \<open>Reading a frame\<close>

text \<open>The \<^verbatim>\<open>while (true)\<close> loop of \<^verbatim>\<open>read_from_buffer\<close> over a buffer's virtual functions;
  \<open>data\<close> is the local string. As the functions are arbitrary here, the loop may not return:
  \<open>None\<close>. The size of a whole message is a \<^verbatim>\<open>uint16_t\<close>, so its sum wraps.\<close>

partial_function (option) read_loop ::
    "'b packet_buffer \<Rightarrow> packet_cfg \<Rightarrow> 'b \<Rightarrow> byte list \<Rightarrow> packet \<Rightarrow> (int \<times> 'b \<times> packet) option" where
  "read_loop ops cfg b data out =
     (let size = pb_read_size ops b in
      if size < packet_min_size then Some (- 1, b, out)
      else Option.bind (pb_read_buffer_n ops 3 b data) (\<lambda>(_, data).
        Option.bind (str_at data 0) (\<lambda>h.
          if h \<noteq> HeadByte cfg then read_loop ops cfg (snd (pb_clear_buffer_n ops 1 b)) [] out
          else Option.bind (Packet_unpack_num (Mode cfg) data 1) (\<lambda>dataSize :: u16.
            let msgsize = dataSize + of_nat packet_min_size in
            if size < unat msgsize then Some (- 1, b, out)
            else
              let b = snd (pb_clear_buffer_n ops 3 b) in
              Option.bind (pb_read_buffer_n ops (unat dataSize + 1) b data) (\<lambda>(_, data).
                Option.bind (str_back data) (\<lambda>e.
                  if e = EndByte cfg
                  then Some (0, snd (pb_clear_buffer_n ops (unat dataSize + 1) b),
                             Packet_swap data out)
                  else read_loop ops cfg b data out))))))"

declare read_loop.simps [code]

definition Packet_read_from_buffer ::
    "packet_cfg \<Rightarrow> 'b packet_buffer \<Rightarrow> 'b \<Rightarrow> packet \<Rightarrow> (int \<times> 'b \<times> packet) option" where
  "Packet_read_from_buffer cfg ops b out = read_loop ops cfg b [] out"

section \<open>Numbers: round trip in both byte orders\<close>

text \<open>Packing walks the indices from the least significant byte, unpacking walks the same
  indices backwards. After packing, index \<open>js ! k\<close> holds bits \<open>8 k .. 8 k + 7\<close>.\<close>

lemma byte_of_word: "ucast ((w :: 'a::len word) AND 0xff) = (ucast w :: byte)"
proof -
  have "(0xff :: 'a word) = mask 8"
    by (simp add: mask_eq_exp_minus_1)
  then have "w AND 0xff = take_bit 8 w"
    by (simp only: take_bit_eq_mask)
  then show ?thesis
    by (simp only:) (rule bit_word_eqI, auto simp: bit_simps dest: bit_imp_le_length)
qed

lemma put_loop_length: "put_loop js off w data = Some data' \<Longrightarrow> length data' = length data"
  by (induction js off w data rule: put_loop.induct) (auto split: if_splits)

lemma put_loop_other:
  "put_loop js off w data = Some data' \<Longrightarrow> (\<forall>j \<in> set js. k \<noteq> off + j) \<Longrightarrow> data' ! k = data ! k"
  by (induction js off w data rule: put_loop.induct) (auto split: if_splits)

lemma put_loop_defined:
  "\<forall>j \<in> set js. off + j < length data \<Longrightarrow> \<exists>data'. put_loop js off w data = Some data'"
  by (induction js off w data rule: put_loop.induct) auto

lemma get_loop_append:
  "get_loop (is @ js) off data num = Option.bind (get_loop is off data num) (get_loop js off data)"
  by (induction "is" off data num rule: get_loop.induct)
    (auto split: Option.bind_splits)

lemma word_from_bytes: "push_bit 8 (drop_bit 8 w) OR ucast (ucast w :: byte) = (w :: 'a::len word)"
  by (rule bit_word_eqI) (auto simp: bit_simps)

lemma get_put_loop:
  assumes "put_loop js off w data = Some data'" "distinct js" "drop_bit (8 * length js) w = 0"
  shows "get_loop (rev js) off data' 0 = Some w"
  using assms
proof (induction js off w data rule: put_loop.induct)
  case (1 off num data)
  then show ?case by simp
next
  case (2 i js off w data)
  let ?d = "data[off + i := ucast (w AND 0xff)]"
  from "2.prems" have put: "put_loop js off (drop_bit 8 w) ?d = Some data'" and i: "off + i < length data"
    and dist: "distinct js" "i \<notin> set js"
    by (auto split: if_splits)
  have "get_loop (rev js) off data' 0 = Some (drop_bit 8 w)"
    using "2.IH" [OF i put] dist "2.prems"(3) by (simp add: add.commute)
  moreover have "data' ! (off + i) = ucast w"
    using put_loop_other [OF put, of "off + i"] dist(2) i by (auto simp: byte_of_word)
  ultimately show ?case
    using put_loop_length [OF put] i by (simp add: get_loop_append word_from_bytes)
qed

lemma pack_num_defined:
  assumes "off + LENGTH('a) div 8 \<le> length data"
  shows "\<exists>data'. Packet_pack_num mode off (w :: 'a::len word) data = Some data'"
  using assms by (auto simp: Packet_pack_num_def Let_def intro!: put_loop_defined split: data_mode.split)

lemma unpack_pack_num:
  assumes "Packet_pack_num mode off (w :: 'a::len word) data = Some data'" "8 dvd LENGTH('a)"
  shows "Packet_unpack_num mode data' off = Some w"
proof -
  have "drop_bit (8 * (LENGTH('a) div 8)) w = 0"
    using assms(2) by (intro bit_word_eqI) (auto simp: bit_simps dest: bit_imp_le_length)
  then show ?thesis
    using assms(1) get_put_loop [where js = "[0..<LENGTH('a) div 8]"]
      get_put_loop [where js = "rev [0..<LENGTH('a) div 8]"]
    by (auto simp: Packet_pack_num_def Packet_unpack_num_def Let_def split: data_mode.splits)
qed

section \<open>Frames\<close>

text \<open>The frame of a payload as the comment of \<^verbatim>\<open>ae/packet.h\<close> draws it, and the 16-bit number
  two bytes spell in a byte order.\<close>

definition size_bytes :: "data_mode \<Rightarrow> u16 \<Rightarrow> byte list" where
  "size_bytes mode w = (case mode of
     BigEndian \<Rightarrow> [ucast (drop_bit 8 w), ucast w] | LittleEndian \<Rightarrow> [ucast w, ucast (drop_bit 8 w)])"

definition size_of_bytes :: "data_mode \<Rightarrow> byte \<Rightarrow> byte \<Rightarrow> u16" where
  "size_of_bytes mode x y = (case mode of
     BigEndian \<Rightarrow> push_bit 8 (ucast x) OR ucast y | LittleEndian \<Rightarrow> push_bit 8 (ucast y) OR ucast x)"

definition frame :: "packet_cfg \<Rightarrow> byte list \<Rightarrow> byte list" where
  "frame cfg d = HeadByte cfg # size_bytes (Mode cfg) (of_nat (length d)) @ d @ [EndByte cfg]"

lemma length_size_bytes [simp]: "length (size_bytes mode w) = 2"
  by (simp add: size_bytes_def split: data_mode.split)

lemma size_bytes_pair: "\<exists>x y. size_bytes mode w = [x, y]"
  by (cases mode) (simp_all add: size_bytes_def)

lemma length_frame [simp]: "length (frame cfg d) = length d + 4"
  by (simp add: frame_def)

lemma u16_from_bytes:
  "push_bit 8 (ucast (ucast (drop_bit 8 w) :: byte)) OR ucast (ucast w :: byte) = (w :: u16)"
proof (rule bit_word_eqI)
  fix n assume "n < LENGTH(16)"
  then show "bit (push_bit 8 (ucast (ucast (drop_bit 8 w) :: byte)) OR ucast (ucast w :: byte) :: u16) n
      \<longleftrightarrow> bit w n"
    by (cases "n < 8") (auto simp: bit_simps)
qed

lemma size_of_size_bytes: "size_bytes mode w = [x, y] \<Longrightarrow> size_of_bytes mode x y = w"
  by (auto simp: size_bytes_def size_of_bytes_def u16_from_bytes split: data_mode.splits)

lemma unpack_size:
  assumes "3 \<le> length data"
  shows "Packet_unpack_num mode data 1 = Some (size_of_bytes mode (data ! 1) (data ! 2))"
  using assms
  by (simp add: Packet_unpack_num_def size_of_bytes_def upt_rec str_at_def numeral_2_eq_2
      split: data_mode.split)

lemma pack_size:
  "Packet_pack_num mode 1 (w :: u16) (a # b # c # r) = Some (a # size_bytes mode w @ r)"
  by (simp add: Packet_pack_num_def size_bytes_def upt_rec byte_of_word split: data_mode.split)

lemma copy_to_eq:
  "off + length data \<le> length buf \<Longrightarrow>
   copy_to off data buf = Some (take off buf @ data @ drop (off + length data) buf)"
proof (induction off data buf rule: copy_to.induct)
  case (2 off c data buf)
  then show ?case
    by (simp add: take_Suc_conv_app_nth take_update_cancel)
qed simp

lemma length_str_resize [simp]: "length (str_resize n s) = n"
  by (simp add: str_resize_def)

lemma pack_frame:
  assumes "unat sz \<le> length data"
  shows "Packet_pack cfg data sz p =
    Some (p\<lparr>pk_buffer := frame cfg (take (unat sz) data), pk_dataSize := sz\<rparr>)"
proof -
  let ?n = "unat sz" let ?d = "take (unat sz) data"
  have "length (str_resize (?n + packet_min_size) (pk_buffer p)) = Suc (Suc (Suc (Suc ?n)))"
    by (simp add: packet_min_size_def)
  then obtain a b c r where buf: "str_resize (?n + packet_min_size) (pk_buffer p) = a # b # c # r"
    and r: "length r = Suc ?n"
    by (metis (no_types, lifting) length_Suc_conv)
  obtain x y where xy: "size_bytes (Mode cfg) sz = [x, y]"
    using size_bytes_pair by blast
  from r obtain q e where qe: "r = q @ [e]" "length q = ?n"
    by (metis append_butlast_last_id diff_Suc_1 length_butlast list.size(3) nat.distinct(1))
  have copy: "copy_to 3 ?d (HeadByte cfg # x # y # q @ [e]) = Some (HeadByte cfg # x # y # ?d @ [e])"
    using assms qe(2) by (simp add: copy_to_eq drop_Cons')
  have upd: "(HeadByte cfg # x # y # ?d @ [e])[length (HeadByte cfg # x # y # ?d @ [e]) - 1 := EndByte cfg]
      = frame cfg ?d"
    using assms xy by (simp add: frame_def list_update_append)
  show ?thesis
    using assms copy upd
    by (simp add: Packet_pack_def buf qe(1) pack_size [unfolded One_nat_def] xy)
qed

section \<open>The reading loop on byte sequences\<close>

text \<open>What the loop does to the content of the buffer, as a total function: the rest of the
  content, and the string handed to \<^verbatim>\<open>swap\<close> when a frame is complete. Every turn of the loop
  removes a byte or ends it, so the length of the content is the termination measure.\<close>

definition hdr :: "byte list \<Rightarrow> byte list \<Rightarrow> byte list" where
  "hdr data c = data @ take 3 c"

definition hdr_size :: "packet_cfg \<Rightarrow> byte list \<Rightarrow> byte list \<Rightarrow> u16" where
  "hdr_size cfg data c = size_of_bytes (Mode cfg) (hdr data c ! 1) (hdr data c ! 2)"

definition body :: "packet_cfg \<Rightarrow> byte list \<Rightarrow> byte list \<Rightarrow> byte list" where
  "body cfg data c = (let n = unat (hdr_size cfg data c) + 1 in
     if n \<le> length (drop 3 c) then hdr data c @ take n (drop 3 c) else hdr data c)"

function parse :: "packet_cfg \<Rightarrow> byte list \<Rightarrow> byte list \<Rightarrow> byte list \<times> byte list option" where
  "parse cfg c data =
     (if length c < 4 then (c, None)
      else if hd (hdr data c) \<noteq> HeadByte cfg then parse cfg (drop 1 c) []
      else if length c < unat (hdr_size cfg data c + 4) then (c, None)
      else if last (body cfg data c) = EndByte cfg
      then (drop (unat (hdr_size cfg data c) + 1) (drop 3 c), Some (body cfg data c))
      else parse cfg (drop 3 c) (body cfg data c))"
  by pat_completeness auto
termination
  by (relation "measure (\<lambda>(cfg, c, data). length c)") auto

declare parse.simps [simp del]

lemma parse_short: "length c < 4 \<Longrightarrow> parse cfg c data = (c, None)"
  by (simp add: parse.simps)

lemma parse_skip:
  "4 \<le> length c \<Longrightarrow> hd (hdr data c) \<noteq> HeadByte cfg \<Longrightarrow> parse cfg c data = parse cfg (drop 1 c) []"
  by (subst parse.simps) simp

lemma parse_wait:
  "4 \<le> length c \<Longrightarrow> hd (hdr data c) = HeadByte cfg \<Longrightarrow> length c < unat (hdr_size cfg data c + 4) \<Longrightarrow>
   parse cfg c data = (c, None)"
  by (subst parse.simps) simp

lemma parse_hit:
  "4 \<le> length c \<Longrightarrow> hd (hdr data c) = HeadByte cfg \<Longrightarrow> unat (hdr_size cfg data c + 4) \<le> length c \<Longrightarrow>
   last (body cfg data c) = EndByte cfg \<Longrightarrow>
   parse cfg c data = (drop (unat (hdr_size cfg data c) + 1) (drop 3 c), Some (body cfg data c))"
  by (subst parse.simps) simp

lemma parse_miss:
  "4 \<le> length c \<Longrightarrow> hd (hdr data c) = HeadByte cfg \<Longrightarrow> unat (hdr_size cfg data c + 4) \<le> length c \<Longrightarrow>
   last (body cfg data c) \<noteq> EndByte cfg \<Longrightarrow>
   parse cfg c data = parse cfg (drop 3 c) (body cfg data c)"
  by (subst parse.simps) simp

lemmas parse_turns = parse_short parse_skip parse_wait parse_hit parse_miss

lemma parse_turn_cases:
  obtains (short) "length c < 4"
  | (skip) "4 \<le> length c" "hd (hdr data c) \<noteq> HeadByte cfg"
  | (wait) "4 \<le> length c" "hd (hdr data c) = HeadByte cfg" "length c < unat (hdr_size cfg data c + 4)"
  | (hit) "4 \<le> length c" "hd (hdr data c) = HeadByte cfg" "unat (hdr_size cfg data c + 4) \<le> length c"
      "last (body cfg data c) = EndByte cfg"
  | (miss) "4 \<le> length c" "hd (hdr data c) = HeadByte cfg" "unat (hdr_size cfg data c + 4) \<le> length c"
      "last (body cfg data c) \<noteq> EndByte cfg"
  by (meson not_less)

context byte_queue
begin

text \<open>One turn of the loop, with the virtual calls replaced by their effect on the content.\<close>

lemma read_loop_turn:
  "read_loop ops cfg b data out =
     (let c = content b; b3 = snd (pb_clear_buffer_n ops 3 b) in
      if length c < 4 then Some (- 1, b, out)
      else if hd (hdr data c) \<noteq> HeadByte cfg
      then read_loop ops cfg (snd (pb_clear_buffer_n ops 1 b)) [] out
      else if length c < unat (hdr_size cfg data c + 4) then Some (- 1, b, out)
      else if last (body cfg data c) = EndByte cfg
      then Some (0, snd (pb_clear_buffer_n ops (unat (hdr_size cfg data c) + 1) b3),
                 Packet_swap (body cfg data c) out)
      else read_loop ops cfg b3 (body cfg data c) out)"
proof (cases "length (content b) < 4")
  case True
  then show ?thesis
    by (subst read_loop.simps) (simp add: packet_min_size_def size_content)
next
  case False
  let ?c = "content b" let ?d = "hdr data ?c" let ?b3 = "snd (pb_clear_buffer_n ops 3 b)"
  let ?n = "unat (hdr_size cfg data ?c) + 1"
  have len: "3 \<le> length ?d" and ne: "?d \<noteq> []" "body cfg data ?c \<noteq> []"
    using False by (auto simp: hdr_def body_def Let_def)
  have rd3: "pb_read_buffer_n ops 3 b data = Some (0, ?d)"
    using False by (simp add: read_ok hdr_def)
  obtain r where rd: "pb_read_buffer_n ops ?n ?b3 ?d = Some (r, body cfg data ?c)"
    by (cases "?n \<le> length (content ?b3)")
      (auto simp: read_ok read_short body_def Let_def buffer_simps)
  have h: "str_at ?d 0 = Some (hd ?d)"
    using ne by (simp add: hd_conv_nth)
  show ?thesis
    using False unpack_size [OF len, of "Mode cfg"] str_back_nonempty [OF ne(2)]
    by (subst read_loop.simps) (simp only: Let_def size_content rd3 rd h packet_min_size_def
        hdr_size_def [symmetric] Option.bind.bind_lunit case_prod_conv if_False of_nat_numeral)
qed

text \<open>The loop over any lawful buffer returns, and computes \<open>parse\<close> on the content.\<close>

lemma read_loop_parse:
  "\<exists>b'. read_loop ops cfg b data out =
      Some (case snd (parse cfg (content b) data) of
              None \<Rightarrow> (- 1, b', out) | Some d \<Rightarrow> (0, b', Packet_swap d out)) \<and>
    content b' = fst (parse cfg (content b) data)"
proof (induction cfg "content b" data arbitrary: b rule: parse.induct)
  case (1 cfg data b)
  let ?c = "content b" let ?b3 = "snd (pb_clear_buffer_n ops 3 b)"
  show ?case
  proof (cases rule: parse_turn_cases [where c = ?c and data = data and cfg = cfg])
    case skip
    then show ?thesis
      using "1.hyps"(1) [of "snd (pb_clear_buffer_n ops 1 b)"]
      by (subst read_loop_turn) (simp add: buffer_simps Let_def parse_skip)
  next
    case miss
    then have "\<exists>b'. read_loop ops cfg ?b3 (body cfg data ?c) out =
        Some (case snd (parse cfg (content ?b3) (body cfg data ?c)) of
                None \<Rightarrow> (- 1, b', out) | Some d \<Rightarrow> (0, b', Packet_swap d out)) \<and>
      content b' = fst (parse cfg (content ?b3) (body cfg data ?c))"
      using "1.hyps"(2) [of ?b3] by (simp add: buffer_simps)
    with miss show ?thesis
      by (subst read_loop_turn) (simp add: buffer_simps Let_def parse_miss)
  qed (subst read_loop_turn, simp add: buffer_simps Let_def parse_turns)+
qed

end

text \<open>Four facts about the reference: a whole frame is taken off, bytes before it that are not
  the head byte are skipped, an incomplete frame is left alone, and what is left is always an
  end piece of the input.\<close>

lemma size_no_wrap:
  assumes "length d \<le> 65531"
  shows "unat ((of_nat (length d) :: u16) + 4) = length d + 4"
    and "unat (of_nat (length d) :: u16) = length d"
proof -
  have "((of_nat (length d) :: u16) + 4) = of_nat (length d + 4)" by simp
  then show "unat ((of_nat (length d) :: u16) + 4) = length d + 4"
    using assms by (simp only: unsigned_of_nat) (simp add: take_bit_nat_eq_self)
  show "unat (of_nat (length d) :: u16) = length d"
    using assms by (simp add: unsigned_of_nat take_bit_nat_eq_self)
qed

lemma frame_split:
  "\<exists>x y. frame cfg d = HeadByte cfg # x # y # d @ [EndByte cfg] \<and>
     size_of_bytes (Mode cfg) x y = of_nat (length d)"
  using size_bytes_pair [of "Mode cfg" "of_nat (length d)"]
  by (auto simp: frame_def dest: size_of_size_bytes)

text \<open>The header fields of a content that starts like a frame.\<close>

lemma header_simps:
  "hdr [] (h # x # y # r) = [h, x, y]"
  "hdr_size cfg [] (h # x # y # r) = size_of_bytes (Mode cfg) x y"
  "body cfg [] (h # x # y # r) =
     (let n = unat (size_of_bytes (Mode cfg) x y) + 1 in
      if n \<le> length r then h # x # y # take n r else [h, x, y])"
  by (simp_all add: hdr_def hdr_size_def body_def numeral_3_eq_3 numeral_2_eq_2 Let_def)

lemma parse_frame:
  assumes "length d \<le> 65531"
  shows "parse cfg (frame cfg d @ rest) [] = (rest, Some (frame cfg d))"
proof -
  obtain x y where xy: "frame cfg d = HeadByte cfg # x # y # d @ [EndByte cfg]"
    "size_of_bytes (Mode cfg) x y = of_nat (length d)"
    using frame_split by blast
  show ?thesis
    using size_no_wrap [OF assms]
    by (subst parse_hit) (simp_all add: xy header_simps numeral_3_eq_3)
qed

lemma parse_partial:
  assumes "length d \<le> 65531" "strict_prefix c (frame cfg d)"
  shows "parse cfg c [] = (c, None)"
proof (cases "length c < 4")
  case False
  obtain x y where xy: "frame cfg d = HeadByte cfg # x # y # d @ [EndByte cfg]"
    "size_of_bytes (Mode cfg) x y = of_nat (length d)"
    using frame_split by blast
  from assms(2) have len: "length c < length d + 4"
    using prefix_length_less by fastforce
  from assms(2) False obtain c' where c: "c = HeadByte cfg # x # y # c'"
    unfolding xy(1) by (auto simp: strict_prefix_def prefix_Cons not_less Suc_le_length_iff
        eval_nat_numeral)
  show ?thesis
    using size_no_wrap [OF assms(1)] False len
    by (subst parse_wait) (simp_all add: c xy(2) header_simps Suc_le_eq)
qed (simp add: parse_short)

lemma parse_junk:
  assumes "HeadByte cfg \<notin> set junk" "4 \<le> length c"
  shows "parse cfg (junk @ c) [] = parse cfg c []"
  using assms by (induction junk) (auto simp: parse_skip hdr_def)

lemma parse_suffix: "suffix (fst (parse cfg c data)) c"
proof (induction cfg c data rule: parse.induct)
  case (1 cfg c data)
  show ?case
  proof (cases rule: parse_turn_cases [where c = c and data = data and cfg = cfg])
    case skip
    with "1.IH"(1) have "suffix (fst (parse cfg (drop 1 c) [])) (drop 1 c)" by simp
    with skip show ?thesis
      using suffix_order.trans [OF _ suffix_drop] by (simp add: parse_skip)
  next
    case miss
    with "1.IH"(2) have "suffix (fst (parse cfg (drop 3 c) (body cfg data c))) (drop 3 c)" by simp
    with miss show ?thesis
      using suffix_order.trans [OF _ suffix_drop] by (simp add: parse_miss)
  qed (simp_all add: parse_short parse_wait parse_hit suffix_drop)
qed

lemma parse_progress: "parse cfg c data = (r, Some d) \<Longrightarrow> length r < length c"
proof (induction cfg c data arbitrary: r d rule: parse.induct)
  case (1 cfg c data)
  show ?case
  proof (cases rule: parse_turn_cases [where c = c and data = data and cfg = cfg])
    case skip
    with "1.IH"(1) [of r d] "1.prems" show ?thesis by (simp add: parse_skip)
  next
    case miss
    with "1.IH"(2) [of r d] "1.prems" show ?thesis by (simp add: parse_miss)
  qed (use "1.prems" in \<open>auto simp: parse_short parse_wait parse_hit\<close>)
qed

end
