(* ===== verification/Packet_Stream.thy ===== *)
theory Packet_Stream
  imports Packet
begin

text \<open>
  The properties of the framing codec over \<open>ListBuffer\<close>: packing and reading back, waiting for
  the rest of a fragmented frame, independence of how the bytes of a stream are cut into
  chunks, termination of the reading loop, and the two inputs on which the loop loses frames.
\<close>

section \<open>Reading over a list buffer\<close>

lemma read_lb:
  "\<exists>b'. Packet_read_from_buffer cfg ListBuffer_ops b out =
      Some (case snd (parse cfg (lb_buffer b) []) of
              None \<Rightarrow> (- 1, b', out) | Some d \<Rightarrow> (0, b', Packet_swap d out)) \<and>
    lb_buffer b' = fst (parse cfg (lb_buffer b) [])"
  unfolding Packet_read_from_buffer_def by (rule lb.read_loop_parse)

lemma read_lb_None:
  "parse cfg c [] = (r, None) \<Longrightarrow>
   Packet_read_from_buffer cfg ListBuffer_ops \<lparr>lb_buffer = c\<rparr> out = Some (- 1, \<lparr>lb_buffer = r\<rparr>, out)"
  using read_lb [of cfg "\<lparr>lb_buffer = c\<rparr>" out] by auto

lemma read_lb_Some:
  "parse cfg c [] = (r, Some d) \<Longrightarrow>
   Packet_read_from_buffer cfg ListBuffer_ops \<lparr>lb_buffer = c\<rparr> out =
     Some (0, \<lparr>lb_buffer = r\<rparr>, Packet_swap d out)"
  using read_lb [of cfg "\<lparr>lb_buffer = c\<rparr>" out] by auto

lemma payload_frame:
  assumes "length d \<le> 65531"
  shows "Packet_payload (Packet_swap (frame cfg d) p) = d"
    and "Packet_data_size (Packet_swap (frame cfg d) p) = of_nat (length d)"
proof -
  obtain x y where xy: "frame cfg d = HeadByte cfg # x # y # d @ [EndByte cfg]"
    using frame_split by blast
  show ds: "Packet_data_size (Packet_swap (frame cfg d) p) = of_nat (length d)"
    by (simp add: Packet_data_size_def Packet_swap_def packet_min_size_def)
  show "Packet_payload (Packet_swap (frame cfg d) p) = d"
    using size_no_wrap(2) [OF assms] unfolding Packet_payload_def ds
    by (simp add: Packet_get_data_def Packet_swap_def xy numeral_3_eq_3)
qed

section \<open>A connection's receive loop\<close>

text \<open>What the users of a buffer do, in any order: append a chunk that arrived, or try to read
  a packet. The result is the buffer and the payloads of the successful reads.\<close>

datatype buf_op = Append "byte list" | Read

fun run_ops :: "packet_cfg \<Rightarrow> list_buffer \<Rightarrow> buf_op list \<Rightarrow> (list_buffer \<times> byte list list) option" where
  "run_ops cfg b [] = Some (b, [])"
| "run_ops cfg b (Append d # os) = run_ops cfg (snd (ListBuffer_append d b)) os"
| "run_ops cfg b (Read # os) =
     do { (rc, b', p) \<leftarrow> Packet_read_from_buffer cfg ListBuffer_ops b Packet_init;
          (b'', outs) \<leftarrow> run_ops cfg b' os;
          Some (b'', if rc = 0 then Packet_payload p # outs else outs) }"

fun appended :: "buf_op list \<Rightarrow> byte list" where
  "appended [] = []"
| "appended (Append d # os) = d @ appended os"
| "appended (Read # os) = appended os"

abbreviation stream :: "packet_cfg \<Rightarrow> byte list list \<Rightarrow> byte list" where
  "stream cfg ms \<equiv> concat (map (frame cfg) ms)"

text \<open>A content that begins a stream of frames either begins with the first frame or is a
  proper piece of it; the loop takes the frame, or leaves the piece.\<close>

lemma read_stream:
  assumes "\<forall>m \<in> set ms. length m \<le> 65531" and "prefix c (stream cfg ms)"
  shows "Packet_read_from_buffer cfg ListBuffer_ops \<lparr>lb_buffer = c\<rparr> Packet_init =
           Some (- 1, \<lparr>lb_buffer = c\<rparr>, Packet_init) \<and> (\<forall>m ms'. ms = m # ms' \<longrightarrow> strict_prefix c (frame cfg m)) \<or>
         (\<exists>m ms' c' p. ms = m # ms' \<and> c = frame cfg m @ c' \<and> prefix c' (stream cfg ms') \<and>
            Packet_read_from_buffer cfg ListBuffer_ops \<lparr>lb_buffer = c\<rparr> Packet_init =
              Some (0, \<lparr>lb_buffer = c'\<rparr>, p) \<and> Packet_payload p = m)"
proof (cases ms)
  case Nil
  with assms(2) show ?thesis
    by (auto intro!: read_lb_None simp: parse_short)
next
  case (Cons m ms')
  then have m: "length m \<le> 65531" using assms(1) by simp
  from assms(2) Cons have "prefix c (frame cfg m @ stream cfg ms')" by simp
  then consider "strict_prefix c (frame cfg m)"
    | c' where "c = frame cfg m @ c'" "prefix c' (stream cfg ms')"
    by (cases "c = frame cfg m") (auto simp: prefix_append strict_prefix_def)
  then show ?thesis
  proof cases
    case 1
    with Cons show ?thesis
      using read_lb_None [OF parse_partial [OF m 1]] by simp
  next
    case (2 c')
    with Cons show ?thesis
      using read_lb_Some [OF parse_frame [OF m, of cfg c']] payload_frame(1) [OF m] by auto
  qed
qed

lemma run_ops_stream:
  assumes "\<forall>m \<in> set ms. length m \<le> 65531" and "prefix (c @ appended os) (stream cfg ms)"
  shows "\<exists>b outs. run_ops cfg \<lparr>lb_buffer = c\<rparr> os = Some (b, outs) \<and> prefix outs ms \<and>
           stream cfg outs @ lb_buffer b = c @ appended os"
  using assms
proof (induction os arbitrary: c ms)
  case (Cons op os)
  show ?case
  proof (cases op)
    case (Append d)
    with Cons.IH [of ms "c @ d"] Cons.prems show ?thesis
      by (simp add: ListBuffer_append_def push_all_append)
  next
    case Read
    have "prefix c (stream cfg ms)"
      using Cons.prems(2) by (meson prefix_append prefix_order.trans prefixI)
    from read_stream [OF Cons.prems(1) this] show ?thesis
    proof (elim disjE exE conjE)
      assume "Packet_read_from_buffer cfg ListBuffer_ops \<lparr>lb_buffer = c\<rparr> Packet_init =
        Some (- 1, \<lparr>lb_buffer = c\<rparr>, Packet_init)"
      with Read Cons.IH [of ms c] Cons.prems show ?thesis by auto
    next
      fix m ms' c' p
      assume ms: "ms = m # ms'" and c: "c = frame cfg m @ c'"
        and rd: "Packet_read_from_buffer cfg ListBuffer_ops \<lparr>lb_buffer = c\<rparr> Packet_init =
          Some (0, \<lparr>lb_buffer = c'\<rparr>, p)" "Packet_payload p = m"
      have "prefix (c' @ appended os) (stream cfg ms')"
        using Cons.prems(2) by (simp add: Read ms c)
      with Cons.IH [of ms' c'] Cons.prems(1) ms obtain b outs where
        "run_ops cfg \<lparr>lb_buffer = c'\<rparr> os = Some (b, outs)" "prefix outs ms'"
        "stream cfg outs @ lb_buffer b = c' @ appended os" by auto
      with Read rd ms c show ?thesis by auto
    qed
  qed
qed simp

lemma run_ops_append:
  "run_ops cfg b (os1 @ os2) =
     do { (b1, o1) \<leftarrow> run_ops cfg b os1; (b2, o2) \<leftarrow> run_ops cfg b1 os2; Some (b2, o1 @ o2) }"
proof (induction os1 arbitrary: b)
  case (Cons op os1)
  then show ?case by (cases op) (auto split: Option.bind_splits prod.splits)
qed simp

lemma run_reads_all:
  assumes "\<forall>m \<in> set ms. length m \<le> 65531" and "length ms \<le> n"
  shows "run_ops cfg \<lparr>lb_buffer = stream cfg ms\<rparr> (replicate n Read) = Some (\<lparr>lb_buffer = []\<rparr>, ms)"
  using assms
proof (induction n arbitrary: ms)
  case (Suc n)
  show ?case
  proof (cases ms)
    case Nil
    then show ?thesis
      using Suc.IH [of "[]"] read_lb_None [of cfg "[]" "[]" Packet_init] by (simp add: parse_short)
  next
    case (Cons m ms')
    then show ?thesis
      using Suc.IH [of ms'] Suc.prems read_lb_Some [OF parse_frame [of m cfg "stream cfg ms'"]]
        payload_frame(1) [of m] by simp
  qed
qed simp

section \<open>Properties\<close>

text \<open>Packing an unsigned number of any byte width into a buffer and unpacking it at the same
  place gives the number back, in either byte order; packing succeeds whenever the buffer has
  room for the number.\<close>

theorem pack_num_roundtrip:
  assumes "8 dvd LENGTH('a::len)" and "off + LENGTH('a) div 8 \<le> length data"
  shows "\<exists>data'. Packet_pack_num mode off (w :: 'a word) data = Some data' \<and>
           length data' = length data \<and> Packet_unpack_num mode data' off = Some w"
proof -
  obtain data' where d: "Packet_pack_num mode off w data = Some data'"
    using pack_num_defined [OF assms(2)] by blast
  then have "length data' = length data"
    by (auto simp: Packet_pack_num_def Let_def dest: put_loop_length split: data_mode.splits)
  with d show ?thesis using unpack_pack_num [OF d assms(1)] by blast
qed

theorem pack_num_roundtrip_witness:
  "8 dvd LENGTH(32) \<and> 1 + LENGTH(32) div 8 \<le> length [0, 0, 0, 0, 0 :: byte] \<and>
   (\<exists>data'. Packet_pack_num LittleEndian 1 (0x01020304 :: u32) [0, 0, 0, 0, 0] = Some data' \<and>
      length data' = length [0, 0, 0, 0, 0 :: byte] \<and>
      Packet_unpack_num LittleEndian data' 1 = Some (0x01020304 :: u32))"
  using pack_num_roundtrip [where off = 1 and data = "[0, 0, 0, 0, 0]" and mode = LittleEndian
    and w = "0x01020304 :: u32"] by simp

text \<open>C28: A payload of up to 65531 bytes that is packed, put behind bytes that are not the head
  byte and followed by anything, is read back: the call returns 0, the packet holds exactly
  the payload, and the buffer holds exactly what followed the frame.\<close>

theorem pack_read_roundtrip:
  assumes "length d \<le> 65531" and "HeadByte cfg \<notin> set junk"
  shows "\<exists>pkt p. Packet_pack cfg d (of_nat (length d)) Packet_init = Some pkt \<and>
    Packet_read_from_buffer cfg ListBuffer_ops
      (snd (ListBuffer_append (junk @ Packet_buffer pkt @ rest) ListBuffer_init)) out =
      Some (0, \<lparr>lb_buffer = rest\<rparr>, p) \<and>
    Packet_payload p = d \<and> Packet_data_size p = of_nat (length d)"
proof -
  have "unat (of_nat (length d) :: u16) \<le> length d"
    using size_no_wrap(2) [OF assms(1)] by simp
  then have pack: "Packet_pack cfg d (of_nat (length d)) Packet_init =
      Some \<lparr>pk_buffer = frame cfg d, pk_dataSize = of_nat (length d)\<rparr>"
    using size_no_wrap(2) [OF assms(1)] by (simp add: pack_frame Packet_init_def)
  have "parse cfg (junk @ frame cfg d @ rest) [] = (rest, Some (frame cfg d))"
    using parse_junk [OF assms(2), of "frame cfg d @ rest"] parse_frame [OF assms(1)] by simp
  from read_lb_Some [OF this] pack show ?thesis
    by (simp add: payload_frame [OF assms(1)] ListBuffer_append_def ListBuffer_init_def
        push_all_append Packet_buffer_def)
qed

theorem pack_read_roundtrip_witness:
  "length [1, 2, 3 :: byte] \<le> 65531 \<and> HeadByte Packet_statics \<notin> set [9, 9] \<and>
   (\<exists>pkt p. Packet_pack Packet_statics [1, 2, 3] (of_nat (length [1, 2, 3 :: byte])) Packet_init = Some pkt \<and>
    Packet_read_from_buffer Packet_statics ListBuffer_ops
      (snd (ListBuffer_append ([9, 9] @ Packet_buffer pkt @ [7]) ListBuffer_init)) Packet_init =
      Some (0, \<lparr>lb_buffer = [7]\<rparr>, p) \<and>
    Packet_payload p = [1, 2, 3] \<and> Packet_data_size p = of_nat (length [1, 2, 3 :: byte]))"
  using pack_read_roundtrip [of "[1, 2, 3]" Packet_statics "[9, 9]" "[7]" Packet_init]
  by (simp add: Packet_statics_def)

text \<open>C26: However the bytes of a sequence of frames are cut into chunks and however reads are
  interleaved with their arrival, the reads deliver the payloads in order, none twice and
  none skipped, and the buffer keeps exactly the bytes that are not yet delivered; once all
  bytes have arrived, as many reads as there are frames deliver all the rest.\<close>

theorem chunked_stream:
  assumes "\<forall>m \<in> set ms. length m \<le> 65531" and "prefix (appended os) (stream cfg ms)"
  shows "(\<exists>b outs. run_ops cfg ListBuffer_init os = Some (b, outs) \<and> prefix outs ms \<and>
        stream cfg outs @ lb_buffer b = appended os) \<and>
      (appended os = stream cfg ms \<longrightarrow>
        run_ops cfg ListBuffer_init (os @ replicate (length ms) Read) = Some (ListBuffer_init, ms))"
proof (intro conjI impI)
  show safe: "\<exists>b outs. run_ops cfg ListBuffer_init os = Some (b, outs) \<and> prefix outs ms \<and>
      stream cfg outs @ lb_buffer b = appended os"
    using run_ops_stream [OF assms(1), of "[]" os cfg] assms(2) by (simp add: ListBuffer_init_def)
  assume all: "appended os = stream cfg ms"
  with safe obtain b outs zs where run: "run_ops cfg ListBuffer_init os = Some (b, outs)"
    and ms: "ms = outs @ zs" and rest: "stream cfg outs @ lb_buffer b = appended os"
    by (auto elim: prefixE)
  then have "b = \<lparr>lb_buffer = stream cfg zs\<rparr>" using all by (cases b) simp
  moreover have "run_ops cfg \<lparr>lb_buffer = stream cfg zs\<rparr> (replicate (length ms) Read) =
      Some (ListBuffer_init, zs)"
    using run_reads_all [of zs "length ms"] assms(1) ms by (simp add: ListBuffer_init_def)
  ultimately show "run_ops cfg ListBuffer_init (os @ replicate (length ms) Read) =
      Some (ListBuffer_init, ms)"
    using run ms by (simp add: run_ops_append)
qed

theorem chunked_stream_witness:
  "prefix (appended [Append [0x7e, 1], Read, Append [0, 5, 0xe7, 0x7e, 0], Append [0, 0xe7]])
     (stream Packet_statics [[5], []]) \<and>
   run_ops Packet_statics ListBuffer_init
     ([Append [0x7e, 1], Read, Append [0, 5, 0xe7, 0x7e, 0], Append [0, 0xe7]] @ replicate 2 Read) =
     Some (ListBuffer_init, [[5], []])"
proof -
  have eq: "appended [Append [0x7e, 1], Read, Append [0, 5, 0xe7, 0x7e, 0], Append [0, 0xe7]] =
      stream Packet_statics [[5], []]"
    by (simp add: frame_def size_bytes_def Packet_statics_def)
  show ?thesis
    using chunked_stream [of "[[5], []]"
        "[Append [0x7e, 1], Read, Append [0, 5, 0xe7, 0x7e, 0], Append [0, 0xe7]]" Packet_statics] eq
    by (simp add: numeral_2_eq_2 del: appended.simps run_ops.simps)
qed

text \<open>C27: The reading loop always returns, whatever the buffer holds. It returns 0 or -1; on -1 the
  packet is untouched; bytes are only ever removed from the front; and a successful read
  removes at least one, so a caller that reads until -1 stops.\<close>

theorem read_returns:
  "\<exists>rc b' p. Packet_read_from_buffer cfg ListBuffer_ops b out = Some (rc, b', p) \<and>
     (rc = 0 \<or> rc = - 1) \<and> suffix (lb_buffer b') (lb_buffer b) \<and>
     (if rc = 0 then length (lb_buffer b') < length (lb_buffer b) else p = out)"
proof -
  obtain r d where p: "parse cfg (lb_buffer b) [] = (r, d)" by fastforce
  obtain b' where b': "Packet_read_from_buffer cfg ListBuffer_ops b out =
      Some (case d of None \<Rightarrow> (- 1, b', out) | Some d \<Rightarrow> (0, b', Packet_swap d out))" "lb_buffer b' = r"
    using read_lb [of cfg b out] p by auto
  have "suffix r (lb_buffer b)" "\<And>e. d = Some e \<Longrightarrow> length r < length (lb_buffer b)"
    using parse_suffix [of cfg "lb_buffer b" "[]"] parse_progress [of cfg "lb_buffer b" "[]" r] p
    by auto
  with b' show ?thesis
    by (cases d) (auto intro: exI [of _ "- 1"])
qed

text \<open>While only a proper piece of a frame has arrived, reading reports -1 and leaves the
  buffer as it is, so nothing of the frame is lost.\<close>

theorem read_incomplete:
  assumes "length d \<le> 65531" and "strict_prefix c (frame cfg d)"
  shows "Packet_read_from_buffer cfg ListBuffer_ops \<lparr>lb_buffer = c\<rparr> out =
    Some (- 1, \<lparr>lb_buffer = c\<rparr>, out)"
  using assms by (intro read_lb_None parse_partial)

theorem read_incomplete_witness:
  "length [5, 6 :: byte] \<le> 65531 \<and> strict_prefix [0x7e, 2, 0, 5, 6] (frame Packet_statics [5, 6]) \<and>
   Packet_read_from_buffer Packet_statics ListBuffer_ops \<lparr>lb_buffer = [0x7e, 2, 0, 5, 6]\<rparr> Packet_init =
     Some (- 1, \<lparr>lb_buffer = [0x7e, 2, 0, 5, 6]\<rparr>, Packet_init)"
proof -
  have pre: "strict_prefix [0x7e, 2, 0, 5, 6] (frame Packet_statics [5, 6])"
    by (simp add: frame_def size_bytes_def Packet_statics_def strict_prefix_def)
  show ?thesis
    using read_incomplete [OF _ pre, of Packet_init] pre by simp
qed

text \<open>The local string is not cleared when the end byte is wrong, so the loop goes on with the
  old header in front of it: after a frame with a bad end byte the next two good frames are
  not delivered; the bytes of the first are dropped and no packet is returned.\<close>

theorem bad_end_loses_frames:
  "Packet_read_from_buffer Packet_statics ListBuffer_ops
     \<lparr>lb_buffer = [0x7e, 1, 0, 0x61, 0x00] @ frame Packet_statics [0x62] @ frame Packet_statics [0x64]\<rparr>
     Packet_init = Some (- 1, \<lparr>lb_buffer = [0, 0x64, 0xe7]\<rparr>, Packet_init)"
proof -
  have "parse Packet_statics
      ([0x7e, 1, 0, 0x61, 0x00] @ frame Packet_statics [0x62] @ frame Packet_statics [0x64]) [] =
      ([0, 0x64, 0xe7], None)"
    by (simp add: parse.simps hdr_def hdr_size_def body_def frame_def size_bytes_def
        size_of_bytes_def Packet_statics_def Let_def)
  then show ?thesis by (rule read_lb_None)
qed

text \<open>The two bytes of a size next to the end of the 16-bit range.\<close>

lemma big_size_bytes:
  assumes "65532 \<le> n" "n \<le> 65535" "size_bytes mode (of_nat n) = [x, y]"
  shows "0xfc \<le> y"
proof -
  have "n = 65532 \<or> n = 65533 \<or> n = 65534 \<or> n = 65535" using assms(1,2) by arith
  then have "(of_nat n :: u16) = 65532 \<or> (of_nat n :: u16) = 65533 \<or> (of_nat n :: u16) = 65534 \<or>
      (of_nat n :: u16) = 65535" by auto
  then show ?thesis using assms(3) by (auto simp: size_bytes_def split: data_mode.splits)
qed

text \<open>C32: A payload of 65532 to 65535 bytes can be packed, with any head byte, byte order and end byte
  below 0xfc (the default is 0xe7), into a frame of four bytes more. But the 16-bit sum of its size
  and the frame overhead wraps to 0 .. 3, so a reader that sees the first four bytes of that
  frame takes it for complete, drops its header and reports -1.\<close>

theorem big_frame_header_lost:
  assumes "65532 \<le> length d" and "length d \<le> 65535" and "EndByte cfg < 0xfc"
  shows "(of_nat (length d) + of_nat packet_min_size :: u16) = of_nat (length d - 65532) \<and>
    (\<exists>p'. Packet_pack cfg d (of_nat (length d)) p = Some p' \<and> length (Packet_buffer p') = length d + 4 \<and>
      Packet_read_from_buffer cfg ListBuffer_ops \<lparr>lb_buffer = take 4 (Packet_buffer p')\<rparr> out =
        Some (- 1, \<lparr>lb_buffer = take 1 d\<rparr>, out))"
proof -
  let ?n = "of_nat (length d) :: u16"
  have n: "unat ?n = length d"
    using assms(2) by (simp add: unsigned_of_nat take_bit_nat_eq_self)
  have "?n + of_nat packet_min_size = of_nat (length d + 4)" by (simp add: packet_min_size_def)
  also have "\<dots> = of_nat (65536 + (length d - 65532))" using assms(1) by simp
  also have "\<dots> = of_nat (length d - 65532)" by (simp only: of_nat_add) simp
  finally have sum: "?n + of_nat packet_min_size = of_nat (length d - 65532)" .
  obtain e d' where d: "d = e # d'" using assms(1) by (cases d) auto
  obtain x y where xy: "size_bytes (Mode cfg) ?n = [x, y]" using size_bytes_pair by blast
  have f: "frame cfg d = HeadByte cfg # x # y # d @ [EndByte cfg]" by (simp add: frame_def xy)
  have "last [HeadByte cfg, x, y] \<noteq> EndByte cfg"
    using big_size_bytes [OF assms(1,2) xy] assms(3) by auto
  moreover have "unat (?n + 4) \<le> 3"
    using assms n by (simp add: unat_word_ariths le_mod_geq)
  ultimately have "parse cfg (take 4 (frame cfg d)) [] = (take 1 d, None)"
    using n d f assms(1) size_of_size_bytes [OF xy]
    by (subst parse_miss) (simp_all add: header_simps parse_short numeral_3_eq_3)
  from read_lb_None [OF this] have "Packet_read_from_buffer cfg ListBuffer_ops \<lparr>lb_buffer = take 4 (frame cfg d)\<rparr> out =
      Some (- 1, \<lparr>lb_buffer = take 1 d\<rparr>, out)" .
  then show ?thesis
    using sum pack_frame [of ?n d cfg p] n by (simp add: Packet_buffer_def)
qed

theorem big_frame_header_lost_witness:
  "\<exists>p'. Packet_pack Packet_statics (replicate 65532 5) 65532 Packet_init = Some p' \<and>
     Packet_read_from_buffer Packet_statics ListBuffer_ops \<lparr>lb_buffer = take 4 (Packet_buffer p')\<rparr> Packet_init =
       Some (- 1, \<lparr>lb_buffer = [5]\<rparr>, Packet_init)"
proof -
  have "EndByte Packet_statics < 0xfc" "take 1 (replicate 65532 (5 :: byte)) = [5]"
    by (simp_all add: Packet_statics_def take_Cons')
  with big_frame_header_lost [of "replicate 65532 5" Packet_statics Packet_init Packet_init]
  show ?thesis by auto
qed

end
