(* ===== verification/Global_Config.thy ===== *)
theory Global_Config
  imports Packet_Stream
begin

text \<open>
  The process-wide configuration \<^verbatim>\<open>GlobalConfig\<close> (\<^verbatim>\<open>ae/global_config.h\<close>,
  \<^verbatim>\<open>ae/global_config.cpp\<close>) and the parse entry points of \<^verbatim>\<open>PacketBuffer\<close>
  (\<^verbatim>\<open>ae/packet_buffer.h\<close>) that dispatch through its function objects.
\<close>

datatype buffer_mode = NoBuffer | CycleBuffer | ListBuffer

text \<open>A parse function gets the buffer and the output object and returns a status, the buffer
  and the object; an unset \<^verbatim>\<open>std::function\<close> is \<open>None\<close>.\<close>

type_synonym ('b, 'o) read_func = "'b \<Rightarrow> 'o \<Rightarrow> (int \<times> 'b \<times> 'o) option"

record ('b, 'v) global_config =
  gc_BufferModeStatus :: buffer_mode
  gc_CycleBufferSize :: "64 word"
  gc_ReadBufferString :: "('b, string) read_func option"
  gc_ReadBufferPacket :: "('b, packet) read_func option"
  gc_ReadBufferVoid :: "('b, 'v) read_func option"

definition GlobalConfig_init :: "packet_cfg \<Rightarrow> 'b packet_buffer \<Rightarrow> ('b, 'v) global_config" where
  "GlobalConfig_init cfg ops =
     \<lparr>gc_BufferModeStatus = NoBuffer, gc_CycleBufferSize = push_bit 5 1024,
      gc_ReadBufferString = None, gc_ReadBufferPacket = Some (Packet_read_from_buffer cfg ops),
      gc_ReadBufferVoid = None\<rparr>"

text \<open>The three dispatchers have one shape: call the configured function, or log and return -1.
  The result carries what the log writer emitted.\<close>

definition parse_or_log ::
    "'cb log_writer \<Rightarrow> ('b, 'o) read_func option \<Rightarrow> 'b \<Rightarrow> 'o \<Rightarrow> (int \<times> 'b \<times> 'o \<times> 'cb log_out list) option" where
  "parse_or_log lw f b out = (case f of
     Some g \<Rightarrow> do { (rc, b, out) \<leftarrow> g b out; Some (rc, b, out, []) }
   | None \<Rightarrow> do { logs \<leftarrow> LogWriter_error lw ''not defined packet parse func.'';
                 Some (- 1, b, out, logs) })"

definition PacketBuffer_read_string ::
    "'cb log_writer \<Rightarrow> ('b, 'v) global_config \<Rightarrow> 'b \<Rightarrow> string \<Rightarrow>
     (int \<times> 'b \<times> string \<times> 'cb log_out list) option" where
  "PacketBuffer_read_string lw gc b out = parse_or_log lw (gc_ReadBufferString gc) b out"

definition PacketBuffer_read_packet ::
    "'cb log_writer \<Rightarrow> ('b, 'v) global_config \<Rightarrow> 'b \<Rightarrow> packet \<Rightarrow>
     (int \<times> 'b \<times> packet \<times> 'cb log_out list) option" where
  "PacketBuffer_read_packet lw gc b out = parse_or_log lw (gc_ReadBufferPacket gc) b out"

definition PacketBuffer_read_generic ::
    "'cb log_writer \<Rightarrow> ('b, 'v) global_config \<Rightarrow> 'b \<Rightarrow> 'v \<Rightarrow>
     (int \<times> 'b \<times> 'v \<times> 'cb log_out list) option" where
  "PacketBuffer_read_generic lw gc b out = parse_or_log lw (gc_ReadBufferVoid gc) b out"

text \<open>With the default configuration, reading a packet through the buffer is the framing codec
  and logs nothing, while the string and the generic entry points return -1, change neither
  the buffer nor the output and log exactly one error message when errors are enabled.\<close>

theorem default_dispatch:
  assumes "names_ok lw"
  shows "let gc = GlobalConfig_init cfg ListBuffer_ops in
         PacketBuffer_read_packet lw gc b p =
           map_option (\<lambda>(rc, b, p). (rc, b, p, [])) (Packet_read_from_buffer cfg ListBuffer_ops b p) \<and>
         (\<exists>logs. PacketBuffer_read_string lw gc b s = Some (- 1, b, s, logs) \<and>
            PacketBuffer_read_generic lw gc b v = Some (- 1, b, v, logs) \<and>
            length logs = (if lw_level lw \<le> 3 then 1 else 0))"
proof -
  obtain logs where logs: "LogWriter_error lw ''not defined packet parse func.'' = Some logs"
    and len: "length logs \<le> 1" "logs \<noteq> [] \<longleftrightarrow> lw_level lw \<le> 3"
    using write_cases [OF assms, of Error] by (auto simp: LogWriter_error_def)
  have "length logs = (if lw_level lw \<le> 3 then 1 else 0)"
    using len by (cases logs) auto
  with logs show ?thesis
    by (auto simp: PacketBuffer_read_packet_def PacketBuffer_read_string_def
        PacketBuffer_read_generic_def parse_or_log_def GlobalConfig_init_def Let_def split: Option.bind_splits)
qed

theorem default_dispatch_witness:
  "names_ok (LogWriter_init :: nat log_writer) \<and>
   PacketBuffer_read_packet (LogWriter_init :: nat log_writer)
     (GlobalConfig_init Packet_statics ListBuffer_ops :: (list_buffer, nat) global_config)
     ListBuffer_init Packet_init = Some (- 1, ListBuffer_init, Packet_init, [])"
proof -
  have "Packet_read_from_buffer Packet_statics ListBuffer_ops ListBuffer_init Packet_init =
      Some (- 1, ListBuffer_init, Packet_init)"
    unfolding ListBuffer_init_def by (intro read_lb_None) (simp add: parse_short)
  then show ?thesis
    using default_dispatch [where lw = "LogWriter_init :: nat log_writer" and cfg = Packet_statics
        and b = ListBuffer_init and p = Packet_init and s = "''''" and v = "0 :: nat"] by (simp add: Let_def)
qed

end
