(* ===== verification/Domain_Trie.thy ===== *)
theory Domain_Trie
  imports AE_Prelude
begin

text \<open>
  The rule trie of \<^verbatim>\<open>base/trie.hpp\<close>: a node is a leaf flag and an array of 128 child pointers.
  A pointer is an option, the array a list; \<open>character[key[i]]\<close> with a character outside
  0 .. 127 (\<^verbatim>\<open>char\<close> is signed on the platforms the repository builds for, so such an index
  is negative) is outside the array: the operations return \<open>None\<close>. The specification of a
  trie is the set of its keys and the set of paths that exist in it. The one exception to undefined
  behaviour being \<open>None\<close> is a call of \<^verbatim>\<open>search\<close> on a null pointer: the code tests \<^verbatim>\<open>this\<close> for it, and the
  model takes that test as it is written, which C++ does not promise.
\<close>

section \<open>Nodes and operations\<close>

definition CHAR_SIZE :: nat where
  "CHAR_SIZE = 128"

datatype trie = Trie (isLeaf: bool) (children: "trie option list")

definition Trie_new :: trie where
  "Trie_new = Trie False (replicate CHAR_SIZE None)"

text \<open>The index \<^verbatim>\<open>key[i]\<close> as the array sees it.\<close>

definition idx :: "char \<Rightarrow> nat option" where
  "idx c = (if of_char c < CHAR_SIZE then Some (of_char c) else None)"

fun Trie_insert :: "trie \<Rightarrow> string \<Rightarrow> trie option" where
  "Trie_insert (Trie leaf cs) [] = Some (Trie True cs)"
| "Trie_insert (Trie leaf cs) (c # key) =
     do { i \<leftarrow> idx c;
          slot \<leftarrow> at cs i;
          let cur = (case slot of None \<Rightarrow> Trie_new | Some t \<Rightarrow> t);
          t' \<leftarrow> Trie_insert cur key;
          Some (Trie leaf (cs[i := Some t'])) }"

text \<open>The loop of \<^verbatim>\<open>search\<close> from the node \<open>cur\<close>; the test for a wildcard looks at the node
  where the path breaks off.\<close>

fun search_loop :: "trie \<Rightarrow> string \<Rightarrow> bool option" where
  "search_loop (Trie leaf cs) [] = Some leaf"
| "search_loop (Trie leaf cs) (c # key) =
     do { i \<leftarrow> idx c;
          slot \<leftarrow> at cs i;
          case slot of
            None \<Rightarrow> do { star \<leftarrow> at cs (of_char (CHR ''*'')); Some (star \<noteq> None) }
          | Some t \<Rightarrow> search_loop t key }"

definition Trie_search :: "trie option \<Rightarrow> string \<Rightarrow> bool option" where
  "Trie_search this key = (case this of None \<Rightarrow> Some False | Some t \<Rightarrow> search_loop t key)"

text \<open>The loop of \<^verbatim>\<open>haveChildren\<close> over the indices below \<^verbatim>\<open>CHAR_SIZE\<close>.\<close>

fun any_child :: "nat list \<Rightarrow> trie option list \<Rightarrow> bool option" where
  "any_child [] cs = Some False"
| "any_child (i # is) cs = do { slot \<leftarrow> at cs i; if slot \<noteq> None then Some True else any_child is cs }"

definition Trie_haveChildren :: "trie \<Rightarrow> bool option" where
  "Trie_haveChildren cur = any_child [0..<CHAR_SIZE] (children cur)"

text \<open>\<^verbatim>\<open>deletion\<close> takes the pointer by reference: the result is the pointer and the returned
  flag.\<close>

fun Trie_deletion :: "trie option \<Rightarrow> string \<Rightarrow> (trie option \<times> bool) option" where
  "Trie_deletion None key = Some (None, False)"
| "Trie_deletion (Some (Trie leaf cs)) [] =
     (if leaf
      then do { kids \<leftarrow> Trie_haveChildren (Trie leaf cs);
                Some (if \<not> kids then (None, True) else (Some (Trie False cs), False)) }
      else Some (Some (Trie leaf cs), False))"
| "Trie_deletion (Some (Trie leaf cs)) (c # key) =
     do { i \<leftarrow> idx c;
          slot \<leftarrow> at cs i;
          if slot = None then Some (Some (Trie leaf cs), False)
          else do {
            (child, deleted) \<leftarrow> Trie_deletion slot key;
            let cur = Trie leaf (cs[i := child]);
            if deleted \<and> \<not> leaf
            then do { kids \<leftarrow> Trie_haveChildren cur;
                      Some (if \<not> kids then (None, True) else (Some cur, False)) }
            else Some (Some cur, False) } }"

section \<open>Well-formed nodes, paths and keys\<close>

text \<open>Every node has its whole array; a string is a key of the array's alphabet when all its
  characters index it.\<close>

fun wf_trie :: "trie \<Rightarrow> bool" where
  "wf_trie (Trie leaf cs) \<longleftrightarrow> length cs = CHAR_SIZE \<and> (\<forall>t. Some t \<in> set cs \<longrightarrow> wf_trie t)"

definition ascii :: "string \<Rightarrow> bool" where
  "ascii s \<longleftrightarrow> (\<forall>c \<in> set s. of_char c < CHAR_SIZE)"

fun node_at :: "trie \<Rightarrow> string \<Rightarrow> trie option" where
  "node_at t [] = Some t"
| "node_at (Trie leaf cs) (c # key) =
     do { i \<leftarrow> idx c; slot \<leftarrow> at cs i; t \<leftarrow> slot; node_at t key }"

definition paths :: "trie \<Rightarrow> string set" where
  "paths t = {p. node_at t p \<noteq> None}"

definition keys :: "trie \<Rightarrow> string set" where
  "keys t = {p. \<exists>n. node_at t p = Some n \<and> isLeaf n}"

fun paths_opt :: "trie option \<Rightarrow> string set" where
  "paths_opt None = {}"
| "paths_opt (Some t) = paths t"

fun keys_opt :: "trie option \<Rightarrow> string set" where
  "keys_opt None = {}"
| "keys_opt (Some t) = keys t"

text \<open>A trie has no dead branch when every child leads to a key.\<close>

fun live :: "trie \<Rightarrow> bool" where
  "live (Trie leaf cs) \<longleftrightarrow> (\<forall>t. Some t \<in> set cs \<longrightarrow> live t \<and> keys t \<noteq> {})"

section \<open>Children, paths and keys\<close>

definition child :: "trie option list \<Rightarrow> char \<Rightarrow> trie option" where
  "child cs c = do { i \<leftarrow> idx c; slot \<leftarrow> at cs i; slot }"

lemma idx_ascii [simp]: "ascii (c # s) \<longleftrightarrow> idx c = Some (of_char c) \<and> ascii s"
  by (auto simp: ascii_def idx_def)

lemma ascii_Nil [simp]: "ascii []"
  by (simp add: ascii_def)

lemma idx_less: "idx c = Some i \<Longrightarrow> i < CHAR_SIZE \<and> i = of_char c"
  by (auto simp: idx_def split: if_splits)

lemma idx_inj: "idx c = Some i \<Longrightarrow> idx d = Some i \<Longrightarrow> c = d"
  by (auto dest!: idx_less)

lemma child_update:
  "length cs = CHAR_SIZE \<Longrightarrow> idx c = Some i \<Longrightarrow>
   child (cs[i := x]) d = (if d = c then x else child cs d)"
proof (cases "d = c")
  case False
  assume "length cs = CHAR_SIZE" "idx c = Some i"
  with False idx_inj have "idx d \<noteq> Some i" by blast
  with False show ?thesis by (cases "idx d") (auto simp: child_def at_def)
qed (auto simp: child_def dest: idx_less)

lemma child_mem: "child cs c = Some t \<Longrightarrow> Some t \<in> set cs"
  by (auto simp: child_def at_def split: Option.bind_splits if_splits) (metis nth_mem)

lemma mem_child:
  assumes "Some t \<in> set cs" "length cs = CHAR_SIZE"
  shows "\<exists>c. child cs c = Some t \<and> idx c = Some (of_char c)"
proof -
  obtain i where i: "i < CHAR_SIZE" "cs ! i = Some t"
    using assms by (auto simp: in_set_conv_nth)
  then have "of_char (char_of i :: char) = i"
    by (simp add: CHAR_SIZE_def)
  with i assms(2) show ?thesis
    by (intro exI [of _ "char_of i"]) (simp add: child_def idx_def at_def)
qed

lemma wf_child: "wf_trie (Trie leaf cs) \<Longrightarrow> child cs c = Some t \<Longrightarrow> wf_trie t"
  by (auto dest: child_mem)

lemma node_at_Cons: "node_at (Trie leaf cs) (c # key) = do { t \<leftarrow> child cs c; node_at t key }"
  by (auto simp: child_def split: Option.bind_splits)

lemma paths_simps [simp]:
  "[] \<in> paths t"
  "c # p \<in> paths (Trie leaf cs) \<longleftrightarrow> (\<exists>t. child cs c = Some t \<and> p \<in> paths t)"
  by (auto simp: paths_def node_at_Cons split: Option.bind_splits simp del: node_at.simps(2))

lemma keys_simps [simp]:
  "[] \<in> keys (Trie leaf cs) \<longleftrightarrow> leaf"
  "c # p \<in> keys (Trie leaf cs) \<longleftrightarrow> (\<exists>t. child cs c = Some t \<and> p \<in> keys t)"
  by (auto simp: keys_def node_at_Cons split: Option.bind_splits simp del: node_at.simps(2))

lemma child_new [simp]: "child (replicate n None) c = None"
  by (auto simp: child_def at_def split: Option.bind_splits)

lemma paths_new: "paths Trie_new = {[]}"
proof -
  have "p \<in> paths Trie_new \<longleftrightarrow> p = []" for p
    by (cases p) (simp_all add: Trie_new_def)
  then show ?thesis by blast
qed

lemma keys_new: "keys Trie_new = {}"
proof -
  have "p \<notin> keys Trie_new" for p
    by (cases p) (simp_all add: Trie_new_def)
  then show ?thesis by blast
qed

lemma wf_new [simp]: "wf_trie Trie_new" and live_new [simp]: "live Trie_new"
  by (simp_all add: Trie_new_def)

lemma slot_child:
  "length cs = CHAR_SIZE \<Longrightarrow> idx c = Some i \<Longrightarrow> at cs i = Some (child cs c)"
  using idx_less [of c i] by (simp add: child_def)

lemma wf_update:
  "wf_trie (Trie leaf cs) \<Longrightarrow> (\<And>t. x = Some t \<Longrightarrow> wf_trie t) \<Longrightarrow> wf_trie (Trie leaf (cs[i := x]))"
  by (auto dest: subsetD [OF set_update_subset_insert])

lemma string_set_eqI:
  "([] \<in> A \<longleftrightarrow> [] \<in> B) \<Longrightarrow> (\<And>c p. c # p \<in> A \<longleftrightarrow> c # p \<in> B) \<Longrightarrow> A = (B :: string set)"
  by (metis list.exhaust set_eqI)

section \<open>Insertion\<close>

definition sub :: "trie option list \<Rightarrow> char \<Rightarrow> trie" where
  "sub cs c = (case child cs c of None \<Rightarrow> Trie_new | Some t \<Rightarrow> t)"

lemma insert_Cons:
  "length cs = CHAR_SIZE \<Longrightarrow> idx c = Some i \<Longrightarrow>
   Trie_insert (Trie leaf cs) (c # key) =
     map_option (\<lambda>t'. Trie leaf (cs[i := Some t'])) (Trie_insert (sub cs c) key)"
  by (simp add: slot_child sub_def Let_def map_option_case split: option.splits Option.bind_splits)

lemma wf_sub: "wf_trie (Trie leaf cs) \<Longrightarrow> wf_trie (sub cs c)"
  by (auto simp: sub_def dest: child_mem split: option.split)

lemma mem_sub:
  "p \<in> keys (sub cs c) \<longleftrightarrow> (\<exists>t. child cs c = Some t \<and> p \<in> keys t)"
  "p \<in> paths (sub cs c) \<longleftrightarrow> p = [] \<or> (\<exists>t. child cs c = Some t \<and> p \<in> paths t)"
  by (auto simp: sub_def keys_new paths_new split: option.split)

lemma insert_correct:
  assumes "wf_trie t" "ascii k"
  shows "\<exists>t'. Trie_insert t k = Some t' \<and> wf_trie t' \<and> keys t' = insert k (keys t) \<and>
    paths t' = paths t \<union> {p. prefix p k}"
  using assms
proof (induction k arbitrary: t)
  case Nil
  obtain leaf cs where t: "t = Trie leaf cs" by (cases t)
  have "keys (Trie True cs) = insert [] (keys t)" "paths (Trie True cs) = paths t \<union> {p. prefix p []}"
    by (intro string_set_eqI; simp add: t)+
  with Nil show ?case by (simp add: t)
next
  case (Cons c k)
  obtain leaf cs where t: "t = Trie leaf cs" by (cases t)
  let ?i = "of_char c :: nat"
  have len: "length cs = CHAR_SIZE" and i: "idx c = Some ?i"
    using Cons.prems t by auto
  from Cons.IH [of "sub cs c"] Cons.prems wf_sub [of leaf cs c] t obtain s where
    s: "Trie_insert (sub cs c) k = Some s" "wf_trie s" "keys s = insert k (keys (sub cs c))"
      "paths s = paths (sub cs c) \<union> {p. prefix p k}" by auto
  let ?t' = "Trie leaf (cs[?i := Some s])"
  have "wf_trie ?t'"
    by (rule wf_update) (use Cons.prems(1) s(2) t in auto)
  moreover have "keys ?t' = insert (c # k) (keys t)"
    by (rule string_set_eqI) (auto simp: t child_update [OF len i] s(3) mem_sub)
  moreover have "paths ?t' = paths t \<union> {p. prefix p (c # k)}"
    by (rule string_set_eqI) (auto simp: t child_update [OF len i] s(4) mem_sub)
  ultimately show ?case
    using insert_Cons [OF len i] s(1) by (simp add: t)
qed

lemma live_update:
  assumes "live (Trie leaf cs)" "\<And>t. x = Some t \<Longrightarrow> live t \<and> keys t \<noteq> {}"
  shows "live (Trie leaf' (cs[i := x]))"
  using assms by (auto dest: subsetD [OF set_update_subset_insert])

lemma live_sub: "live (Trie leaf cs) \<Longrightarrow> live (sub cs c)"
  by (auto simp: sub_def dest: child_mem split: option.split)

lemma live_insert:
  assumes "wf_trie t" "ascii k" "live t" "Trie_insert t k = Some t'"
  shows "live t'"
  using assms
proof (induction k arbitrary: t t')
  case Nil
  then show ?case by (cases t) auto
next
  case (Cons c k)
  obtain leaf cs where t: "t = Trie leaf cs" by (cases t)
  have len: "length cs = CHAR_SIZE" and i: "idx c = Some (of_char c)"
    using Cons.prems t by auto
  from Cons.prems(4) obtain s where s: "Trie_insert (sub cs c) k = Some s"
    and t': "t' = Trie leaf (cs[of_char c := Some s])"
    using insert_Cons [OF len i] t by auto
  have "live s"
    using Cons.IH [OF _ _ _ s] Cons.prems wf_sub live_sub t by auto
  moreover have "keys s \<noteq> {}"
    using insert_correct [of "sub cs c" k] Cons.prems wf_sub t s by auto
  ultimately show ?case
    using live_update Cons.prems(3) t t' by blast
qed

section \<open>Search\<close>

lemma search_loop_spec:
  assumes "wf_trie t" "ascii k"
  shows "search_loop t k = Some (k \<in> keys t \<or>
    (\<exists>p c r. k = p @ c # r \<and> p \<in> paths t \<and> p @ [c] \<notin> paths t \<and> p @ ''*'' \<in> paths t))"
  using assms
proof (induction k arbitrary: t)
  case Nil
  then show ?case by (cases t) simp
next
  case (Cons c k)
  obtain leaf cs where t: "t = Trie leaf cs" by (cases t)
  have len: "length cs = CHAR_SIZE" and i: "idx c = Some (of_char c)"
    using Cons.prems t by auto
  have star: "at cs (of_char CHR ''*'') = Some (child cs CHR ''*'')"
    by (rule slot_child [OF len]) (simp add: idx_def CHAR_SIZE_def)
  show ?case
  proof (cases "child cs c")
    case None
    have "(\<exists>p d r. c # k = p @ d # r \<and> p \<in> paths t \<and> p @ [d] \<notin> paths t \<and> p @ ''*'' \<in> paths t) \<longleftrightarrow>
        child cs CHR ''*'' \<noteq> None"
      (is "?L \<longleftrightarrow> ?R")
    proof
      assume ?R
      with None show ?L by (intro exI [of _ "[]"] exI [of _ c] exI [of _ k]) (auto simp: t)
    qed (use None in \<open>auto simp: t Cons_eq_append_conv\<close>)
    with None show ?thesis
      using slot_child [OF len i] i star by (auto simp: t)
  next
    case (Some s)
    have "(\<exists>p d r. c # k = p @ d # r \<and> p \<in> paths t \<and> p @ [d] \<notin> paths t \<and> p @ ''*'' \<in> paths t) \<longleftrightarrow>
        (\<exists>p d r. k = p @ d # r \<and> p \<in> paths s \<and> p @ [d] \<notin> paths s \<and> p @ ''*'' \<in> paths s)"
      (is "?L \<longleftrightarrow> ?R")
    proof
      assume ?L
      then obtain p d r where "c # k = p @ d # r" "p \<in> paths t" "p @ [d] \<notin> paths t" "p @ ''*'' \<in> paths t"
        by blast
      with Some show ?R by (cases p) (auto simp: t)
    next
      assume ?R
      then obtain p d r where "k = p @ d # r" "p \<in> paths s" "p @ [d] \<notin> paths s" "p @ ''*'' \<in> paths s"
        by blast
      with Some show ?L
        by (intro exI [of _ "c # p"] exI [of _ d] exI [of _ r]) (auto simp: t)
    qed
    moreover have "search_loop t (c # k) = search_loop s k" "c # k \<in> keys t \<longleftrightarrow> k \<in> keys s"
      using slot_child [OF len i] i Some by (simp_all add: t)
    moreover have "wf_trie s"
      using wf_child [OF _ Some] Cons.prems(1) t by blast
    ultimately show ?thesis
      using Cons.IH [of s] Cons.prems(2) by simp
  qed
qed

lemma key_prefix_Cons:
  "(\<exists>k \<in> keys (Trie leaf cs). prefix (c # p) k) \<longleftrightarrow>
   (\<exists>s. child cs c = Some s \<and> (\<exists>k \<in> keys s. prefix p k))"
proof
  assume "\<exists>k \<in> keys (Trie leaf cs). prefix (c # p) k"
  then show "\<exists>s. child cs c = Some s \<and> (\<exists>k \<in> keys s. prefix p k)"
    by (auto elim!: prefixE) (metis prefixI)
next
  assume "\<exists>s. child cs c = Some s \<and> (\<exists>k \<in> keys s. prefix p k)"
  then obtain s k where "child cs c = Some s" "k \<in> keys s" "prefix p k" by blast
  then show "\<exists>k \<in> keys (Trie leaf cs). prefix (c # p) k"
    by (intro bexI [of _ "c # k"]) auto
qed

lemma live_child: "live (Trie leaf cs) \<Longrightarrow> child cs c = Some s \<Longrightarrow> live s \<and> keys s \<noteq> {}"
  by (auto dest: child_mem)

lemma live_paths:
  "live t \<Longrightarrow> p \<in> paths t \<longleftrightarrow> p = [] \<or> (\<exists>k \<in> keys t. prefix p k)"
proof (induction p arbitrary: t)
  case (Cons c p)
  obtain leaf cs where t: "t = Trie leaf cs" by (cases t)
  have "p \<in> paths s \<longleftrightarrow> (\<exists>k \<in> keys s. prefix p k)" if "child cs c = Some s" for s
    using Cons.IH [of s] live_child [of leaf cs c s] that Cons.prems t by auto
  then show ?case
    unfolding t key_prefix_Cons by auto
qed simp

section \<open>Deletion\<close>

lemma any_child_eq:
  "\<forall>i \<in> set is. i < length cs \<Longrightarrow> any_child is cs = Some (\<exists>i \<in> set is. cs ! i \<noteq> None)"
  by (induction "is" cs rule: any_child.induct) auto

definition has_child :: "trie option list \<Rightarrow> bool" where
  "has_child cs \<longleftrightarrow> (\<exists>c. child cs c \<noteq> None)"

lemma haveChildren_eq:
  assumes "length cs = CHAR_SIZE"
  shows "Trie_haveChildren (Trie leaf cs) = Some (has_child cs)"
proof -
  have "(\<exists>i \<in> set [0..<CHAR_SIZE]. cs ! i \<noteq> None) \<longleftrightarrow> (\<exists>t. Some t \<in> set cs)"
    using assms by (auto simp: in_set_conv_nth) metis
  also have "\<dots> \<longleftrightarrow> has_child cs"
    unfolding has_child_def using child_mem mem_child [OF _ assms] by (metis not_None_eq)
  finally show ?thesis
    using assms by (simp add: Trie_haveChildren_def any_child_eq)
qed

lemma deletion_Nil:
  "length cs = CHAR_SIZE \<Longrightarrow> Trie_deletion (Some (Trie leaf cs)) [] =
     Some (if leaf \<and> \<not> has_child cs then (None, True) else (Some (Trie False cs), False))"
  by (simp add: haveChildren_eq)

lemma deletion_Cons:
  assumes "length cs = CHAR_SIZE" "idx c = Some i" "child cs c = Some s"
    "Trie_deletion (Some s) key = Some (x, x = None)"
  shows "Trie_deletion (Some (Trie leaf cs)) (c # key) =
    Some (if x = None \<and> \<not> leaf \<and> \<not> has_child (cs[i := None]) then (None, True)
          else (Some (Trie leaf (cs[i := x])), False))"
  using assms by (auto simp: slot_child haveChildren_eq Let_def)

lemma deletion_Cons_None:
  "length cs = CHAR_SIZE \<Longrightarrow> idx c = Some i \<Longrightarrow> child cs c = None \<Longrightarrow>
   Trie_deletion (Some (Trie leaf cs)) (c # key) = Some (Some (Trie leaf cs), False)"
  by (simp add: slot_child)

declare Trie_deletion.simps [simp del]

lemma mem_keys_opt: "p \<in> keys_opt x \<longleftrightarrow> (\<exists>t. x = Some t \<and> p \<in> keys t)"
  by (cases x) auto

definition wf_opt :: "trie option \<Rightarrow> bool" where
  "wf_opt x \<longleftrightarrow> (\<forall>t. x = Some t \<longrightarrow> wf_trie t)"

definition live_opt :: "trie option \<Rightarrow> bool" where
  "live_opt x \<longleftrightarrow> (\<forall>t. x = Some t \<longrightarrow> live t \<and> keys t \<noteq> {})"

lemma keys_update:
  assumes "length cs = CHAR_SIZE" "idx c = Some i" "child cs c = Some s" "keys_opt x = keys s - {k}"
  shows "keys (Trie leaf (cs[i := x])) = keys (Trie leaf cs) - {c # k}"
proof (rule string_set_eqI)
  fix d p
  have "(\<exists>t. x = Some t \<and> p \<in> keys t) \<longleftrightarrow> p \<in> keys s - {k}"
    using assms(4) mem_keys_opt by blast
  then show "d # p \<in> keys (Trie leaf (cs[i := x])) \<longleftrightarrow> d # p \<in> keys (Trie leaf cs) - {c # k}"
    using assms(1-3) by (auto simp: child_update)
qed simp

lemma no_child_keys: "\<not> has_child cs \<Longrightarrow> keys (Trie leaf cs) = (if leaf then {[]} else {})"
  by (rule string_set_eqI) (auto simp: has_child_def)

lemma child_keys:
  "live (Trie leaf cs) \<Longrightarrow> has_child cs \<Longrightarrow> \<exists>c p. c # p \<in> keys (Trie leaf cs)"
proof -
  assume live: "live (Trie leaf cs)" and "has_child cs"
  then obtain c s where s: "child cs c = Some s" by (auto simp: has_child_def)
  with live_child [OF live] obtain p where "p \<in> keys s" by blast
  with s have "c # p \<in> keys (Trie leaf cs)" by simp
  then show ?thesis by blast
qed

lemma deletion_correct:
  assumes "wf_trie t" "ascii k"
  shows "\<exists>x. Trie_deletion (Some t) k = Some (x, x = None) \<and> wf_opt x \<and>
    keys_opt x = keys t - {k} \<and> (live t \<and> keys t \<noteq> {} \<longrightarrow> live_opt x)"
  using assms
proof (induction k arbitrary: t)
  case Nil
  obtain leaf cs where t: "t = Trie leaf cs" by (cases t)
  then have len: "length cs = CHAR_SIZE" using Nil by simp
  have keys: "keys (Trie False cs) = keys t - {[]}"
    by (rule string_set_eqI) (auto simp: t)
  show ?case
  proof (cases "leaf \<and> \<not> has_child cs")
    case True
    then show ?thesis
      using no_child_keys by (simp add: t deletion_Nil [OF len] wf_opt_def live_opt_def)
  next
    case False
    have "keys (Trie False cs) \<noteq> {}" if l: "live t" "keys t \<noteq> {}"
    proof -
      have "has_child cs"
        using False no_child_keys [of cs False] l(2) t by auto
      then obtain c p where "c # p \<in> keys t"
        using child_keys [of leaf cs] l(1) t by blast
      then show ?thesis unfolding keys by blast
    qed
    then show ?thesis
      using False Nil by (auto simp: t deletion_Nil [OF len] wf_opt_def live_opt_def keys [unfolded t])
  qed
next
  case (Cons c k)
  obtain leaf cs where t: "t = Trie leaf cs" by (cases t)
  let ?i = "of_char c :: nat"
  have len: "length cs = CHAR_SIZE" and i: "idx c = Some ?i" and k: "ascii k"
    using Cons.prems t by auto
  show ?case
  proof (cases "child cs c")
    case None
    then have "c # k \<notin> keys t" by (simp add: t)
    then show ?thesis
      using Cons.prems(1) by (auto simp: t deletion_Cons_None [OF len i None] wf_opt_def live_opt_def)
  next
    case (Some s)
    from Cons.IH [OF wf_child [OF _ Some] k] Cons.prems(1) t obtain x where
      x: "Trie_deletion (Some s) k = Some (x, x = None)" "wf_opt x" "keys_opt x = keys s - {k}"
      "live s \<and> keys s \<noteq> {} \<longrightarrow> live_opt x" by blast
    let ?t' = "Trie leaf (cs[?i := x])"
    have keys: "keys ?t' = keys t - {c # k}"
      unfolding t by (rule keys_update [OF len i Some x(3)])
    have wf: "wf_trie ?t'"
      by (rule wf_update) (use Cons.prems(1) x(2) t in \<open>auto simp: wf_opt_def\<close>)
    show ?thesis
    proof (cases "x = None \<and> \<not> leaf \<and> \<not> has_child (cs[?i := None])")
      case True
      then have "keys t - {c # k} = {}"
        using keys no_child_keys [of "cs[?i := None]"] by simp
      with True show ?thesis
        by (simp add: t deletion_Cons [OF len i Some x(1)] wf_opt_def live_opt_def)
    next
      case False
      have liv: "live ?t' \<and> keys ?t' \<noteq> {}" if l: "live t" "keys t \<noteq> {}"
      proof -
        have lx: "live_opt x" using x(4) live_child [OF _ Some] l(1) t by blast
        have lt: "live ?t'"
          by (rule live_update [of leaf cs x leaf ?i]) (use lx l(1) t in \<open>simp_all add: live_opt_def\<close>)
        have "has_child (cs[?i := x]) \<or> leaf"
          using False child_update [OF len i, of x c] by (cases x) (auto simp: has_child_def)
        then have "\<exists>p. p \<in> keys ?t'"
          using child_keys [OF lt] keys_simps(1) by blast
        with lt show ?thesis by blast
      qed
      have "Trie_deletion (Some t) (c # k) = Some (Some ?t', False)"
        using False unfolding t deletion_Cons [OF len i Some x(1)] by simp
      with keys wf liv show ?thesis
        by (intro exI [of _ "Some ?t'"])
          (simp add: wf_opt_def live_opt_def del: wf_trie.simps live.simps)
    qed
  qed
qed

lemma childless_new: "wf_trie (Trie False cs) \<Longrightarrow> \<not> has_child cs \<Longrightarrow> Trie False cs = Trie_new"
proof -
  assume "wf_trie (Trie False cs)" "\<not> has_child cs"
  then have "cs = replicate CHAR_SIZE None"
    by (intro nth_equalityI) (auto simp: has_child_def, metis mem_child not_None_eq nth_mem)
  then show ?thesis by (simp add: Trie_new_def)
qed

lemma no_child_new: "\<not> has_child (replicate n None)"
  by (simp add: has_child_def)

lemma deletion_insert:
  assumes "wf_trie t" "live t" "ascii k" "k \<notin> keys t" "Trie_insert t k = Some t'"
  shows "Trie_deletion (Some t') k =
    Some (if t = Trie_new then (None, True) else (Some t, False))"
  using assms
proof (induction k arbitrary: t t')
  case Nil
  obtain leaf cs where t: "t = Trie leaf cs" by (cases t)
  have len: "length cs = CHAR_SIZE" and leaf: "\<not> leaf" and t': "t' = Trie True cs"
    using Nil t by auto
  have "has_child cs \<longleftrightarrow> t \<noteq> Trie_new"
    using childless_new [of cs] Nil.prems(1) leaf no_child_new by (auto simp: t Trie_new_def)
  with leaf show ?case
    by (auto simp: t t' deletion_Nil [OF len])
next
  case (Cons c k)
  obtain leaf cs where t: "t = Trie leaf cs" by (cases t)
  let ?i = "of_char c :: nat"
  have len: "length cs = CHAR_SIZE" and i: "idx c = Some ?i" and k: "ascii k"
    using Cons.prems t by auto
  from Cons.prems(5) obtain s where s: "Trie_insert (sub cs c) k = Some s"
    and t': "t' = Trie leaf (cs[?i := Some s])"
    using insert_Cons [OF len i] t by auto
  have "k \<notin> keys (sub cs c)"
    using Cons.prems(4) by (auto simp: t mem_sub)
  then have IH: "Trie_deletion (Some s) k =
      Some (if sub cs c = Trie_new then (None, True) else (Some (sub cs c), False))"
    using Cons.IH [OF _ _ k _ s] wf_sub [of leaf cs c] live_sub [of leaf cs c] Cons.prems(1,2)
    unfolding t by blast
  define x where "x = (if sub cs c = Trie_new then None else Some (sub cs c))"
  have chx: "child cs c = x"
  proof (cases "child cs c")
    case (Some u)
    have "keys u \<noteq> {}" using live_child [OF _ Some] Cons.prems(2) t by blast
    then have "u \<noteq> Trie_new" using keys_new by blast
    with Some show ?thesis by (simp add: x_def sub_def)
  qed (simp add: x_def sub_def)
  then have cs: "cs[?i := x] = cs"
    using slot_child [OF len i] by (auto simp: at_def list_update_same_conv split: if_splits)
  have del: "Trie_deletion (Some s) k = Some (x, x = None)"
    unfolding IH x_def by simp
  have "Trie_deletion (Some t') (c # k) =
      Some (if x = None \<and> \<not> leaf \<and> \<not> has_child (cs[?i := None]) then (None, True) else (Some t, False))"
    unfolding t' using deletion_Cons [of "cs[?i := Some s]" c ?i s k x leaf] len i del cs
    by (simp add: child_update t)
  moreover have "x = None \<and> \<not> leaf \<and> \<not> has_child (cs[?i := None]) \<longleftrightarrow> t = Trie_new"
  proof
    assume "x = None \<and> \<not> leaf \<and> \<not> has_child (cs[?i := None])"
    then show "t = Trie_new" using childless_new [of cs] Cons.prems(1) cs t by simp
  next
    assume new: "t = Trie_new"
    then have "child cs c = None" "leaf = False" "cs = replicate CHAR_SIZE None"
      by (auto simp: t Trie_new_def)
    then show "x = None \<and> \<not> leaf \<and> \<not> has_child (cs[?i := None])"
      using chx cs no_child_new by metis
  qed
  ultimately show ?case by simp
qed

end
