(* ===== verification/Rule_Set.thy ===== *)
theory Rule_Set
  imports Domain_Trie
begin

text \<open>
  What a trie of domain rules promises, as an interface over a set of rules, with the trie as
  its provider; the driver that loads rules and counts matches (\<^verbatim>\<open>tests/test_trie.cpp\<close>) as its
  client; and the properties of insertion, search and deletion.
\<close>

section \<open>The interface\<close>

text \<open>A stored string matches itself. Otherwise a query matches when, at the place where it leaves
  the stored strings, a stored string goes on with an asterisk.\<close>

definition rule_match :: "string set \<Rightarrow> string \<Rightarrow> bool" where
  "rule_match S q \<longleftrightarrow> q \<in> S \<or>
     (\<exists>p c r. q = p @ c # r \<and> (\<exists>k \<in> S. prefix (p @ ''*'') k) \<and> (\<forall>k \<in> S. \<not> prefix (p @ [c]) k))"

fun insert_all :: "('t \<Rightarrow> string \<Rightarrow> 't option) \<Rightarrow> 't \<Rightarrow> string list \<Rightarrow> 't option" where
  "insert_all ins t [] = Some t"
| "insert_all ins t (k # ks) = do { t' \<leftarrow> ins t k; insert_all ins t' ks }"

locale rule_store =
  fixes new :: 't
    and ins :: "'t \<Rightarrow> string \<Rightarrow> 't option"
    and srch :: "'t \<Rightarrow> string \<Rightarrow> bool option"
    and rep :: "'t \<Rightarrow> string set \<Rightarrow> bool"
  assumes rep_new: "rep new {}"
    and rep_ins: "rep t S \<Longrightarrow> ascii k \<Longrightarrow> \<exists>t'. ins t k = Some t' \<and> rep t' (insert k S)"
    and rep_srch: "rep t S \<Longrightarrow> ascii q \<Longrightarrow> srch t q = Some (rule_match S q)"
begin

text \<open>Loading rules in any order, with repetitions, stores exactly the set of them.\<close>

lemma rep_insert_all:
  "rep t S \<Longrightarrow> list_all ascii ks \<Longrightarrow> \<exists>t'. insert_all ins t ks = Some t' \<and> rep t' (S \<union> set ks)"
proof (induction ks arbitrary: t S)
  case (Cons k ks)
  then obtain t1 where "ins t k = Some t1" "rep t1 (insert k S)"
    using rep_ins [OF Cons.prems(1), of k] by auto
  with Cons show ?case by fastforce
qed auto

lemma load_search:
  assumes "list_all ascii ks"
  shows "\<exists>t. insert_all ins new ks = Some t \<and> rep t (set ks) \<and>
    (\<forall>q. ascii q \<longrightarrow> srch t q = Some (rule_match (set ks) q))"
  using rep_insert_all [OF rep_new assms] rep_srch by auto

text \<open>Search depends on the set of rules only, not on the order or the number of insertions.\<close>

lemma load_order:
  assumes "list_all ascii ks" "set ks = set ls" "insert_all ins new ks = Some t"
    "insert_all ins new ls = Some u" "ascii q"
  shows "srch t q = srch u q"
proof -
  have "list_all ascii ls" using assms(1,2) by (simp add: list_all_iff)
  then show ?thesis
    using load_search [OF assms(1)] load_search [of ls] assms by auto
qed

end

locale rule_store_del = rule_store +
  fixes del :: "'t \<Rightarrow> string \<Rightarrow> ('t option \<times> bool) option"
  assumes rep_del: "rep t S \<Longrightarrow> S \<noteq> {} \<Longrightarrow> ascii k \<Longrightarrow>
    \<exists>x. del t k = Some (x, S - {k} = {}) \<and>
      (case x of None \<Rightarrow> S - {k} = {} | Some t' \<Rightarrow> S - {k} \<noteq> {} \<and> rep t' (S - {k}))"
begin

text \<open>After a deletion that leaves rules behind, search answers as if the string had never been
  stored.\<close>

lemma del_search:
  assumes "rep t S" "ascii k" "ascii q" "S - {k} \<noteq> {}"
  shows "\<exists>t'. del t k = Some (Some t', False) \<and> srch t' q = Some (rule_match (S - {k}) q)"
proof -
  have "S \<noteq> {}" using assms(4) by blast
  from rep_del [OF assms(1) this assms(2)] assms(4) show ?thesis
    using rep_srch [OF _ assms(3)] by (auto split: option.splits)
qed

end

section \<open>The trie provides it\<close>

definition trie_rep :: "trie \<Rightarrow> string set \<Rightarrow> bool" where
  "trie_rep t S \<longleftrightarrow> wf_trie t \<and> live t \<and> keys t = S"

lemma trie_rep_search:
  assumes "trie_rep t S" "ascii q"
  shows "Trie_search (Some t) q = Some (rule_match S q)"
proof -
  have path: "p \<in> paths t \<longleftrightarrow> p = [] \<or> (\<exists>k \<in> S. prefix p k)" for p
    using live_paths assms(1) by (auto simp: trie_rep_def)
  have "p \<in> paths t \<and> p @ [c] \<notin> paths t \<and> p @ ''*'' \<in> paths t \<longleftrightarrow>
      (\<exists>k \<in> S. prefix (p @ ''*'') k) \<and> (\<forall>k \<in> S. \<not> prefix (p @ [c]) k)" for p c
    by (auto simp: path dest: append_prefixD)
  then show ?thesis
    using search_loop_spec [of t q] assms by (simp add: Trie_search_def rule_match_def trie_rep_def)
qed

interpretation tr: rule_store Trie_new Trie_insert "\<lambda>t. Trie_search (Some t)" trie_rep
proof
  show "trie_rep Trie_new {}" by (simp add: trie_rep_def keys_new)
  show "\<exists>t'. Trie_insert t k = Some t' \<and> trie_rep t' (insert k S)"
    if "trie_rep t S" "ascii k" for t S k
    using insert_correct [of t k] live_insert [of t k] that unfolding trie_rep_def by blast
qed (rule trie_rep_search)

interpretation trd: rule_store_del Trie_new Trie_insert "\<lambda>t. Trie_search (Some t)" trie_rep
  "\<lambda>t. Trie_deletion (Some t)"
proof
  fix t S k
  assume rep: "trie_rep t S" and ne: "S \<noteq> {}" and k: "ascii k"
  obtain x where x: "Trie_deletion (Some t) k = Some (x, x = None)" "wf_opt x"
    "keys_opt x = S - {k}" "live_opt x"
    using deletion_correct [of t k] rep ne k unfolding trie_rep_def by blast
  then have "x = None \<longleftrightarrow> S - {k} = {}"
    by (cases x) (auto simp: live_opt_def)
  with x show "\<exists>x. Trie_deletion (Some t) k = Some (x, S - {k} = {}) \<and>
      (case x of None \<Rightarrow> S - {k} = {} | Some t' \<Rightarrow> S - {k} \<noteq> {} \<and> trie_rep t' (S - {k}))"
    by (cases x) (auto simp: trie_rep_def wf_opt_def live_opt_def)
qed

section \<open>The client: loading reversed domains\<close>

text \<open>\<^verbatim>\<open>main\<close> of \<^verbatim>\<open>tests/test_trie.cpp\<close>, with the lines of its two files as arguments: rules are
  reversed and inserted; domains longer than 15 characters are reversed and searched, in a
  number of rounds.\<close>

definition DOMAIN_MAX_LENGTH :: nat where
  "DOMAIN_MAX_LENGTH = 15"

definition build_rules :: "string list \<Rightarrow> trie option" where
  "build_rules ls = insert_all Trie_insert Trie_new (map rev ls)"

definition load_domains :: "string list \<Rightarrow> string list" where
  "load_domains ls = map rev (filter (\<lambda>l. length l > DOMAIN_MAX_LENGTH) ls)"

text \<open>The counter is an \<^verbatim>\<open>int\<close>, which never goes down: passing its largest value is undefined.\<close>

definition int_add :: "nat \<Rightarrow> nat \<Rightarrow> nat option" where
  "int_add a b = (if a + b < 2 ^ 31 then Some (a + b) else None)"

fun count_matches :: "trie \<Rightarrow> string list \<Rightarrow> nat \<Rightarrow> nat option" where
  "count_matches t [] count = Some count"
| "count_matches t (d # ds) count =
     do { hit \<leftarrow> Trie_search (Some t) d; count \<leftarrow> int_add count (of_bool hit); count_matches t ds count }"

fun count_rounds :: "nat \<Rightarrow> trie \<Rightarrow> string list \<Rightarrow> nat \<Rightarrow> nat option" where
  "count_rounds 0 t ds count = Some count"
| "count_rounds (Suc i) t ds count = do { c \<leftarrow> count_matches t ds count; count_rounds i t ds c }"

text \<open>The program, on the lines of its two files: the count it prints.\<close>

definition trie_main :: "string list \<Rightarrow> string list \<Rightarrow> nat option" where
  "trie_main rules lines = do {
     t \<leftarrow> build_rules rules;
     count_rounds 1000 t (load_domains lines) 0 }"

text \<open>Matching in terms of the domains themselves: a suffix of the domain, an asterisk before it.\<close>

definition domain_match :: "string set \<Rightarrow> string \<Rightarrow> bool" where
  "domain_match R d \<longleftrightarrow> d \<in> R \<or>
     (\<exists>x c s. d = x @ c # s \<and> (\<exists>k \<in> R. suffix (''*'' @ s) k) \<and> (\<forall>k \<in> R. \<not> suffix (c # s) k))"

lemma ascii_rev [simp]: "ascii (rev s) = ascii s"
  by (simp add: ascii_def)

lemma rule_match_rev: "rule_match (rev ` R) (rev d) = domain_match R d"
proof -
  have "(\<exists>p c r. rev d = p @ c # r \<and> (\<exists>k \<in> rev ` R. prefix (p @ ''*'') k) \<and>
         (\<forall>k \<in> rev ` R. \<not> prefix (p @ [c]) k)) \<longleftrightarrow>
      (\<exists>x c s. d = x @ c # s \<and> (\<exists>k \<in> R. suffix (''*'' @ s) k) \<and> (\<forall>k \<in> R. \<not> suffix (c # s) k))"
    (is "?L \<longleftrightarrow> ?R")
  proof
    assume ?L
    then obtain p c r where "rev d = p @ c # r" "\<exists>k \<in> rev ` R. prefix (p @ ''*'') k"
      "\<forall>k \<in> rev ` R. \<not> prefix (p @ [c]) k" by blast
    then show ?R
      by (intro exI [of _ "rev r"] exI [of _ c] exI [of _ "rev p"])
        (auto simp: suffix_to_prefix rev_swap)
  next
    assume ?R
    then obtain x c s where "d = x @ c # s" "\<exists>k \<in> R. suffix (''*'' @ s) k"
      "\<forall>k \<in> R. \<not> suffix (c # s) k" by blast
    then show ?L
      by (intro exI [of _ "rev s"] exI [of _ c] exI [of _ "rev x"]) (auto simp: suffix_to_prefix)
  qed
  moreover have "rev d \<in> rev ` R \<longleftrightarrow> d \<in> R" by (auto simp: image_iff)
  ultimately show ?thesis by (simp add: rule_match_def domain_match_def)
qed

lemma count_matches_eq:
  assumes "trie_rep t (rev ` R)" "list_all ascii ds" "n < 2 ^ 31"
  shows "count_matches t (map rev ds) n = int_add n (length (filter (domain_match R) ds))"
  using assms(2,3)
  by (induction ds arbitrary: n)
    (auto simp: trie_rep_search [OF assms(1)] rule_match_rev int_add_def)

lemma count_rounds_eq:
  assumes "trie_rep t (rev ` R)" "list_all ascii ds" "n < 2 ^ 31"
  shows "count_rounds i t (map rev ds) n = int_add n (i * length (filter (domain_match R) ds))"
  using assms(3)
proof (induction i arbitrary: n)
  case (Suc i)
  then show ?case
    by (simp add: count_matches_eq [OF assms(1,2)] int_add_def ac_simps split: if_splits)
qed (simp add: int_add_def)

section \<open>Properties\<close>

text \<open>C33: Loading any list of ASCII rules succeeds, and searching the loaded trie for a reversed
  domain answers whether the domain is a rule, or has a suffix that some rule continues with
  an asterisk and no rule continues with the domain's own next character.\<close>

theorem search_domains:
  assumes "list_all ascii rules" and "ascii d"
  shows "\<exists>t. build_rules rules = Some t \<and>
    Trie_search (Some t) (rev d) = Some (domain_match (set rules) d)"
  using tr.load_search [of "map rev rules"] assms rule_match_rev [of "set rules" d]
  by (auto simp: build_rules_def list_all_iff)

theorem search_domains_witness:
  "list_all ascii [''*.qq.com'', ''a.cn''] \<and> ascii ''im.qq.com'' \<and>
   (\<exists>t. build_rules [''*.qq.com'', ''a.cn''] = Some t \<and>
      Trie_search (Some t) (rev ''im.qq.com'') = Some True)"
proof -
  have a: "list_all ascii [''*.qq.com'', ''a.cn'']" "ascii ''im.qq.com''"
    by (simp_all add: idx_def CHAR_SIZE_def)
  have "domain_match (set [''*.qq.com'', ''a.cn'']) ''im.qq.com''"
    unfolding domain_match_def
    by (intro disjI2 exI [of _ "''i''"] exI [of _ "CHR ''m''"] exI [of _ "''.qq.com''"])
      (simp add: suffix_def)
  with search_domains [OF a] a show ?thesis by simp
qed

text \<open>C34: The trie driver counts what it means to count, as far as its counter reaches: for files of ASCII
  lines it prints a thousand times the number of lines of more than 15 characters that a rule
  matches, duplicates counted, if that is below 2 to the 31; from 2147484 matching lines on its
  counter overflows.\<close>

theorem trie_main_counts:
  assumes "list_all ascii rules" and "list_all ascii lines"
    and "hits = length (filter (\<lambda>d. length d > DOMAIN_MAX_LENGTH \<and> domain_match (set rules) d) lines)"
  shows "trie_main rules lines = (if hits < 2147484 then Some (1000 * hits) else None)"
proof -
  obtain t where t: "build_rules rules = Some t" "trie_rep t (rev ` set rules)"
    using tr.load_search [of "map rev rules"] assms(1) by (auto simp: build_rules_def list_all_iff)
  have "list_all ascii (filter (\<lambda>l. length l > DOMAIN_MAX_LENGTH) lines)"
    using assms(2) by (simp add: list_all_iff)
  from count_rounds_eq [OF t(2) this, of 0 1000] show ?thesis
    using t(1) assms(3) by (simp add: trie_main_def load_domains_def int_add_def conj_commute)
qed

theorem trie_main_counts_witness:
  "trie_main [''*.qq.com''] [''pictures.im.qq.com'', ''im.qq.com''] = Some 1000"
proof -
  have a: "list_all ascii [''*.qq.com'']" "list_all ascii [''pictures.im.qq.com'', ''im.qq.com'']"
    by (simp_all add: idx_def CHAR_SIZE_def)
  have "domain_match (set [''*.qq.com'']) ''pictures.im.qq.com''"
    unfolding domain_match_def
    by (intro disjI2 exI [of _ "''pictures.i''"] exI [of _ "CHR ''m''"] exI [of _ "''.qq.com''"])
      (simp add: suffix_def)
  with trie_main_counts [OF a refl] show ?thesis by (simp add: DOMAIN_MAX_LENGTH_def)
qed

text \<open>The trie that stores nothing is the new one, and a deletion leaves it as it is.\<close>

lemma trie_rep_empty:
  assumes "trie_rep t {}" "ascii k"
  shows "Trie_deletion (Some t) k = Some (Some t, False)"
proof -
  obtain leaf cs where t: "t = Trie leaf cs" by (cases t)
  then have len: "length cs = CHAR_SIZE" using assms(1) by (simp add: trie_rep_def)
  have "[] \<notin> keys t" using assms(1) by (simp add: trie_rep_def)
  then have "\<not> leaf" by (simp add: t keys_def)
  have none: "child cs c = None" for c
  proof (rule ccontr)
    assume "child cs c \<noteq> None"
    then have "[c] \<in> paths t" by (auto simp: t)
    then show False using live_paths [of t "[c]"] assms(1) by (simp add: trie_rep_def)
  qed
  show ?thesis
  proof (cases k)
    case Nil
    then show ?thesis using \<open>\<not> leaf\<close> len by (simp add: t deletion_Nil)
  next
    case (Cons c key)
    then obtain i where "idx c = Some i" using assms(2) by (auto simp: ascii_def idx_def)
    then show ?thesis using deletion_Cons_None [OF len _ none] by (simp add: t Cons)
  qed
qed

text \<open>C37: Deleting an ASCII string from a trie that stores a set of strings leaves a trie that stores
  the set without it. The root is freed exactly when a last string has been deleted, and the result
  says so; a trie that stores nothing keeps its root and the result is false. A search for an
  ASCII string then answers as if the string had never been inserted. (A byte of 128 or more
  indexes out of the array.)\<close>

theorem deletion_removes:
  assumes "trie_rep t S" and "ascii k" and "ascii q"
  shows "\<exists>x. Trie_deletion (Some t) k = Some (x, x = None) \<and> (x = None \<longleftrightarrow> S \<noteq> {} \<and> S - {k} = {}) \<and>
    (case x of None \<Rightarrow> True | Some t' \<Rightarrow> trie_rep t' (S - {k})) \<and>
    Trie_search x q = Some (S - {k} \<noteq> {} \<and> rule_match (S - {k}) q)"
proof (cases "S = {}")
  case True
  then have "Trie_deletion (Some t) k = Some (Some t, False)" using trie_rep_empty assms(1,2) by simp
  moreover have "Trie_search (Some t) q = Some False"
    using trie_rep_search [OF assms(1,3)] True by (simp add: rule_match_def)
  ultimately show ?thesis using assms(1) True by (intro exI [of _ "Some t"]) simp
next
  case False
  obtain x where x: "Trie_deletion (Some t) k = Some (x, S - {k} = {})"
    "case x of None \<Rightarrow> S - {k} = {} | Some t' \<Rightarrow> S - {k} \<noteq> {} \<and> trie_rep t' (S - {k})"
    using trd.rep_del [OF assms(1) False assms(2)] by blast
  then have "Trie_search x q = Some (S - {k} \<noteq> {} \<and> rule_match (S - {k}) q)"
    by (cases x; simp add: trie_rep_search [OF _ assms(3)]; simp add: Trie_search_def)
  then show ?thesis
    using x False by (intro exI [of _ x]) (simp split: option.splits)
qed

theorem deletion_removes_witness:
  "\<exists>t. Trie_insert Trie_new ''ab'' = Some t \<and> trie_rep t {''ab''} \<and>
     Trie_deletion (Some t) ''ab'' = Some (None, True)"
proof -
  have a: "ascii ''ab''" by (simp add: idx_def CHAR_SIZE_def)
  obtain t where "Trie_insert Trie_new ''ab'' = Some t" "trie_rep t {''ab''}"
    using tr.rep_ins [OF tr.rep_new a] by blast
  with deletion_removes [of t "{''ab''}" "''ab''" "''ab''"] a show ?thesis by auto
qed

text \<open>C36: Inserting a new string and deleting it again gives back the very same trie, node for node;
  only in the empty trie the root itself is freed.\<close>

theorem insert_delete_roundtrip:
  assumes "trie_rep t S" and "ascii k" and "k \<notin> S"
  shows "\<exists>t'. Trie_insert t k = Some t' \<and>
    Trie_deletion (Some t') k = Some (if t = Trie_new then (None, True) else (Some t, False))"
proof -
  obtain t' where "Trie_insert t k = Some t'"
    using tr.rep_ins [OF assms(1,2)] by blast
  with deletion_insert [of t k t'] assms show ?thesis by (auto simp: trie_rep_def)
qed

theorem insert_delete_roundtrip_witness:
  "trie_rep Trie_new {} \<and> ascii ''ab'' \<and> ''ab'' \<notin> ({} :: string set) \<and>
   (\<exists>t'. Trie_insert Trie_new ''ab'' = Some t' \<and> Trie_deletion (Some t') ''ab'' = Some (None, True))"
proof -
  have "ascii ''ab''" by (simp add: idx_def CHAR_SIZE_def)
  with insert_delete_roundtrip [OF tr.rep_new this] tr.rep_new show ?thesis by simp
qed

text \<open>A wildcard rule is hidden by a more specific rule: with only the wildcard stored, the
  domain matches; once a rule that shares one more character with the domain is added, the
  same search answers no. Insertion is not monotone for search.\<close>

theorem wildcard_shadowed:
  "do { t \<leftarrow> build_rules [''*.a.com'']; Trie_search (Some t) (rev ''y.b.a.com'') } = Some True \<and>
   do { t \<leftarrow> build_rules [''*.a.com'', ''x.b.a.com'']; Trie_search (Some t) (rev ''y.b.a.com'') } = Some False"
  by code_simp

text \<open>A key with a character outside the array (a byte of 128 or more) makes insertion index out
  of bounds: no key that is not ASCII can be inserted.\<close>

theorem insert_non_ascii:
  assumes "wf_trie t" and "\<not> ascii k"
  shows "Trie_insert t k = None"
  using assms
proof (induction k arbitrary: t)
  case (Cons c k)
  obtain leaf cs where t: "t = Trie leaf cs" by (cases t)
  then have len: "length cs = CHAR_SIZE" using Cons.prems(1) by simp
  show ?case
  proof (cases "idx c")
    case (Some i)
    then have "\<not> ascii k" using Cons.prems(2) idx_less by auto
    then have "Trie_insert (sub cs c) k = None"
      using Cons.IH wf_sub Cons.prems(1) t by blast
    then show ?thesis unfolding t insert_Cons [OF len Some] by simp
  qed (simp add: t)
qed simp

theorem insert_non_ascii_witness:
  "wf_trie Trie_new \<and> \<not> ascii [CHR ''a'', CHR 0xE9] \<and> Trie_insert Trie_new [CHR ''a'', CHR 0xE9] = None"
proof -
  have "\<not> ascii [CHR ''a'', CHR 0xE9]" by (simp add: ascii_def CHAR_SIZE_def)
  with insert_non_ascii [OF wf_new(1)] show ?thesis by simp
qed

text \<open>C30: The trie is a well-formed type: in every node all 128 children are there, and no operation on
  an ASCII string leaves the array of a node or breaks that. Search and deletion return on every
  well-formed trie and on the null pointer, insertion on every well-formed trie, and what insertion
  and deletion leave is well-formed again.\<close>

theorem trie_type_safe:
  assumes "wf_opt x" and "ascii k"
  shows "Trie_search x k \<noteq> None \<and>
    (\<forall>t. x = Some t \<longrightarrow> (\<exists>t'. Trie_insert t k = Some t' \<and> wf_opt (Some t'))) \<and>
    (\<exists>x' b. Trie_deletion x k = Some (x', b) \<and> wf_opt x')"
proof (cases x)
  case (Some t)
  then have "wf_trie t" using assms(1) by (simp add: wf_opt_def)
  with insert_correct [OF this assms(2)] deletion_correct [OF this assms(2)] search_loop_spec [OF this assms(2)] Some
  show ?thesis by (auto simp: Trie_search_def wf_opt_def)
next
  case None
  have "Trie_deletion None k = Some (None, False)" by (rule Trie_deletion.simps(1))
  then show ?thesis using None by (auto simp: Trie_search_def wf_opt_def)
qed

theorem trie_type_safe_witness:
  "\<exists>t. Trie_insert Trie_new ''ab'' = Some t \<and> wf_opt (Some t) \<and> Trie_search (Some Trie_new) ''ab'' \<noteq> None"
proof -
  have "wf_opt (Some Trie_new)" "ascii ''ab''" by (simp_all add: wf_opt_def idx_def CHAR_SIZE_def)
  from trie_type_safe [OF this] show ?thesis by blast
qed

end
