(* ===== verification/Socket_Addr.thy ===== *)
theory Socket_Addr
  imports AE_Prelude
begin

text \<open>
  Addresses: \<^verbatim>\<open>ae/socket_addr.h\<close>, \<^verbatim>\<open>ae/socket_addr.cpp\<close>. The operating system's address
  structure is the overlay the code casts between: a family, a port in network byte order and
  the bytes behind them (the four address bytes come first in \<^verbatim>\<open>sockaddr_in\<close>; in
  \<^verbatim>\<open>sockaddr_in6\<close> four bytes of flow information precede sixteen address bytes). The parsers
  of libuv and the printer for IPv6 are parameters. The branch for the MSVC compiler is left out.
\<close>

section \<open>System structures and library functions\<close>

record sockaddr =
  sa_family :: u16
  sa_port :: u16
  sa_bytes :: "byte list"

record addr_lib =
  uv_ip4_addr :: "string \<Rightarrow> u16 \<Rightarrow> sockaddr"
  uv_ip6_addr :: "string \<Rightarrow> u16 \<Rightarrow> sockaddr"
  inet_ntop6 :: "byte list \<Rightarrow> string"
  std_hash :: "string \<Rightarrow> 64 word"

text \<open>\<^verbatim>\<open>htons\<close> swaps the two bytes on the little-endian hosts the code is built for;
  \<^verbatim>\<open>inet_ntoa\<close> prints four bytes in dotted decimal.\<close>

definition htons :: "u16 \<Rightarrow> u16" where
  "htons x = push_bit 8 x OR drop_bit 8 x"

definition byte_dec :: "byte \<Rightarrow> string" where
  "byte_dec b = dec_string (unat b)"

definition dotted :: "byte \<Rightarrow> byte \<Rightarrow> byte \<Rightarrow> byte \<Rightarrow> string" where
  "dotted a b c d = byte_dec a @ ''.'' @ byte_dec b @ ''.'' @ byte_dec c @ ''.'' @ byte_dec d"

definition inet_ntoa :: "byte list \<Rightarrow> string option" where
  "inet_ntoa s = do { a \<leftarrow> at s 0; b \<leftarrow> at s 1; c \<leftarrow> at s 2; d \<leftarrow> at s 3; Some (dotted a b c d) }"

section \<open>SocketAddr\<close>

datatype IPV = Ipv4 | Ipv6

text \<open>A structure the constructor leaves uninitialised is \<open>None\<close>.\<close>

record socket_addr =
  ad_ip :: string
  ad_port :: u16
  ad_ipv :: IPV
  ad_ipv4 :: "sockaddr option"
  ad_ipv6 :: "sockaddr option"
  ad_hash_code :: "64 word"

definition SocketAddr_get_ip_and_port :: "addr_lib \<Rightarrow> sockaddr \<Rightarrow> IPV \<Rightarrow> (string \<times> u16) option" where
  "SocketAddr_get_ip_and_port A addr ipv =
     (if ipv = Ipv6
      then (if length (sa_bytes addr) < 20 then None
            else Some (inet_ntop6 A (take 16 (drop 4 (sa_bytes addr))), htons (sa_port addr)))
      else do { s \<leftarrow> inet_ntoa (sa_bytes addr); Some (s, htons (sa_port addr)) })"

text \<open>The constructor from a printed address; its \<^verbatim>\<open>int\<close> port argument was converted to
  \<^verbatim>\<open>unsigned short\<close> by the caller.\<close>

definition SocketAddr_of_ip :: "addr_lib \<Rightarrow> string \<Rightarrow> u16 \<Rightarrow> IPV \<Rightarrow> socket_addr" where
  "SocketAddr_of_ip A ip port ipv =
     \<lparr>ad_ip = ip, ad_port = port, ad_ipv = ipv,
      ad_ipv4 = (if ipv = Ipv6 then None else Some (uv_ip4_addr A (c_str ip) port)),
      ad_ipv6 = (if ipv = Ipv6 then Some (uv_ip6_addr A (c_str ip) port) else None),
      ad_hash_code = 0\<rparr>"

definition SocketAddr_of_sockaddr :: "addr_lib \<Rightarrow> sockaddr \<Rightarrow> IPV \<Rightarrow> socket_addr option" where
  "SocketAddr_of_sockaddr A addr ipv =
     do { (ip, port) \<leftarrow> SocketAddr_get_ip_and_port A addr ipv;
          Some \<lparr>ad_ip = ip, ad_port = port, ad_ipv = ipv,
                ad_ipv4 = (if ipv = Ipv4 then Some addr else None),
                ad_ipv6 = (if ipv = Ipv4 then None else Some addr),
                ad_hash_code = 0\<rparr> }"

definition SocketAddr_addr :: "socket_addr \<Rightarrow> sockaddr option" where
  "SocketAddr_addr a = (if ad_ipv a = Ipv6 then ad_ipv6 a else ad_ipv4 a)"

definition u16_string :: "u16 \<Rightarrow> string" where
  "u16_string p = to_string (uint p)"

definition SocketAddr_to_string :: "socket_addr \<Rightarrow> string" where
  "SocketAddr_to_string a = ad_ip a @ '':'' @ u16_string (ad_port a)"

definition SocketAddr_port :: "socket_addr \<Rightarrow> int" where
  "SocketAddr_port a = uint (ad_port a)"

definition SocketAddr_ip :: "socket_addr \<Rightarrow> string" where
  "SocketAddr_ip a = ad_ip a"

definition SocketAddr_ipv :: "socket_addr \<Rightarrow> IPV" where
  "SocketAddr_ipv a = ad_ipv a"

definition SocketAddr_hash_code :: "addr_lib \<Rightarrow> socket_addr \<Rightarrow> 64 word \<times> socket_addr" where
  "SocketAddr_hash_code A a =
     (let a = (if ad_hash_code a = 0
               then a\<lparr>ad_hash_code := std_hash A (ad_ip a @ '':'' @ u16_string (ad_port a))\<rparr> else a)
      in (ad_hash_code a, a))"

text \<open>\<^verbatim>\<open>addr_to_str\<close> on a connected socket; the peer address the system reports is an argument.\<close>

definition SocketAddr_addr_to_str :: "addr_lib \<Rightarrow> sockaddr \<Rightarrow> IPV \<Rightarrow> string option" where
  "SocketAddr_addr_to_str A peer ipv =
     do { (s, port) \<leftarrow> SocketAddr_get_ip_and_port A peer ipv; Some (s @ '':'' @ u16_string port) }"

section \<open>Documented behaviour of the parser\<close>

text \<open>\<^verbatim>\<open>uv_ip4_addr\<close> on a dotted decimal address fills in the family, the port in network byte
  order and the four address bytes.\<close>

definition ip4_law :: "addr_lib \<Rightarrow> bool" where
  "ip4_law A \<longleftrightarrow> (\<forall>a b c d p. \<exists>pad. uv_ip4_addr A (dotted a b c d) p =
     \<lparr>sa_family = 2, sa_port = htons p, sa_bytes = [a, b, c, d] @ pad\<rparr>)"

text \<open>A parser that satisfies it, to show that it can hold: it reads the decimal pieces between
  the dots.\<close>

fun split_dots :: "string \<Rightarrow> string list" where
  "split_dots [] = [[]]"
| "split_dots (c # s) =
     (if c = CHR ''.'' then [] # split_dots s
      else case split_dots s of [] \<Rightarrow> [[c]] | w # ws \<Rightarrow> (c # w) # ws)"

definition demo_addr_lib :: addr_lib where
  "demo_addr_lib =
     \<lparr>uv_ip4_addr = (\<lambda>s p. \<lparr>sa_family = 2, sa_port = htons p,
        sa_bytes = map (\<lambda>w. of_nat (dec_value w)) (split_dots s) @ replicate 8 0\<rparr>),
      uv_ip6_addr = (\<lambda>s p. \<lparr>sa_family = 10, sa_port = htons p, sa_bytes = replicate 24 0\<rparr>),
      inet_ntop6 = (\<lambda>s. ''::''),
      std_hash = (\<lambda>s. of_nat (length s))\<rparr>"

lemma split_dots_plain: "CHR ''.'' \<notin> set s \<Longrightarrow> split_dots s = [s]"
  by (induction s) auto

lemma split_dots_dot: "CHR ''.'' \<notin> set s \<Longrightarrow> split_dots (s @ CHR ''.'' # r) = s # split_dots r"
  by (induction s) auto

lemma byte_dec_no_dot [simp]: "CHR ''.'' \<notin> set (byte_dec b)"
  using set_dec_string not_digit by (auto simp: byte_dec_def)

lemma byte_dec_value [simp]: "of_nat (dec_value (byte_dec b)) = b"
  by (simp add: byte_dec_def dec_value_dec_string del: dec_value.simps)

lemma ip4_law_demo: "ip4_law demo_addr_lib"
  by (simp add: ip4_law_def demo_addr_lib_def dotted_def split_dots_dot split_dots_plain
      del: dec_value.simps)

section \<open>Facts\<close>

lemma htons_htons [simp]: "htons (htons p) = p"
proof (rule bit_word_eqI)
  fix n assume "n < LENGTH(16)"
  then show "bit (htons (htons p)) n \<longleftrightarrow> bit p n"
    by (cases "n < 8") (auto simp: htons_def bit_simps)
qed

lemma dotted_c_str [simp]: "c_str (dotted a b c d) = dotted a b c d"
  using set_dec_string not_digit by (intro c_str_id) (auto simp: dotted_def byte_dec_def)

lemma u16_string_inj [simp]: "u16_string p = u16_string q \<longleftrightarrow> p = q"
  by (simp add: u16_string_def word_uint_eq_iff)

lemma u16_string_colon [simp]: "CHR '':'' \<notin> set (u16_string p)"
  by (simp add: u16_string_def)

section \<open>Properties\<close>

text \<open>An address built from a dotted decimal string and a port converts to the system structure
  and back without loss: decoding its \<^verbatim>\<open>addr()\<close> gives the same text, port and printed form.\<close>

theorem addr_roundtrip:
  assumes "ip4_law A"
  shows "\<exists>sa b'. SocketAddr_addr (SocketAddr_of_ip A (dotted a b c d) p Ipv4) = Some sa \<and>
    SocketAddr_of_sockaddr A sa Ipv4 = Some b' \<and>
    SocketAddr_ip b' = dotted a b c d \<and> SocketAddr_port b' = uint p \<and>
    SocketAddr_to_string b' = SocketAddr_to_string (SocketAddr_of_ip A (dotted a b c d) p Ipv4)"
proof -
  obtain pad where "uv_ip4_addr A (dotted a b c d) p =
      \<lparr>sa_family = 2, sa_port = htons p, sa_bytes = [a, b, c, d] @ pad\<rparr>"
    using assms unfolding ip4_law_def by metis
  then show ?thesis
    by (simp add: SocketAddr_addr_def SocketAddr_of_ip_def SocketAddr_of_sockaddr_def
        SocketAddr_get_ip_and_port_def inet_ntoa_def SocketAddr_ip_def SocketAddr_port_def
        SocketAddr_to_string_def)
qed

theorem addr_roundtrip_witness:
  "ip4_law demo_addr_lib \<and>
   (\<exists>sa b'. SocketAddr_addr (SocketAddr_of_ip demo_addr_lib (dotted 127 0 0 1) 4444 Ipv4) = Some sa \<and>
      SocketAddr_of_sockaddr demo_addr_lib sa Ipv4 = Some b' \<and> SocketAddr_ip b' = dotted 127 0 0 1 \<and>
      SocketAddr_port b' = 4444)"
  using addr_roundtrip [OF ip4_law_demo, of 127 0 0 1 4444] ip4_law_demo by auto

text \<open>Printed addresses determine the address: two addresses with the same printed form have the
  same IP text and the same port, whatever the IP text contains.\<close>

theorem to_string_determines:
  "SocketAddr_to_string a = SocketAddr_to_string b \<longleftrightarrow>
     SocketAddr_ip a = SocketAddr_ip b \<and> SocketAddr_port a = SocketAddr_port b"
  using split_last [of "CHR '':''" "u16_string (ad_port a)" "u16_string (ad_port b)" "ad_ip a" "ad_ip b"]
  by (auto simp: SocketAddr_to_string_def SocketAddr_ip_def SocketAddr_port_def
      word_uint_eq_iff)

text \<open>The name under which a TCP connection is registered (\<^verbatim>\<open>addr_to_str\<close> of its peer) is the
  printed form of the address object made from the same peer, and fails exactly when that does.\<close>

theorem peer_name:
  "SocketAddr_addr_to_str A peer ipv =
     map_option SocketAddr_to_string (SocketAddr_of_sockaddr A peer ipv)"
  by (auto simp: SocketAddr_addr_to_str_def SocketAddr_of_sockaddr_def SocketAddr_to_string_def
      split: Option.bind_splits)

text \<open>The cached hash code of an address is the hash of its printed form at every call, also
  when that hash is zero and the cache cannot tell it from unset; computing it changes
  neither the address nor its printed form.\<close>

theorem hash_code_cached:
  assumes "ad_hash_code a = 0 \<or> ad_hash_code a = std_hash A (SocketAddr_to_string a)"
  shows "\<exists>a'. SocketAddr_hash_code A a = (std_hash A (SocketAddr_to_string a), a') \<and>
    SocketAddr_hash_code A a' = (std_hash A (SocketAddr_to_string a), a') \<and>
    SocketAddr_to_string a' = SocketAddr_to_string a \<and> SocketAddr_addr a' = SocketAddr_addr a"
  using assms
  by (auto simp: SocketAddr_hash_code_def SocketAddr_to_string_def SocketAddr_addr_def Let_def)

theorem hash_code_cached_witness:
  "fst (SocketAddr_hash_code demo_addr_lib (SocketAddr_of_ip demo_addr_lib ''::'' 80 Ipv6)) = 5"
  using hash_code_cached [of "SocketAddr_of_ip demo_addr_lib ''::'' 80 Ipv6" demo_addr_lib]
  by (auto simp: SocketAddr_of_ip_def demo_addr_lib_def SocketAddr_to_string_def u16_string_def
      to_string_def dec_string_step)

end
