(* ===== verification/Libuv.thy ===== *)
theory Libuv
  imports Socket_Addr
begin

text \<open>
  The boundary to libuv, which is not part of the repository. A call of the library is a value
  of \<open>uv_call\<close>; the record \<open>libuv\<close> is the parameter that answers calls and queries over a state
  of its own. What the code relies on is stated as \<open>uv_laws\<close>. The locale \<open>closable\<close> is the
  contract that the closing protocol of timers, acceptors, sockets and connections shares.
\<close>

section \<open>Calls and queries\<close>

type_synonym hid = nat  \<comment> \<open>the address of a handle\<close>
type_synonym rid = nat  \<comment> \<open>the address of a request\<close>

datatype uv_call =
    UvTimerInit hid | UvTimerStart hid "64 word" "64 word" | UvTimerStop hid
  | UvTimerSetRepeat hid "64 word"
  | UvAsyncInit hid | UvAsyncSend hid
  | UvTcpInit hid | UvTcpNodelay hid | UvTcpBind hid sockaddr | UvListen hid nat | UvAccept hid hid
  | UvTcpConnect rid hid sockaddr
  | UvReadStart hid | UvReadStop hid | UvWrite rid hid "byte list" | UvShutdown rid hid
  | UvUdpInit hid | UvUdpBind hid sockaddr | UvUdpRecvStart hid | UvUdpRecvStop hid
  | UvUdpSend rid hid "byte list" sockaddr
  | UvClose hid | UvStop

record 'u libuv =
  uv :: "uv_call \<Rightarrow> 'u \<Rightarrow> int \<times> 'u"
  uv_is_active :: "hid \<Rightarrow> 'u \<Rightarrow> bool"
  uv_is_closing :: "hid \<Rightarrow> 'u \<Rightarrow> bool"
  uv_getpeername :: "hid \<Rightarrow> 'u \<Rightarrow> sockaddr"
  uv_err_name :: "int \<Rightarrow> string"
  uv_strerror :: "int \<Rightarrow> string"

definition uv_do :: "'u libuv \<Rightarrow> uv_call \<Rightarrow> 'u \<Rightarrow> 'u" where
  "uv_do L c u = snd (uv L c u)"

definition UV_EOF :: int where
  "UV_EOF = - 4095"

fun inits :: "uv_call \<Rightarrow> hid option" where
  "inits (UvTimerInit h) = Some h"
| "inits (UvAsyncInit h) = Some h"
| "inits (UvTcpInit h) = Some h"
| "inits (UvUdpInit h) = Some h"
| "inits _ = None"

text \<open>The documentation of \<^verbatim>\<open>uv_close\<close> and \<^verbatim>\<open>uv_is_closing\<close>: a handle is closing from the call of
  \<^verbatim>\<open>uv_close\<close> on, is not closing once initialised, and no other call changes that.\<close>

definition uv_laws :: "'u libuv \<Rightarrow> bool" where
  "uv_laws L \<longleftrightarrow>
     (\<forall>h u. uv_is_closing L h (uv_do L (UvClose h) u)) \<and>
     (\<forall>c h u. inits c = Some h \<longrightarrow> \<not> uv_is_closing L h (uv_do L c u)) \<and>
     (\<forall>c h u. c \<noteq> UvClose h \<longrightarrow> inits c \<noteq> Some h \<longrightarrow>
        (uv_is_closing L h (uv_do L c u) \<longleftrightarrow> uv_is_closing L h u))"

lemma closing_close [uv_simps]: "uv_laws L \<Longrightarrow> uv_is_closing L h (uv_do L (UvClose h) u)"
  by (simp add: uv_laws_def)

lemma closing_init [uv_simps]: "uv_laws L \<Longrightarrow> inits c = Some h \<Longrightarrow> \<not> uv_is_closing L h (uv_do L c u)"
  by (simp add: uv_laws_def)

lemma closing_other [uv_simps]:
  "uv_laws L \<Longrightarrow> c \<noteq> UvClose h \<Longrightarrow> inits c \<noteq> Some h \<Longrightarrow>
   uv_is_closing L h (uv_do L c u) \<longleftrightarrow> uv_is_closing L h u"
  by (simp add: uv_laws_def)

text \<open>A state is reached by calls that satisfy \<open>P\<close>; \<open>silent\<close> calls write nothing to a connection.\<close>

definition calls_by :: "'u libuv \<Rightarrow> (uv_call \<Rightarrow> bool) \<Rightarrow> 'u \<Rightarrow> 'u \<Rightarrow> bool" where
  "calls_by L P u u' \<longleftrightarrow> (\<exists>cs. (\<forall>c \<in> set cs. P c) \<and> u' = fold (uv_do L) cs u)"

definition silent :: "uv_call \<Rightarrow> bool" where
  "silent c \<longleftrightarrow> (\<forall>r h b. c \<noteq> UvWrite r h b)"

lemma silent_simps [simp]:
  "silent (UvTcpInit h)" "silent (UvTcpNodelay h)" "silent (UvAccept g h)" "silent (UvTcpConnect r h sa)"
  "silent (UvReadStart h)" "silent (UvReadStop h)" "silent (UvShutdown r h)" "silent (UvClose h)"
  "\<not> silent (UvWrite r h b)"
  by (simp_all add: silent_def)

lemma calls_by_refl [simp, intro]: "calls_by L P u u"
  unfolding calls_by_def by (intro exI [of _ "[]"]) simp

lemma calls_by_do: "P c \<Longrightarrow> calls_by L P u (uv_do L c u)"
  unfolding calls_by_def by (intro exI [of _ "[c]"]) simp

lemma calls_by_trans: "calls_by L P u u1 \<Longrightarrow> calls_by L P u1 u2 \<Longrightarrow> calls_by L P u u2"
  unfolding calls_by_def by (metis (no_types, lifting) Un_iff comp_apply fold_append set_append)

lemma calls_by_step: "calls_by L P u u1 \<Longrightarrow> P c \<Longrightarrow> calls_by L P u (uv_do L c u1)"
  by (rule calls_by_trans [OF _ calls_by_do])

lemma calls_by_uv: "uv L c u1 = (rst, u') \<Longrightarrow> calls_by L P u u1 \<Longrightarrow> P c \<Longrightarrow> calls_by L P u u'"
  using calls_by_step [of L P u u1 c] by (simp add: uv_do_def)

lemma calls_by_mono: "calls_by L P u u' \<Longrightarrow> (\<And>c. P c \<Longrightarrow> Q c) \<Longrightarrow> calls_by L Q u u'"
  unfolding calls_by_def by blast

text \<open>A library that satisfies the laws: its state is the list of calls, latest first, and every
  call reports success.\<close>

fun trace_closing :: "hid \<Rightarrow> uv_call list \<Rightarrow> bool" where
  "trace_closing h [] = False"
| "trace_closing h (c # tr) =
     (if c = UvClose h then True else if inits c = Some h then False else trace_closing h tr)"

definition trace_uv :: "uv_call list libuv" where
  "trace_uv = \<lparr>uv = (\<lambda>c tr. (0, c # tr)), uv_is_active = (\<lambda>h tr. False),
     uv_is_closing = trace_closing,
     uv_getpeername = (\<lambda>h tr. \<lparr>sa_family = 2, sa_port = htons (of_nat h), sa_bytes = [127, 0, 0, 1]\<rparr>),
     uv_err_name = (\<lambda>e. ''ERR''), uv_strerror = (\<lambda>e. ''error'')\<rparr>"

lemma trace_uv_laws: "uv_laws trace_uv"
  by (auto simp: uv_laws_def trace_uv_def uv_do_def)

section \<open>The closing protocol\<close>

definition calls_of :: "'k option \<Rightarrow> 'k list" where
  "calls_of k = (case k of None \<Rightarrow> [] | Some c \<Rightarrow> [c])"

lemma calls_of_simps [simp]: "calls_of None = []" "calls_of (Some k) = [k]"
  by (simp_all add: calls_of_def)

text \<open>An object over a handle is closed by storing the completion callback and calling
  \<^verbatim>\<open>uv_close\<close>, unless the handle is closing already: then the callback is called at once.
  When libuv has closed the handle it calls the stored callback: \<open>fired\<close>. The state \<open>'s\<close> is the
  library, the object and libuv's state; \<open>ok\<close> says that the handle exists and the library keeps
  its laws. A close returns the callbacks it calls, or \<open>None\<close> when it uses a dangling handle.\<close>

locale closable =
  fixes ok :: "'s \<Rightarrow> bool"
    and closing :: "'s \<Rightarrow> bool"
    and close_op :: "'k option \<Rightarrow> 's \<Rightarrow> ('s \<times> 'k list) option"
    and fired :: "'s \<Rightarrow> 'k list"
  assumes close_open: "ok s \<Longrightarrow> \<not> closing s \<Longrightarrow>
      \<exists>s'. close_op k s = Some (s', []) \<and> ok s' \<and> closing s' \<and> fired s' = calls_of k"
    and close_again: "ok s \<Longrightarrow> closing s \<Longrightarrow>
      \<exists>s'. close_op k s = Some (s', calls_of k) \<and> ok s' \<and> closing s' \<and> fired s' = calls_of k"
begin

fun closes :: "'k option list \<Rightarrow> 's \<Rightarrow> ('s \<times> 'k list) option" where
  "closes [] s = Some (s, [])"
| "closes (k # ks) s = do { (s, cs) \<leftarrow> close_op k s; (s, cs') \<leftarrow> closes ks s; Some (s, cs @ cs') }"

lemma closes_again:
  assumes "ok s" "closing s" "fired s = f"
  shows "\<exists>s'. closes ks s = Some (s', concat (map calls_of ks)) \<and> ok s' \<and> closing s' \<and>
    fired s' = (if ks = [] then f else calls_of (last ks))"
  using assms
proof (induction ks arbitrary: s f)
  case (Cons k ks)
  obtain s1 where s1: "close_op k s = Some (s1, calls_of k)" "ok s1" "closing s1" "fired s1 = calls_of k"
    using close_again Cons.prems by blast
  show ?case using Cons.IH [OF s1(2-4)] s1(1) by auto
qed auto

text \<open>An object that is open and is closed some times before libuv is done: the first callback
  is called only when it is the only one; every later one is called at once, and the last one
  once more when libuv is done.\<close>

lemma closes_calls:
  assumes "ok s" "\<not> closing s"
  shows "\<exists>s'. closes (k # ks) s = Some (s', concat (map calls_of ks)) \<and> ok s' \<and> closing s' \<and>
    fired s' = calls_of (last (k # ks))"
proof -
  obtain s1 where s1: "close_op k s = Some (s1, [])" "ok s1" "closing s1" "fired s1 = calls_of k"
    using close_open assms by blast
  show ?thesis using closes_again [OF s1(2-4), of ks] s1(1) by auto
qed

lemma close_once:
  assumes "ok s" "\<not> closing s"
  shows "\<exists>s'. close_op k s = Some (s', []) \<and> fired s' = calls_of k"
  using close_open assms by blast

lemma close_twice:
  assumes "ok s" "\<not> closing s"
  shows "\<exists>s1 s2. close_op k s = Some (s1, []) \<and> close_op k' s1 = Some (s2, calls_of k') \<and>
    fired s2 = calls_of k'"
  using close_open [OF assms, of k] close_again by blast

end

end
