(* ===== verification/Timer.thy ===== *)
theory Timer
  imports Libuv
begin

text \<open>
  The timer wrapper: \<^verbatim>\<open>ae/timer.h\<close>, \<^verbatim>\<open>ae/timer.cpp\<close>. The operations act on the object and on
  libuv's state and return the callbacks they call with the timer as argument. The close
  callback deletes the handle, which leaves \<^verbatim>\<open>handle_\<close> dangling: \<open>None\<close>.
\<close>

record 'k timer =
  tm_started :: bool
  tm_handle :: "hid option"
  tm_timeout :: "64 word"
  tm_repeat :: "64 word"
  tm_callback :: "'k option"
  tm_closeComplete :: "'k option"

definition Timer_new ::
    "'u libuv \<Rightarrow> hid \<Rightarrow> 64 word \<Rightarrow> 64 word \<Rightarrow> 'k option \<Rightarrow> 'u \<Rightarrow> 'k timer \<times> 'u" where
  "Timer_new L h timeout repeat callback u =
     (\<lparr>tm_started = False, tm_handle = Some h, tm_timeout = timeout, tm_repeat = repeat,
       tm_callback = callback, tm_closeComplete = None\<rparr>, uv_do L (UvTimerInit h) u)"

definition Timer_start :: "'u libuv \<Rightarrow> 'k timer \<times> 'u \<Rightarrow> ('k timer \<times> 'u) option" where
  "Timer_start L = (\<lambda>(t, u).
     if \<not> tm_started t
     then do { h \<leftarrow> tm_handle t;
               Some (t\<lparr>tm_started := True\<rparr>, uv_do L (UvTimerStart h (tm_timeout t) (tm_repeat t)) u) }
     else Some (t, u))"

definition Timer_close_complete :: "'k timer \<Rightarrow> 'k list" where
  "Timer_close_complete t = calls_of (tm_closeComplete t)"

definition Timer_close ::
    "'u libuv \<Rightarrow> 'k option \<Rightarrow> 'k timer \<times> 'u \<Rightarrow> (('k timer \<times> 'u) \<times> 'k list) option" where
  "Timer_close L callback = (\<lambda>(t, u). do {
     let t = t\<lparr>tm_closeComplete := callback\<rparr>;
     h \<leftarrow> tm_handle t;
     let u = (if uv_is_active L h u then uv_do L (UvTimerStop h) u else u);
     Some (if \<not> uv_is_closing L h u then ((t, uv_do L (UvClose h) u), [])
           else ((t, u), Timer_close_complete t)) })"

text \<open>The callback handed to \<^verbatim>\<open>uv_close\<close>.\<close>

definition Timer_closed :: "'k timer \<Rightarrow> 'k timer \<times> 'k list" where
  "Timer_closed t = (t\<lparr>tm_handle := None\<rparr>, Timer_close_complete t)"

definition Timer_set_timer_repeat :: "'u libuv \<Rightarrow> 64 word \<Rightarrow> 'k timer \<times> 'u \<Rightarrow> ('k timer \<times> 'u) option" where
  "Timer_set_timer_repeat L ms = (\<lambda>(t, u).
     do { h \<leftarrow> tm_handle t;
          Some (t\<lparr>tm_repeat := ms\<rparr>, uv_do L (UvTimerSetRepeat h ms) u) })"

definition Timer_on_time_out :: "'k timer \<Rightarrow> 'k list" where
  "Timer_on_time_out t = calls_of (tm_callback t)"

definition Timer_process :: "'k timer \<Rightarrow> 'k list" where
  "Timer_process t = Timer_on_time_out t"

lemmas Timer_defs =
  Timer_new_def Timer_start_def Timer_close_def Timer_closed_def Timer_close_complete_def
  Timer_set_timer_repeat_def Timer_on_time_out_def Timer_process_def

text \<open>A timer whose handle is allocated follows the closing protocol.\<close>

definition timer_ok :: "'u libuv \<times> 'k timer \<times> 'u \<Rightarrow> bool" where
  "timer_ok = (\<lambda>(L, t, u). uv_laws L \<and> tm_handle t \<noteq> None)"

definition timer_closing :: "'u libuv \<times> 'k timer \<times> 'u \<Rightarrow> bool" where
  "timer_closing = (\<lambda>(L, t, u). \<exists>h. tm_handle t = Some h \<and> uv_is_closing L h u)"

definition timer_close_op ::
    "'k option \<Rightarrow> 'u libuv \<times> 'k timer \<times> 'u \<Rightarrow> (('u libuv \<times> 'k timer \<times> 'u) \<times> 'k list) option" where
  "timer_close_op k = (\<lambda>(L, s). do { (s', cs) \<leftarrow> Timer_close L k s; Some ((L, s'), cs) })"

definition timer_fired :: "'u libuv \<times> 'k timer \<times> 'u \<Rightarrow> 'k list" where
  "timer_fired = (\<lambda>(L, t, u). snd (Timer_closed t))"

interpretation tm: closable timer_ok timer_closing timer_close_op timer_fired
  by unfold_locales
     (auto simp: timer_ok_def timer_closing_def timer_close_op_def timer_fired_def Timer_defs uv_simps)

text \<open>Starting a timer twice starts it once: the second call neither calls libuv nor changes the
  timer, and a started timer keeps its timeout and repeat interval.\<close>

theorem timer_start_idempotent:
  assumes "Timer_start L (t, u) = Some (t', u')"
  shows "tm_started t' \<and> Timer_start L (t', u') = Some (t', u') \<and>
    tm_timeout t' = tm_timeout t \<and> tm_repeat t' = tm_repeat t \<and>
    (tm_started t \<longrightarrow> (t', u') = (t, u))"
  using assms by (auto simp: Timer_start_def split: if_splits Option.bind_splits)

theorem timer_start_idempotent_witness:
  "\<exists>t u. Timer_start trace_uv (Timer_new trace_uv 7 1000 1000 (Some ''tick'') []) = Some (t, u) \<and>
     u = [UvTimerStart 7 1000 1000, UvTimerInit 7] \<and> Timer_start trace_uv (t, u) = Some (t, u)"
proof -
  let ?t = "fst (Timer_new trace_uv 7 1000 1000 (Some ''tick'') [])"
  have "Timer_start trace_uv (?t, [UvTimerInit 7]) =
      Some (?t\<lparr>tm_started := True\<rparr>, [UvTimerStart 7 1000 1000, UvTimerInit 7])"
    by (simp add: Timer_defs trace_uv_def uv_do_def)
  with timer_start_idempotent [OF this] show ?thesis
    by (auto simp: Timer_new_def trace_uv_def uv_do_def)
qed

text \<open>Closing an open timer calls the completion callback exactly once, after libuv has closed the
  handle. Closing it a second time before that loses the first callback and calls the second
  one twice; any close after the handle is deleted uses a dangling pointer.\<close>

theorem timer_close_protocol:
  assumes "uv_laws L" and "tm_handle t = Some h" and "\<not> uv_is_closing L h u"
  shows "\<exists>t1 u1 t2 u2. Timer_close L k (t, u) = Some ((t1, u1), []) \<and>
    snd (Timer_closed t1) = calls_of k \<and>
    Timer_close L k' (t1, u1) = Some ((t2, u2), calls_of k') \<and>
    snd (Timer_closed t2) = calls_of k' \<and>
    Timer_close L k (fst (Timer_closed t1), u1) = None"
proof -
  have "timer_ok (L, t, u)" "\<not> timer_closing (L, t, u)"
    using assms by (auto simp: timer_ok_def timer_closing_def)
  from tm.close_once [OF this, of k] tm.close_twice [OF this, of k k'] show ?thesis
    by (auto simp: timer_close_op_def timer_fired_def Timer_closed_def Timer_close_def
        split: Option.bind_splits)
qed

theorem timer_close_protocol_witness:
  "\<exists>t1 u1 t2 u2. Timer_close trace_uv (Some ''a'') (fst (Timer_new trace_uv 7 1 1 None []), []) = Some ((t1, u1), []) \<and>
     snd (Timer_closed t1) = [''a''] \<and>
     Timer_close trace_uv (Some ''b'') (t1, u1) = Some ((t2, u2), [''b'']) \<and>
     snd (Timer_closed t2) = [''b'']"
proof -
  have "tm_handle (fst (Timer_new trace_uv 7 1 1 (None :: string option) [])) = Some 7"
    "\<not> uv_is_closing trace_uv 7 []"
    by (simp_all add: Timer_new_def trace_uv_def)
  from timer_close_protocol [OF trace_uv_laws this, of "Some ''a''" "Some ''b''"] show ?thesis
    by auto
qed

end
