(* ===== verification/Timer_Wheel.thy ===== *)
theory Timer_Wheel
  imports Timer
begin

text \<open>
  The timing wheel that closes idle connections: \<^verbatim>\<open>ae/timer_wheel.h\<close>. A wheel of \<open>T\<close> slots is
  turned once a second; a value is put into the current slot whenever its connection is active,
  and a slot is emptied when the wheel reaches it again. A shared pointer is a value of \<open>'a\<close>,
  a slot (\<^verbatim>\<open>std::set\<close>) a set of them. An index outside \<^verbatim>\<open>wheel_\<close> is \<open>None\<close>. The wheel refines a
  map from values to their idle time.
\<close>

section \<open>State and operations\<close>

record ('a, 'k) timer_wheel =
  tw_index :: u32
  tw_timeoutSec :: u32
  tw_timer :: "'k timer"
  tw_wheel :: "'a set list"

text \<open>The timer fires after 1000 milliseconds and every 1000 from then on; \<open>k\<close> is the bound
  \<^verbatim>\<open>wheel_callback\<close>.\<close>

definition TimerWheel_new ::
    "'u libuv \<Rightarrow> hid \<Rightarrow> 'k \<Rightarrow> u32 \<Rightarrow> 'u \<Rightarrow> ('a, 'k) timer_wheel \<times> 'u" where
  "TimerWheel_new L h k timeout u = (let (t, u) = Timer_new L h 1000 1000 (Some k) u in
     (\<lparr>tw_index = 0, tw_timeoutSec = timeout, tw_timer = t, tw_wheel = []\<rparr>, u))"

definition TimerWheel_set_timeout :: "u32 \<Rightarrow> ('a, 'k) timer_wheel \<Rightarrow> ('a, 'k) timer_wheel" where
  "TimerWheel_set_timeout seconds w = w\<lparr>tw_timeoutSec := seconds\<rparr>"

text \<open>The unsigned field is returned as an \<^verbatim>\<open>int\<close>.\<close>

definition TimerWheel_get_timeout :: "('a, 'k) timer_wheel \<Rightarrow> int" where
  "TimerWheel_get_timeout w = sint (tw_timeoutSec w)"

text \<open>\<^verbatim>\<open>std::vector::resize\<close>.\<close>

definition resize_slots :: "nat \<Rightarrow> 'a set list \<Rightarrow> 'a set list" where
  "resize_slots n ws = take n ws @ replicate (n - length ws) {}"

definition TimerWheel_start ::
    "'u libuv \<Rightarrow> ('a, 'k) timer_wheel \<times> 'u \<Rightarrow> (('a, 'k) timer_wheel \<times> 'u) option" where
  "TimerWheel_start L = (\<lambda>(w, u).
     if tw_timeoutSec w \<noteq> 0
     then do { let w = w\<lparr>tw_wheel := resize_slots (unat (tw_timeoutSec w)) (tw_wheel w)\<rparr>;
               (t, u) \<leftarrow> Timer_start L (tw_timer w, u);
               Some (w\<lparr>tw_timer := t\<rparr>, u) }
     else Some (w, u))"

definition TimerWheel_insert :: "'a option \<Rightarrow> ('a, 'k) timer_wheel \<Rightarrow> ('a, 'k) timer_wheel option" where
  "TimerWheel_insert value w =
     (if tw_timeoutSec w > 0
      then (case value of
              None \<Rightarrow> Some w
            | Some x \<Rightarrow> do { slot \<leftarrow> at (tw_wheel w) (unat (tw_index w));
                Some (w\<lparr>tw_wheel := (tw_wheel w)[unat (tw_index w) := insert x slot]\<rparr>) })
      else Some w)"

definition TimerWheel_wheel_callback :: "('a, 'k) timer_wheel \<Rightarrow> ('a, 'k) timer_wheel option" where
  "TimerWheel_wheel_callback w =
     (if tw_timeoutSec w = 0 then Some w
      else do {
        let i = tw_index w + 1;
        let i = (if i = tw_timeoutSec w then 0 else i);
        _ \<leftarrow> at (tw_wheel w) (unat i);
        Some (w\<lparr>tw_index := i, tw_wheel := (tw_wheel w)[unat i := {}]\<rparr>) })"

lemmas wheel_defs =
  TimerWheel_new_def TimerWheel_set_timeout_def TimerWheel_get_timeout_def resize_slots_def
  TimerWheel_start_def TimerWheel_insert_def TimerWheel_wheel_callback_def

text \<open>The values some slot holds a reference to; a value that leaves this set has lost the last
  reference the wheel had.\<close>

definition members :: "('a, 'k) timer_wheel \<Rightarrow> 'a set" where
  "members w = \<Union> (set (tw_wheel w))"

section \<open>The wheel invariant\<close>

definition wheel_ok :: "('a, 'k) timer_wheel \<Rightarrow> bool" where
  "wheel_ok w \<longleftrightarrow> 0 < tw_timeoutSec w \<and> length (tw_wheel w) = unat (tw_timeoutSec w) \<and>
     tw_index w < tw_timeoutSec w"

abbreviation slots :: "('a, 'k) timer_wheel \<Rightarrow> nat" where
  "slots w \<equiv> unat (tw_timeoutSec w)"

abbreviation pos :: "('a, 'k) timer_wheel \<Rightarrow> nat" where
  "pos w \<equiv> unat (tw_index w)"

lemma wheel_ok_unat: "wheel_ok w \<longleftrightarrow> length (tw_wheel w) = slots w \<and> pos w < slots w"
  by (auto simp: wheel_ok_def word_less_nat_alt)

lemma unat_Suc_less:
  assumes "i < (n :: u32)"
  shows "unat (i + 1) = Suc (unat i)"
proof -
  have "unat n < 2 ^ 32" using unsigned_less [of n] by simp
  with assms have "Suc (unat i) < 2 ^ 32" by (simp add: word_less_nat_alt)
  then show ?thesis by (simp add: unat_word_ariths)
qed

lemma unat_of_mod:
  assumes "0 < (T :: u32)"
  shows "unat (of_nat (n mod unat T) :: u32) = n mod unat T"
proof -
  have "n mod unat T < unat T" using assms by (simp add: word_less_nat_alt)
  also have "\<dots> < 2 ^ 32" using unsigned_less [of T] by simp
  finally show ?thesis by (simp add: unsigned_of_nat take_bit_nat_eq_self)
qed

text \<open>A turn of an intact wheel stays within the slots.\<close>

lemma callback_ok:
  assumes "wheel_ok w"
  shows "TimerWheel_wheel_callback w =
    Some (w\<lparr>tw_index := of_nat (Suc (pos w) mod slots w),
            tw_wheel := (tw_wheel w)[Suc (pos w) mod slots w := {}]\<rparr>)"
proof -
  have lt: "tw_index w < tw_timeoutSec w" and pos: "0 < tw_timeoutSec w" and
    len: "length (tw_wheel w) = slots w"
    using assms by (auto simp: wheel_ok_def)
  have nz: "tw_timeoutSec w \<noteq> 0" using pos by auto
  note Suc = unat_Suc_less [OF lt]
  define i where "i = (if tw_index w + 1 = tw_timeoutSec w then 0 else tw_index w + 1)"
  have i: "unat i = Suc (pos w) mod slots w"
  proof (cases "tw_index w + 1 = tw_timeoutSec w")
    case True
    then show ?thesis using Suc by (simp add: i_def)
  next
    case False
    then have "Suc (pos w) \<noteq> slots w" using Suc by (metis word_unat_eq_iff)
    moreover have "pos w < slots w" using lt by (simp add: word_less_nat_alt)
    ultimately show ?thesis using False Suc by (simp add: i_def)
  qed
  then have "i = of_nat (Suc (pos w) mod slots w)"
    using unat_of_mod [OF pos] by (simp add: word_unat_eq_iff)
  moreover have "unat i < slots w"
    using i pos by (simp add: word_less_nat_alt)
  ultimately show ?thesis
    using nz len i unfolding TimerWheel_wheel_callback_def Let_def i_def [symmetric]
    by simp
qed

lemma callback_keeps_ok:
  assumes "wheel_ok w" "TimerWheel_wheel_callback w = Some w'"
  shows "wheel_ok w' \<and> pos w' = Suc (pos w) mod slots w \<and> slots w' = slots w"
proof -
  have pos: "0 < tw_timeoutSec w" using assms(1) by (simp add: wheel_ok_def)
  then show ?thesis
    using assms by (auto simp: callback_ok wheel_ok_unat unat_of_mod word_less_nat_alt)
qed

lemma insert_ok:
  assumes "wheel_ok w"
  shows "TimerWheel_insert (Some x) w =
    Some (w\<lparr>tw_wheel := (tw_wheel w)[pos w := insert x (tw_wheel w ! pos w)]\<rparr>)"
  using assms by (simp add: TimerWheel_insert_def wheel_ok_def word_less_nat_alt)

lemma insert_keeps_ok:
  assumes "wheel_ok w" "TimerWheel_insert (Some x) w = Some w'"
  shows "wheel_ok w' \<and> pos w' = pos w \<and> slots w' = slots w"
  using assms by (auto simp: insert_ok wheel_ok_unat)

section \<open>Idle times\<close>

text \<open>The contract of the wheel for its clients: every value has an idle time below the limit or
  none; a touch resets it, a tick lets it grow and drops it at the limit.\<close>

locale idle_store =
  fixes ok :: "'w \<Rightarrow> bool"
    and touch :: "'a \<Rightarrow> 'w \<Rightarrow> 'w option"
    and tick :: "'w \<Rightarrow> 'w option"
    and age :: "'w \<Rightarrow> 'a \<Rightarrow> nat option"
    and limit :: "'w \<Rightarrow> nat"
  assumes touch_ok: "ok w \<Longrightarrow> \<exists>w'. touch x w = Some w' \<and> ok w' \<and> limit w' = limit w \<and>
      age w' = (age w)(x \<mapsto> 0)"
    and tick_ok: "ok w \<Longrightarrow> \<exists>w'. tick w = Some w' \<and> ok w' \<and> limit w' = limit w \<and>
      (\<forall>y. age w' y = (case age w y of
         Some d \<Rightarrow> if Suc d < limit w then Some (Suc d) else None | None \<Rightarrow> None))"
    and limit_pos: "ok w \<Longrightarrow> 0 < limit w"

datatype 'a wheel_event = Touch 'a | Tick

fun run_wheel :: "('a \<Rightarrow> 'w \<Rightarrow> 'w option) \<Rightarrow> ('w \<Rightarrow> 'w option) \<Rightarrow> 'a wheel_event list \<Rightarrow> 'w \<Rightarrow> 'w option" where
  "run_wheel touch tick [] w = Some w"
| "run_wheel touch tick (e # es) w = do {
     w \<leftarrow> (case e of Touch x \<Rightarrow> touch x w | Tick \<Rightarrow> tick w);
     run_wheel touch tick es w }"

text \<open>The ticks since the last touch of a value, starting from an idle time \<open>a\<close>.\<close>

fun idle :: "'a \<Rightarrow> nat option \<Rightarrow> 'a wheel_event list \<Rightarrow> nat option" where
  "idle x a [] = a"
| "idle x a (Touch y # es) = idle x (if x = y then Some 0 else a) es"
| "idle x a (Tick # es) = idle x (map_option Suc a) es"

definition below :: "nat \<Rightarrow> nat option \<Rightarrow> nat option" where
  "below T a = (case a of Some n \<Rightarrow> if n < T then Some n else None | None \<Rightarrow> None)"

context idle_store
begin

lemma run_age:
  assumes "ok w" and "\<And>x. age w x = below (limit w) (a x)"
  shows "\<exists>w'. run_wheel touch tick es w = Some w' \<and> ok w' \<and> limit w' = limit w \<and>
    (\<forall>x. age w' x = below (limit w) (idle x (a x) es))"
  using assms
proof (induction es arbitrary: w a)
  case (Cons e es)
  show ?case
  proof (cases e)
    case (Touch y)
    obtain w1 where w1: "touch y w = Some w1" "ok w1" "limit w1 = limit w" "age w1 = (age w)(y \<mapsto> 0)"
      using touch_ok Cons.prems(1) by blast
    have "age w1 x = below (limit w1) (if x = y then Some 0 else a x)" for x
      using w1(3,4) limit_pos [OF Cons.prems(1)] Cons.prems(2) by (simp add: below_def)
    from Cons.IH [of w1 "\<lambda>x. if x = y then Some 0 else a x", OF w1(2) this]
    show ?thesis using Touch w1(1,3) by simp
  next
    case Tick
    obtain w1 where w1: "tick w = Some w1" "ok w1" "limit w1 = limit w" and
      ages: "\<And>y. age w1 y = (case age w y of
         Some d \<Rightarrow> if Suc d < limit w then Some (Suc d) else None | None \<Rightarrow> None)"
      using tick_ok Cons.prems(1) by blast
    have "age w1 x = below (limit w1) (map_option Suc (a x))" for x
      using w1(3) ages [of x] Cons.prems(2) [of x] by (auto simp: below_def split: option.splits)
    from Cons.IH [of w1 "\<lambda>x. map_option Suc (a x)", OF w1(2) this]
    show ?thesis using Tick w1(1,3) by simp
  qed
qed auto

end

text \<open>The idle time the wheel represents: the number of slots behind the current one at which
  the value is first found.\<close>

definition slot_back :: "nat \<Rightarrow> ('a, 'k) timer_wheel \<Rightarrow> 'a set" where
  "slot_back d w = tw_wheel w ! ((pos w + slots w - d) mod slots w)"

definition wheel_age :: "('a, 'k) timer_wheel \<Rightarrow> 'a \<Rightarrow> nat option" where
  "wheel_age w x = find (\<lambda>d. x \<in> slot_back d w) [0..<slots w]"

lemma find_map: "find P (map f xs) = map_option f (find (P \<circ> f) xs)"
  by (induction xs) auto

lemma find_append: "find P (xs @ ys) = (case find P xs of None \<Rightarrow> find P ys | Some x \<Rightarrow> Some x)"
  by (induction xs) auto

lemma find_SomeD: "find P xs = Some x \<Longrightarrow> P x \<and> x \<in> set xs"
  by (induction xs) (auto split: if_splits)

lemma upt_Suc_map: "[0..<Suc n] = 0 # map Suc [0..<n]"
  by (simp add: upt_conv_Cons map_Suc_upt del: upt_Suc)

lemma slot_back_insert:
  assumes "wheel_ok w" "TimerWheel_insert (Some x) w = Some w'" "d < slots w"
  shows "slot_back d w' = (if d = 0 then insert x (slot_back d w) else slot_back d w)"
proof -
  have "pos w < slots w" using assms(1) by (simp add: wheel_ok_unat)
  moreover from this have "(pos w + slots w - d) mod slots w = pos w \<longleftrightarrow> d = 0"
    using assms(3) by (auto simp: mod_if [of "pos w + slots w - d"])
  ultimately show ?thesis
    using assms by (auto simp: slot_back_def insert_ok wheel_ok_unat)
qed

lemma slot_back_tick:
  assumes "wheel_ok w" "TimerWheel_wheel_callback w = Some w'"
  shows "slot_back 0 w' = {}" and "Suc d < slots w \<Longrightarrow> slot_back (Suc d) w' = slot_back d w"
proof -
  let ?T = "slots w" and ?i = "Suc (pos w) mod slots w"
  have lt: "pos w < ?T" and len: "length (tw_wheel w) = ?T"
    using assms(1) by (auto simp: wheel_ok_unat)
  have w': "pos w' = ?i" "slots w' = ?T" using callback_keeps_ok [OF assms] by auto
  have wh: "tw_wheel w' = (tw_wheel w)[?i := {}]"
    using assms by (auto simp: callback_ok)
  have "?i < ?T" using lt by simp
  then show "slot_back 0 w' = {}"
    using len by (simp add: slot_back_def w' wh)
  assume d: "Suc d < ?T"
  have "(?i + ?T - Suc d) mod ?T = (pos w + ?T - d) mod ?T"
  proof (cases "Suc (pos w) = ?T")
    case True
    then have "pos w + ?T - d = (?T - Suc d) + ?T" using d by simp
    then show ?thesis using True by (simp del: add_diff_assoc2)
  next
    case False
    then have "?i = Suc (pos w)" using lt by simp
    then show ?thesis by simp
  qed
  moreover have "(pos w + ?T - d) mod ?T \<noteq> ?i"
    using lt d by (auto simp: mod_if [of "pos w + ?T - d"] mod_if [of "Suc (pos w)"])
  ultimately show "slot_back (Suc d) w' = slot_back d w"
    by (simp add: slot_back_def w' wh)
qed

lemma wheel_age_unfold:
  assumes "wheel_ok w"
  shows "wheel_age w x = (if x \<in> slot_back 0 w then Some 0
    else map_option Suc (find (\<lambda>d. x \<in> slot_back (Suc d) w) [0..<slots w - 1]))"
proof -
  obtain n where n: "slots w = Suc n"
    using assms by (cases "slots w") (auto simp: wheel_ok_unat)
  show ?thesis
    unfolding wheel_age_def n upt_Suc_map by (simp add: find_map comp_def)
qed

lemma wheel_age_insert:
  assumes "wheel_ok w" "TimerWheel_insert (Some x) w = Some w'"
  shows "wheel_age w' = (wheel_age w)(x \<mapsto> 0)"
proof
  fix y
  have ok': "wheel_ok w'" "slots w' = slots w" and pos: "0 < slots w"
    using insert_keeps_ok [OF assms] assms(1) by (auto simp: wheel_ok_unat)
  show "wheel_age w' y = ((wheel_age w)(x \<mapsto> 0)) y"
  proof (cases "y = x")
    case True
    then show ?thesis using pos by (simp add: wheel_age_unfold ok' slot_back_insert [OF assms])
  next
    case False
    then show ?thesis
      unfolding wheel_age_def ok'
      by (auto intro!: find_cong simp: slot_back_insert [OF assms] split: if_splits)
  qed
qed

lemma wheel_age_tick:
  assumes "wheel_ok w" "TimerWheel_wheel_callback w = Some w'"
  shows "wheel_age w' y = (case wheel_age w y of
    Some d \<Rightarrow> if Suc d < slots w then Some (Suc d) else None | None \<Rightarrow> None)"
proof -
  have ok': "wheel_ok w'" "slots w' = slots w"
    using callback_keeps_ok [OF assms] by auto
  obtain n where n: "slots w = Suc n"
    using assms(1) by (cases "slots w") (auto simp: wheel_ok_unat)
  have "wheel_age w' y = map_option Suc (find (\<lambda>d. y \<in> slot_back d w) [0..<n])"
    using n ok' by (auto simp: wheel_age_unfold slot_back_tick [OF assms] intro!: find_cong
        arg_cong [where f = "map_option Suc"])
  moreover have "wheel_age w y = (case find (\<lambda>d. y \<in> slot_back d w) [0..<n] of
      Some d \<Rightarrow> Some d | None \<Rightarrow> if y \<in> slot_back n w then Some n else None)"
    unfolding wheel_age_def n by (simp add: find_append split: option.splits)
  ultimately show ?thesis
    using n by (auto dest!: find_SomeD split: option.splits)
qed

interpretation tw: idle_store wheel_ok "\<lambda>x. TimerWheel_insert (Some x)" TimerWheel_wheel_callback
  wheel_age slots
proof unfold_locales
  show "\<exists>w'. TimerWheel_insert (Some x) w = Some w' \<and> wheel_ok w' \<and> slots w' = slots w \<and>
      wheel_age w' = (wheel_age w)(x \<mapsto> 0)" if ok: "wheel_ok w" for w :: "('a, 'k) timer_wheel" and x
  proof -
    obtain w' where "TimerWheel_insert (Some x) w = Some w'" using insert_ok [OF ok, of x] by blast
    then show ?thesis using insert_keeps_ok [OF ok] wheel_age_insert [OF ok] by blast
  qed
  show "\<exists>w'. TimerWheel_wheel_callback w = Some w' \<and> wheel_ok w' \<and> slots w' = slots w \<and>
      (\<forall>y. wheel_age w' y = (case wheel_age w y of
         Some d \<Rightarrow> if Suc d < slots w then Some (Suc d) else None | None \<Rightarrow> None))"
    if ok: "wheel_ok w" for w :: "('a, 'k) timer_wheel"
  proof -
    obtain w' where "TimerWheel_wheel_callback w = Some w'" using callback_ok [OF ok] by blast
    then show ?thesis using callback_keeps_ok [OF ok] wheel_age_tick [OF ok] by blast
  qed
qed (auto simp: wheel_ok_unat)

lemma slot_back_surj:
  assumes "i < n" "p < n"
  shows "\<exists>d < n. (p + n - d) mod n = (i :: nat)"
proof (cases "i \<le> p")
  case True
  then have "(p + n - (p - i)) mod n = i" using assms by simp
  then show ?thesis using assms by (intro exI [of _ "p - i"]) auto
next
  case False
  then have "(p + n - (p + n - i)) mod n = i" using assms by simp
  then show ?thesis using assms False by (intro exI [of _ "p + n - i"]) auto
qed

lemma members_age:
  assumes "wheel_ok w"
  shows "x \<in> members w \<longleftrightarrow> wheel_age w x \<noteq> None"
proof -
  have lt: "pos w < slots w" and len: "length (tw_wheel w) = slots w"
    using assms by (auto simp: wheel_ok_unat)
  have "x \<in> members w \<longleftrightarrow> (\<exists>i < slots w. x \<in> tw_wheel w ! i)"
    by (simp only: members_def Union_iff bex_simps in_set_conv_nth Bex_def len [symmetric]) blast
  also have "\<dots> \<longleftrightarrow> (\<exists>d < slots w. x \<in> slot_back d w)"
    unfolding slot_back_def using slot_back_surj [OF _ lt] lt by (metis mod_less_divisor not_less0 gr0I)
  also have "\<dots> \<longleftrightarrow> wheel_age w x \<noteq> None"
    by (auto simp: wheel_age_def find_None_iff)
  finally show ?thesis .
qed

lemma wheel_started:
  assumes "tw_timeoutSec w \<noteq> 0" "tw_index w = 0" "tw_wheel w = []" "TimerWheel_start L (w, u) = Some (w', u')"
  shows "wheel_ok w' \<and> tw_timeoutSec w' = tw_timeoutSec w \<and> wheel_age w' x = None"
proof -
  have "tw_wheel w' = replicate (slots w) {}" "tw_timeoutSec w' = tw_timeoutSec w" "tw_index w' = 0"
    using assms by (auto simp: TimerWheel_start_def resize_slots_def Let_def split: Option.bind_splits)
  then have w': "wheel_ok w'" "tw_wheel w' = replicate (slots w) {}"
    "tw_timeoutSec w' = tw_timeoutSec w"
    using assms(1) by (simp_all add: wheel_ok_def word_gt_0)
  then have "x \<notin> members w'" by (simp add: members_def)
  with w' show ?thesis using members_age [OF w'(1), of x] by simp
qed

section \<open>Properties\<close>

text \<open>C25: A wheel that is started with a timeout of \<open>T\<close> seconds never indexes outside its slots,
  whatever values are inserted and however often it turns, and it holds a value exactly when
  fewer than \<open>T\<close> turns have passed since the value was last inserted. So a connection is let go
  at the turn that completes \<open>T\<close> turns of silence, and not before.\<close>

theorem wheel_idle_expiry:
  assumes "tw_timeoutSec w \<noteq> 0" "tw_index w = 0" "tw_wheel w = []"
    and "TimerWheel_start L (w, u) = Some (w0, u0)"
  shows "\<exists>w'. run_wheel (\<lambda>x. TimerWheel_insert (Some x)) TimerWheel_wheel_callback es w0 = Some w' \<and>
    (\<forall>x. x \<in> members w' \<longleftrightarrow> (\<exists>n < unat (tw_timeoutSec w). idle x None es = Some n))"
proof -
  have ok: "wheel_ok w0" and T: "tw_timeoutSec w0 = tw_timeoutSec w"
    and none: "wheel_age w0 x = None" for x
    using wheel_started [OF assms] by auto
  have "wheel_age w0 x = below (slots w0) None" for x by (simp add: none below_def)
  from tw.run_age [OF ok this, of es] obtain w' where
    w': "run_wheel (\<lambda>x. TimerWheel_insert (Some x)) TimerWheel_wheel_callback es w0 = Some w'"
    "wheel_ok w'" "\<forall>x. wheel_age w' x = below (slots w0) (idle x None es)"
    by blast
  then have "x \<in> members w' \<longleftrightarrow> (\<exists>n < slots w. idle x None es = Some n)" for x
    using members_age [OF w'(2), of x] T by (auto simp: below_def split: option.splits if_splits)
  with w'(1) show ?thesis by blast
qed

theorem wheel_idle_expiry_witness:
  "\<exists>w0 u0 w'. TimerWheel_start trace_uv (TimerWheel_new trace_uv 9 ''turn'' 2 []) = Some (w0, u0) \<and>
     run_wheel (\<lambda>x. TimerWheel_insert (Some x)) TimerWheel_wheel_callback
       [Touch (1 :: nat), Touch 2, Tick, Touch 2, Tick] w0 = Some w' \<and>
     1 \<notin> members w' \<and> 2 \<in> members w'"
proof -
  let ?w = "fst (TimerWheel_new trace_uv 9 ''turn'' 2 []) :: (nat, string) timer_wheel"
  let ?u = "snd (TimerWheel_new trace_uv 9 ''turn'' 2 [] :: (nat, string) timer_wheel \<times> _)"
  obtain w0 u0 where start: "TimerWheel_start trace_uv (?w, ?u) = Some (w0, u0)"
    by (auto simp: wheel_defs Timer_defs)
  have w: "tw_timeoutSec ?w = 2" "tw_index ?w = 0" "tw_wheel ?w = []"
    by (simp_all add: wheel_defs Timer_defs)
  from wheel_idle_expiry [OF _ w(2,3) start, of "[Touch 1, Touch 2, Tick, Touch 2, Tick]"] w(1) obtain w' where
    "run_wheel (\<lambda>x. TimerWheel_insert (Some x)) TimerWheel_wheel_callback
       [Touch 1, Touch 2, Tick, Touch 2, Tick] w0 = Some w'" "1 \<notin> members w'" "2 \<in> members w'"
    by auto
  with start show ?thesis by (metis prod.collapse)
qed

text \<open>A wheel whose timeout is changed after the start keeps its number of slots.\<close>

fun turns :: "nat \<Rightarrow> ('a, 'k) timer_wheel \<Rightarrow> ('a, 'k) timer_wheel option" where
  "turns 0 w = Some w"
| "turns (Suc n) w = do { w \<leftarrow> TimerWheel_wheel_callback w; turns n w }"

lemma turn_off_limit:
  assumes "tw_timeoutSec w \<noteq> 0" "tw_index w + 1 \<noteq> tw_timeoutSec w"
  shows "TimerWheel_wheel_callback w = (if unat (tw_index w + 1) < length (tw_wheel w)
    then Some (w\<lparr>tw_index := tw_index w + 1, tw_wheel := (tw_wheel w)[unat (tw_index w + 1) := {}]\<rparr>)
    else None)"
  using assms by (simp add: TimerWheel_wheel_callback_def Let_def at_def)

lemma turns_overrun:
  assumes "tw_timeoutSec w \<noteq> 0" "length (tw_wheel w) = pos w + Suc n" "pos w + Suc n < 2 ^ 32"
    and "\<not> (pos w < slots w \<and> slots w \<le> pos w + Suc n)"
  shows "turns (Suc n) w = None"
  using assms
proof (induction n arbitrary: w)
  case (Suc n)
  have S: "unat (tw_index w + 1) = Suc (pos w)"
    using Suc.prems by (simp add: unat_word_ariths)
  then have ne: "tw_index w + 1 \<noteq> tw_timeoutSec w" using Suc.prems(4) by auto
  let ?w = "w\<lparr>tw_index := tw_index w + 1, tw_wheel := (tw_wheel w)[Suc (pos w) := {}]\<rparr>"
  have "turns (Suc n) ?w = None"
    using Suc.prems S by (intro Suc.IH) auto
  then show ?case
    using turn_off_limit [OF Suc.prems(1) ne] S Suc.prems(2) by simp
next
  case 0
  have S: "unat (tw_index w + 1) = Suc (pos w)"
    using 0 by (simp add: unat_word_ariths)
  then have "tw_index w + 1 \<noteq> tw_timeoutSec w" using 0 by auto
  then show ?case
    using turn_off_limit [OF 0(1)] S 0(2) by simp
qed

text \<open>Changing the timeout of a started wheel to a larger value, or to one that the current index
  has reached already, makes the wheel run past the end of its slots: the turn that should have
  wrapped to slot 0 indexes outside the vector. Inserting into a wheel with a timeout before it
  is started does so at once.\<close>

theorem set_timeout_overruns:
  assumes "wheel_ok w" and "0 < T" and "tw_timeoutSec w < T \<or> T \<le> tw_index w"
  shows "turns (unat (tw_timeoutSec w) - unat (tw_index w)) (TimerWheel_set_timeout T w) = None \<and>
    TimerWheel_insert (Some x) (TimerWheel_set_timeout T (w\<lparr>tw_wheel := []\<rparr>)) = None"
proof -
  obtain n where n: "slots w - pos w = Suc n" "slots w = pos w + Suc n"
    using assms(1) by (auto simp: wheel_ok_unat dest: less_imp_Suc_add)
  have "slots w < 2 ^ 32" using unsigned_less [of "tw_timeoutSec w"] by simp
  then have "turns (Suc n) (TimerWheel_set_timeout T w) = None"
    using assms n by (intro turns_overrun)
      (auto simp: TimerWheel_set_timeout_def wheel_ok_unat word_less_nat_alt word_le_nat_alt)
  then show ?thesis
    using n assms(2) by (auto simp: TimerWheel_set_timeout_def TimerWheel_insert_def at_def)
qed

theorem set_timeout_overruns_witness:
  "\<exists>w. wheel_ok (w :: (nat, unit) timer_wheel) \<and> length (tw_wheel w) = 2 \<and>
     turns 2 (TimerWheel_set_timeout 3 w) = None"
proof -
  define w :: "(nat, unit) timer_wheel" where
    "w = \<lparr>tw_index = 0, tw_timeoutSec = 2, tw_timer = undefined, tw_wheel = [{}, {}]\<rparr>"
  have "wheel_ok w" "tw_timeoutSec w < 3 \<or> 3 \<le> tw_index w" by (simp_all add: w_def wheel_ok_def)
  with set_timeout_overruns [of w 3] show ?thesis
    by (intro exI [of _ w]) (simp_all add: w_def)
qed

end
