(* ===== verification/Async_Task.thy ===== *)
theory Async_Task
  imports Libuv
begin

text \<open>
  Posting functions to the loop thread: \<^verbatim>\<open>ae/async_task.h\<close>, \<^verbatim>\<open>ae/async_task.cpp\<close>. First the
  operations of \<^verbatim>\<open>Async\<close> on the object and on libuv's state, then the interleaving of the
  posting threads with the loop thread: a step relation whose steps are the atomic sections of
  the code (the two locked sections, the test of \<^verbatim>\<open>handle_\<close>, the calls of libuv). A posted
  function is a value of \<open>'k\<close>.
\<close>

section \<open>State and operations\<close>

text \<open>The pointer \<^verbatim>\<open>handle_\<close>: null, the address of a live handle, or the address of a handle the
  close callback has deleted.\<close>

datatype hptr = Null | Ptr hid | Dangling

record ('k, 'c) async =
  as_handle :: hptr
  as_callbacks :: "'k list"
  as_onCloseComplet :: "'c option"

definition Async_new :: "('k, 'c) async" where
  "Async_new = \<lparr>as_handle = Null, as_callbacks = [], as_onCloseComplet = None\<rparr>"

definition Async_init :: "'u libuv \<Rightarrow> hid \<Rightarrow> ('k, 'c) async \<times> 'u \<Rightarrow> ('k, 'c) async \<times> 'u" where
  "Async_init L h = (\<lambda>(a, u).
     if as_handle a = Null
     then (a\<lparr>as_handle := Ptr h\<rparr>, uv_do L (UvAsyncSend h) (uv_do L (UvAsyncInit h) u))
     else (a, u))"

text \<open>The locked section of \<^verbatim>\<open>runInThisLoop\<close>, and what follows it.\<close>

definition Async_push :: "'k \<Rightarrow> ('k, 'c) async \<Rightarrow> ('k, 'c) async" where
  "Async_push callback a = a\<lparr>as_callbacks := as_callbacks a @ [callback]\<rparr>"

definition Async_notify :: "'u libuv \<Rightarrow> ('k, 'c) async \<Rightarrow> 'u \<Rightarrow> 'u option" where
  "Async_notify L a u = (case as_handle a of
     Null \<Rightarrow> Some u | Ptr h \<Rightarrow> Some (uv_do L (UvAsyncSend h) u) | Dangling \<Rightarrow> None)"

definition Async_runInThisLoop ::
    "'u libuv \<Rightarrow> 'k \<Rightarrow> ('k, 'c) async \<times> 'u \<Rightarrow> (('k, 'c) async \<times> 'u) option" where
  "Async_runInThisLoop L callback = (\<lambda>(a, u).
     do { let a = Async_push callback a; u \<leftarrow> Async_notify L a u; Some (a, u) })"

text \<open>The locked section of \<^verbatim>\<open>process\<close> swaps the queue with an empty one; then the functions run in
  the loop thread. A function acts on the object too (it may post again): \<open>exec\<close>.\<close>

definition Async_swap :: "('k, 'c) async \<Rightarrow> 'k list \<times> ('k, 'c) async" where
  "Async_swap a = (as_callbacks a, a\<lparr>as_callbacks := []\<rparr>)"

fun process_loop :: "('k \<Rightarrow> 's \<Rightarrow> 's) \<Rightarrow> 'k list \<Rightarrow> 's \<Rightarrow> 's" where
  "process_loop exec [] s = s"
| "process_loop exec (func # callbacks) s = process_loop exec callbacks (exec func s)"

definition Async_process ::
    "('k \<Rightarrow> ('k, 'c) async \<times> 'w \<Rightarrow> ('k, 'c) async \<times> 'w) \<Rightarrow> ('k, 'c) async \<times> 'w \<Rightarrow> ('k, 'c) async \<times> 'w" where
  "Async_process exec = (\<lambda>(a, w). let (callbacks, a) = Async_swap a in process_loop exec callbacks (a, w))"

definition Async_close ::
    "'u libuv \<Rightarrow> 'c option \<Rightarrow> ('k, 'c) async \<times> 'u \<Rightarrow> (('k, 'c) async \<times> 'u) option" where
  "Async_close L callback = (\<lambda>(a, u).
     (case as_handle a of
        Ptr h \<Rightarrow> Some (a\<lparr>as_onCloseComplet := callback\<rparr>,
                    if \<not> uv_is_closing L h u then uv_do L (UvClose h) u else u)
      | _ \<Rightarrow> None))"

definition Async_onCloseCompleted :: "('k, 'c) async \<Rightarrow> 'c list" where
  "Async_onCloseCompleted a = calls_of (as_onCloseComplet a)"

text \<open>The callback handed to \<^verbatim>\<open>uv_close\<close>.\<close>

definition Async_closed :: "('k, 'c) async \<Rightarrow> ('k, 'c) async \<times> 'c list" where
  "Async_closed a = (a\<lparr>as_handle := Dangling\<rparr>, Async_onCloseCompleted a)"

lemmas Async_defs =
  Async_new_def Async_init_def Async_push_def Async_notify_def Async_runInThisLoop_def
  Async_swap_def Async_process_def Async_close_def Async_onCloseCompleted_def Async_closed_def

section \<open>One wake-up\<close>

text \<open>Functions that log themselves and post others.\<close>

definition logging :: "('k \<Rightarrow> 'k list) \<Rightarrow> 'k \<Rightarrow> ('k, 'c) async \<times> 'k list \<Rightarrow> ('k, 'c) async \<times> 'k list" where
  "logging posts f = (\<lambda>(a, log). (foldl (\<lambda>a k. Async_push k a) a (posts f), log @ [f]))"

lemma foldl_push: "foldl (\<lambda>a k. Async_push k a) a ks = a\<lparr>as_callbacks := as_callbacks a @ ks\<rparr>"
  by (induction ks arbitrary: a) (simp_all add: Async_push_def)

lemma process_loop_logging:
  "process_loop (logging posts) fs (a, log) =
     (a\<lparr>as_callbacks := as_callbacks a @ concat (map posts fs)\<rparr>, log @ fs)"
  by (induction fs arbitrary: a log) (simp_all add: logging_def foldl_push)

text \<open>One wake-up of the loop thread runs the functions that were queued before it, each once and
  in the order they were posted; what they post while they run is kept in order for the next
  wake-up and is not run by this one.\<close>

theorem process_runs_queue:
  "Async_process (logging posts) (a, log) =
     (a\<lparr>as_callbacks := concat (map posts (as_callbacks a))\<rparr>, log @ as_callbacks a)"
  by (simp add: Async_process_def Async_swap_def process_loop_logging)

section \<open>Interleaving\<close>

text \<open>The loop thread: it has not called \<^verbatim>\<open>init\<close>, is inside it (the handle allocated; initialised),
  waits in libuv, is about to swap the queue, or runs functions.\<close>

datatype phase = NotInit | Allocated | Initialised | Waiting | Swapping | Running

text \<open>The system: the object, the loop thread with its local queue, libuv's pending flag, the
  numbers of posting threads that are about to test \<^verbatim>\<open>handle_\<close> and about to send, whether a
  send met a handle that is not initialised, and the posted and executed functions so far.\<close>

record ('k, 'c) system =
  sy_async :: "('k, 'c) async"
  sy_phase :: phase
  sy_local :: "'k list"
  sy_pending :: bool
  sy_testing :: nat
  sy_sending :: nat
  sy_bad :: bool
  sy_posted :: "'k list"
  sy_executed :: "'k list"

definition system_init :: "('k, 'c) system" where
  "system_init = \<lparr>sy_async = Async_new, sy_phase = NotInit, sy_local = [], sy_pending = False,
     sy_testing = 0, sy_sending = 0, sy_bad = False, sy_posted = [], sy_executed = []\<rparr>"

text \<open>Posting: the locked push, by any thread.\<close>

inductive post_step :: "('k, 'c) system \<Rightarrow> ('k, 'c) system \<Rightarrow> bool" where
  push: "post_step s (s\<lparr>sy_async := Async_push k (sy_async s), sy_posted := sy_posted s @ [k],
      sy_testing := Suc (sy_testing s)\<rparr>)"

text \<open>Everything else goes on by itself: the rest of a post, \<^verbatim>\<open>init\<close>, and the loop thread. The
  documentation of \<^verbatim>\<open>uv_async_send\<close> is the pending flag: sends are merged until the loop thread
  takes the flag and calls \<^verbatim>\<open>Async::Callback\<close>.\<close>

inductive own_step :: "('k, 'c) system \<Rightarrow> ('k, 'c) system \<Rightarrow> bool" where
  test_null: "sy_testing s = Suc n \<Longrightarrow> as_handle (sy_async s) = Null \<Longrightarrow>
    own_step s (s\<lparr>sy_testing := n\<rparr>)"
| test_set: "sy_testing s = Suc n \<Longrightarrow> as_handle (sy_async s) \<noteq> Null \<Longrightarrow>
    own_step s (s\<lparr>sy_testing := n, sy_sending := Suc (sy_sending s)\<rparr>)"
| send: "sy_sending s = Suc n \<Longrightarrow> sy_phase s \<noteq> Allocated \<Longrightarrow>
    own_step s (s\<lparr>sy_sending := n, sy_pending := True\<rparr>)"
| send_bad: "sy_sending s = Suc n \<Longrightarrow> sy_phase s = Allocated \<Longrightarrow>
    own_step s (s\<lparr>sy_sending := n, sy_bad := True\<rparr>)"
| alloc: "sy_phase s = NotInit \<Longrightarrow> as_handle (sy_async s) = Null \<Longrightarrow>
    own_step s (s\<lparr>sy_phase := Allocated, sy_async := (sy_async s)\<lparr>as_handle := Ptr h\<rparr>\<rparr>)"
| uv_init: "sy_phase s = Allocated \<Longrightarrow> own_step s (s\<lparr>sy_phase := Initialised\<rparr>)"
| init_send: "sy_phase s = Initialised \<Longrightarrow> own_step s (s\<lparr>sy_phase := Waiting, sy_pending := True\<rparr>)"
| wake: "sy_phase s = Waiting \<Longrightarrow> sy_pending s \<Longrightarrow>
    own_step s (s\<lparr>sy_phase := Swapping, sy_pending := False\<rparr>)"
| swap: "sy_phase s = Swapping \<Longrightarrow> Async_swap (sy_async s) = (q, a) \<Longrightarrow>
    own_step s (s\<lparr>sy_phase := Running, sy_async := a, sy_local := q\<rparr>)"
| run: "sy_phase s = Running \<Longrightarrow> sy_local s = func # q \<Longrightarrow>
    own_step s (s\<lparr>sy_local := q, sy_executed := sy_executed s @ [func]\<rparr>)"
| run_end: "sy_phase s = Running \<Longrightarrow> sy_local s = [] \<Longrightarrow> own_step s (s\<lparr>sy_phase := Waiting\<rparr>)"

inductive reach :: "('k, 'c) system \<Rightarrow> bool" where
  init: "reach system_init"
| post: "reach s \<Longrightarrow> post_step s s' \<Longrightarrow> reach s'"
| own: "reach s \<Longrightarrow> own_step s s' \<Longrightarrow> reach s'"

inductive_cases post_stepE: "post_step s s'"
inductive_cases own_stepE: "own_step s s'"

section \<open>Invariants\<close>

definition queue_inv :: "('k, 'c) system \<Rightarrow> bool" where
  "queue_inv s \<longleftrightarrow> sy_posted s = sy_executed s @ sy_local s @ as_callbacks (sy_async s) \<and>
     (sy_local s \<noteq> [] \<longrightarrow> sy_phase s = Running)"

definition handle_inv :: "('k, 'c) system \<Rightarrow> bool" where
  "handle_inv s \<longleftrightarrow> (sy_phase s = NotInit \<longleftrightarrow> as_handle (sy_async s) = Null) \<and>
     (sy_phase s = NotInit \<longrightarrow> sy_sending s = 0)"

text \<open>No wake-up is lost: while functions are queued, a wake-up is pending or still to come.\<close>

definition wake_inv :: "('k, 'c) system \<Rightarrow> bool" where
  "wake_inv s \<longleftrightarrow> (as_callbacks (sy_async s) \<noteq> [] \<longrightarrow> sy_bad s \<or> sy_pending s \<or> 0 < sy_testing s \<or>
     0 < sy_sending s \<or> sy_phase s \<in> {NotInit, Allocated, Initialised, Swapping})"

definition async_inv :: "('k, 'c) system \<Rightarrow> bool" where
  "async_inv s \<longleftrightarrow> queue_inv s \<and> handle_inv s \<and> wake_inv s"

lemmas inv_defs = async_inv_def queue_inv_def handle_inv_def wake_inv_def

lemma post_step_inv: "post_step s s' \<Longrightarrow> async_inv s \<Longrightarrow> async_inv s'"
  by (erule post_stepE) (simp add: inv_defs Async_push_def)

lemma own_step_inv: "own_step s s' \<Longrightarrow> async_inv s \<Longrightarrow> async_inv s'"
  by (erule own_stepE) (auto simp: inv_defs Async_swap_def)

lemma init_inv: "async_inv system_init"
  by (simp add: inv_defs system_init_def Async_new_def)

lemma reach_inv: "reach s \<Longrightarrow> async_inv s"
  by (induction rule: reach.induct) (auto intro: init_inv post_step_inv own_step_inv)

text \<open>The steps that go on by themselves come to an end.\<close>

fun phase_weight :: "phase \<Rightarrow> nat" where
  "phase_weight NotInit = 6"
| "phase_weight Allocated = 5"
| "phase_weight Initialised = 4"
| "phase_weight Waiting = 0"
| "phase_weight Swapping = 2"
| "phase_weight Running = 1"

definition weight :: "('k, 'c) system \<Rightarrow> nat" where
  "weight s = 5 * sy_testing s + 4 * sy_sending s + (if sy_pending s then 3 else 0) +
     phase_weight (sy_phase s) + length (sy_local s) + length (as_callbacks (sy_async s))"

lemma own_step_weight: "own_step s s' \<Longrightarrow> async_inv s \<Longrightarrow> weight s' < weight s"
  by (erule own_stepE) (auto simp: weight_def inv_defs Async_swap_def)

lemma stuck_done:
  assumes "async_inv s" and stuck: "\<And>s'. \<not> own_step s s'" and "\<not> sy_bad s"
  shows "sy_executed s = sy_posted s"
proof -
  have ph: "sy_phase s \<noteq> NotInit" "sy_phase s \<noteq> Allocated" "sy_phase s \<noteq> Initialised"
    "sy_phase s \<noteq> Swapping"
    using stuck own_step.alloc own_step.uv_init own_step.init_send own_step.swap assms(1)
    by (metis handle_inv_def async_inv_def, metis, metis, metis prod.exhaust)
  have "sy_testing s = 0"
    using stuck own_step.test_null own_step.test_set by (metis not0_implies_Suc)
  moreover have "sy_sending s = 0"
    using stuck own_step.send ph by (metis not0_implies_Suc)
  moreover have "sy_phase s \<noteq> Running"
    using stuck own_step.run own_step.run_end by (metis list.exhaust)
  moreover have "\<not> sy_pending s"
    using stuck own_step.wake ph calculation(3) by (metis phase.exhaust)
  ultimately show ?thesis
    using assms(1,3) ph by (auto simp: inv_defs)
qed

lemma own_steps_inv: "own_step\<^sup>*\<^sup>* s t \<Longrightarrow> async_inv s \<Longrightarrow> async_inv t"
  by (induction rule: rtranclp_induct) (auto intro: own_step_inv)

lemma own_step_posted: "own_step s s' \<Longrightarrow> sy_posted s' = sy_posted s"
  by (erule own_stepE) auto

text \<open>What a step runs.\<close>

lemma own_step_executes:
  "own_step s s' \<Longrightarrow> sy_executed s' = sy_executed s \<or>
   (\<exists>k q. sy_phase s = Running \<and> sy_local s = k # q \<and> sy_executed s' = sy_executed s @ [k])"
  by (erule own_stepE) auto

lemma own_steps_posted: "own_step\<^sup>*\<^sup>* s t \<Longrightarrow> sy_posted t = sy_posted s"
  by (induction rule: rtranclp_induct) (auto dest: own_step_posted)

lemma no_endless_run:
  assumes "async_inv s" shows "\<not> (\<exists>f. f 0 = s \<and> (\<forall>i. own_step (f i) (f (Suc i))))"
proof
  assume "\<exists>f. f 0 = s \<and> (\<forall>i. own_step (f i) (f (Suc i)))"
  then obtain f where f: "f 0 = s" "\<And>i. own_step (f i) (f (Suc i))" by blast
  have inv: "async_inv (f i)" for i
    by (induction i) (use assms f own_step_inv in auto)
  have "weight (f i) + i \<le> weight s" for i
  proof (induction i)
    case (Suc i)
    then show ?case using own_step_weight [OF f(2) inv, of i] by linarith
  qed (simp add: f)
  from this [of "Suc (weight s)"] show False by simp
qed

text \<open>Whatever the interleaving of the posting threads, \<^verbatim>\<open>init\<close> and the loop thread, the functions
  run in the order in which they were posted, each at most once: the functions run so far, then
  those the loop thread has taken, then those in the queue, are the functions posted.\<close>

theorem posted_in_order:
  assumes "reach s"
  shows "sy_posted s = sy_executed s @ sy_local s @ as_callbacks (sy_async s)"
  using reach_inv [OF assms] by (simp add: inv_defs)

text \<open>C22: No wake-up is lost. From every reachable state the steps that need no further post come to
  an end, and when none is left every posted function has been run, unless a send met a handle
  that was allocated but not initialised.\<close>

theorem posted_are_run:
  assumes "reach s"
  shows "\<not> (\<exists>f. f 0 = s \<and> (\<forall>i. own_step (f i) (f (Suc i)))) \<and>
    (\<forall>t. own_step\<^sup>*\<^sup>* s t \<and> (\<forall>t'. \<not> own_step t t') \<and> \<not> sy_bad t \<longrightarrow> sy_executed t = sy_posted s)"
proof -
  note inv = reach_inv [OF assms]
  have "sy_executed t = sy_posted s"
    if "own_step\<^sup>*\<^sup>* s t" "\<forall>t'. \<not> own_step t t'" "\<not> sy_bad t" for t
    using stuck_done [of t] own_steps_inv [OF that(1) inv] own_steps_posted [OF that(1)] that by simp
  then show ?thesis using no_endless_run [OF inv] by blast
qed

section \<open>Concrete runs\<close>

text \<open>A thread posts before \<^verbatim>\<open>init\<close>, another while the loop runs; and a thread that tests the handle
  between its allocation and its initialisation.\<close>

definition early_post :: "('k, 'c) system \<Rightarrow> 'k \<Rightarrow> ('k, 'c) system" where
  "early_post s k = s\<lparr>sy_async := Async_push k (sy_async s), sy_posted := sy_posted s @ [k],
     sy_testing := Suc (sy_testing s)\<rparr>"

lemma reach_post: "reach s \<Longrightarrow> reach (early_post s k)"
  unfolding early_post_def by (rule reach.post [OF _ post_step.push])

lemma reach_alloc:
  "reach s \<Longrightarrow> sy_phase s = NotInit \<Longrightarrow>
   reach (s\<lparr>sy_phase := Allocated, sy_async := (sy_async s)\<lparr>as_handle := Ptr 1\<rparr>\<rparr>)"
  by (rule reach.own [OF _ own_step.alloc]) (use reach_inv [of s] in \<open>auto simp: async_inv_def handle_inv_def\<close>)

lemma posted_state:
  "reach (early_post system_init k)" "sy_posted (early_post system_init k) = [k]"
  "as_callbacks (sy_async (early_post system_init k)) = [k]"
  by (simp_all add: reach_post reach.init) (simp_all add: early_post_def system_init_def Async_defs)

theorem posted_in_order_witness:
  "\<exists>s. reach (s :: (nat, unit) system) \<and> sy_posted s = [1, 2] \<and>
     sy_posted s = sy_executed s @ sy_local s @ as_callbacks (sy_async s)"
proof -
  let ?s = "early_post (early_post system_init 1) 2 :: (nat, unit) system"
  have "reach ?s" by (intro reach_post reach.init)
  from posted_in_order [OF this] this show ?thesis
    by (intro exI [of _ ?s]) (simp add: early_post_def system_init_def)
qed

definition drained :: "'k \<Rightarrow> ('k, 'c) system" where
  "drained k = \<lparr>sy_async = Async_new\<lparr>as_handle := Ptr 1\<rparr>, sy_phase = Waiting, sy_local = [],
     sy_pending = False, sy_testing = 0, sy_sending = 0, sy_bad = False, sy_posted = [k],
     sy_executed = [k]\<rparr>"

text \<open>Before it runs the function it has taken from the queue.\<close>

definition popped :: "'k \<Rightarrow> ('k, 'c) system" where
  "popped k = (drained k)\<lparr>sy_phase := Running, sy_local := [k], sy_executed := []\<rparr>"

lemma drained_stuck: "\<not> own_step (drained k) t"
  by (auto simp: drained_def elim!: own_stepE)

lemma popped_run: "own_step\<^sup>*\<^sup>* (early_post system_init k) (popped k :: ('k, 'c) system)"
proof -
  let ?a = "\<lambda>h q. \<lparr>as_handle = h, as_callbacks = q, as_onCloseComplet = None\<rparr> :: ('k, 'c) async"
  let ?s = "\<lambda>h q ph l p t e. \<lparr>sy_async = ?a h q, sy_phase = ph, sy_local = l, sy_pending = p,
     sy_testing = t, sy_sending = 0, sy_bad = False, sy_posted = [k], sy_executed = e\<rparr> :: ('k, 'c) system"
  have start: "early_post system_init k = ?s Null [k] NotInit [] False 1 []"
    by (simp add: early_post_def system_init_def Async_defs)
  have st1: "own_step (?s Null [k] NotInit [] False 1 []) (?s Null [k] NotInit [] False 0 [])"
    using own_step.test_null [of "?s Null [k] NotInit [] False 1 []" 0] by simp
  have st2: "own_step (?s Null [k] NotInit [] False 0 []) (?s (Ptr 1) [k] Allocated [] False 0 [])"
    using own_step.alloc [of "?s Null [k] NotInit [] False 0 []" 1] by simp
  have st3: "own_step (?s (Ptr 1) [k] Allocated [] False 0 []) (?s (Ptr 1) [k] Initialised [] False 0 [])"
    using own_step.uv_init [of "?s (Ptr 1) [k] Allocated [] False 0 []"] by simp
  have st4: "own_step (?s (Ptr 1) [k] Initialised [] False 0 []) (?s (Ptr 1) [k] Waiting [] True 0 [])"
    using own_step.init_send [of "?s (Ptr 1) [k] Initialised [] False 0 []"] by simp
  have st5: "own_step (?s (Ptr 1) [k] Waiting [] True 0 []) (?s (Ptr 1) [k] Swapping [] False 0 [])"
    using own_step.wake [of "?s (Ptr 1) [k] Waiting [] True 0 []"] by simp
  have st6: "own_step (?s (Ptr 1) [k] Swapping [] False 0 []) (?s (Ptr 1) [] Running [k] False 0 [])"
    using own_step.swap [of "?s (Ptr 1) [k] Swapping [] False 0 []"] by (simp add: Async_swap_def)
  have end_state: "?s (Ptr 1) [] Running [k] False 0 [] = popped k"
    by (simp add: popped_def drained_def Async_new_def)
  note run = r_into_rtranclp [of own_step, OF st1]
  note run = rtranclp.rtrancl_into_rtrancl [OF run st2]
  note run = rtranclp.rtrancl_into_rtrancl [OF run st3]
  note run = rtranclp.rtrancl_into_rtrancl [OF run st4]
  note run = rtranclp.rtrancl_into_rtrancl [OF run st5]
  note run = rtranclp.rtrancl_into_rtrancl [OF run st6]
  show ?thesis using run by (simp only: start end_state)
qed

lemma drained_run: "own_step\<^sup>*\<^sup>* (early_post system_init k) (drained k :: ('k, 'c) system)"
proof -
  let ?t = "(drained k)\<lparr>sy_phase := Running\<rparr> :: ('k, 'c) system"
  have st1: "own_step (popped k) ?t"
    using own_step.run [of "popped k" k "[]"] by (simp add: popped_def drained_def)
  have st2: "own_step ?t (drained k)"
    using own_step.run_end [of ?t] by (simp add: drained_def)
  note run = rtranclp.rtrancl_into_rtrancl [OF popped_run st1]
  note run = rtranclp.rtrancl_into_rtrancl [OF run st2]
  show ?thesis by (fact run)
qed

theorem posted_are_run_witness:
  "own_step\<^sup>*\<^sup>* (early_post system_init 1) (drained 1 :: (nat, unit) system) \<and>
   (\<forall>t. \<not> own_step (drained 1 :: (nat, unit) system) t) \<and> sy_executed (drained 1 :: (nat, unit) system) = [1]"
proof -
  let ?t = "drained 1 :: (nat, unit) system"
  have run: "own_step\<^sup>*\<^sup>* (early_post system_init 1) ?t" by (rule drained_run)
  have stuck: "\<forall>t'. \<not> own_step ?t t'" by (intro allI drained_stuck)
  have "\<not> sy_bad ?t" by (simp add: drained_def)
  then have "sy_executed ?t = sy_posted (early_post system_init 1 :: (nat, unit) system)"
    using conjunct2 [OF posted_are_run [OF posted_state(1)], rule_format, of 1 ?t] run stuck by simp
  then show ?thesis using run stuck posted_state(2) by simp
qed

text \<open>The race in \<^verbatim>\<open>init\<close>: the pointer is set before libuv has initialised the handle, so a thread
  that posts in between calls \<^verbatim>\<open>uv_async_send\<close> on an uninitialised handle.\<close>

theorem init_race:
  "\<exists>s. reach (s :: (nat, unit) system) \<and> sy_bad s"
proof -
  let ?s0 = "early_post system_init 1 :: (nat, unit) system"
  let ?s1 = "?s0\<lparr>sy_phase := Allocated, sy_async := (sy_async ?s0)\<lparr>as_handle := Ptr 1\<rparr>\<rparr>"
  have "reach ?s1"
    by (intro reach_alloc posted_state) (simp add: early_post_def system_init_def)
  moreover have "own_step ?s1 (?s1\<lparr>sy_testing := 0, sy_sending := Suc (sy_sending ?s1)\<rparr>)" (is "own_step _ ?s2")
    by (rule own_step.test_set) (simp_all add: early_post_def system_init_def)
  moreover have "own_step ?s2 (?s2\<lparr>sy_sending := 0, sy_bad := True\<rparr>)" (is "own_step _ ?s3")
    by (rule own_step.send_bad) (simp_all add: early_post_def system_init_def)
  ultimately have "reach ?s3" by (blast intro: reach.own)
  then show ?thesis by (intro exI [of _ ?s3]) simp
qed

end
