(* ===== verification/Event_Loop.thy ===== *)
theory Event_Loop
  imports Async_Task
begin

text \<open>
  The event loop wrapper: \<^verbatim>\<open>ae/event_loop.h\<close>, \<^verbatim>\<open>ae/event_loop.cpp\<close>. libuv's \<^verbatim>\<open>uv_run\<close>, which runs
  the handlers, is a parameter: it acts on the loop object and on libuv's state. A thread
  identifier is a number; \<open>None\<close> is the one no thread has.
\<close>

section \<open>State and operations\<close>

datatype loop_mode = Default | New

datatype loop_status = NotStarted | Started | Stopped

text \<open>\<^verbatim>\<open>uv_loop_t\<close>: the default loop of the library or one of the object's own.\<close>

datatype uv_loop = DefaultLoop | OwnLoop

type_synonym tid = nat

text \<open>The callback the loop hands to \<^verbatim>\<open>Async::close\<close>.\<close>

datatype loop_close = StopLoop

record 'k event_loop =
  el_loopThreadId :: "tid option"
  el_loop :: uv_loop
  el_async :: "('k, loop_close) async"
  el_status :: loop_status

definition EventLoop_of_mode :: "loop_mode \<Rightarrow> 'k event_loop" where
  "EventLoop_of_mode mode = \<lparr>el_loopThreadId = None,
     el_loop = (if mode = New then OwnLoop else DefaultLoop), el_async = Async_new,
     el_status = NotStarted\<rparr>"

definition EventLoop_new :: "'k event_loop" where
  "EventLoop_new = EventLoop_of_mode New"

text \<open>The function-local static: built at the first call.\<close>

definition EventLoop_default_loop :: "'k event_loop option \<Rightarrow> 'k event_loop" where
  "EventLoop_default_loop st = (case st of Some e \<Rightarrow> e | None \<Rightarrow> EventLoop_of_mode Default)"

definition EventLoop_handle :: "'k event_loop \<Rightarrow> uv_loop" where
  "EventLoop_handle e = el_loop e"

text \<open>The destructor frees the loop and the async object unless the loop is libuv's default.\<close>

definition EventLoop_destroy :: "'k event_loop \<Rightarrow> uv_loop list" where
  "EventLoop_destroy e = (if el_loop e \<noteq> DefaultLoop then [el_loop e] else [])"

definition start_async :: "'u libuv \<Rightarrow> hid \<Rightarrow> tid \<Rightarrow> 'k event_loop \<times> 'u \<Rightarrow> 'k event_loop \<times> 'u" where
  "start_async L h me = (\<lambda>(e, u). let (a, u) = Async_init L h (el_async e, u) in
     (e\<lparr>el_async := a, el_loopThreadId := Some me, el_status := Started\<rparr>, u))"

definition EventLoop_run ::
    "'u libuv \<Rightarrow> ('k event_loop \<times> 'u \<Rightarrow> int \<times> 'k event_loop \<times> 'u) \<Rightarrow> hid \<Rightarrow> tid \<Rightarrow>
     'k event_loop \<times> 'u \<Rightarrow> int \<times> 'k event_loop \<times> 'u" where
  "EventLoop_run L uv_run h me = (\<lambda>(e, u).
     if el_status e = NotStarted
     then let (rst, e, u) = uv_run (start_async L h me (e, u)) in (rst, e\<lparr>el_status := Stopped\<rparr>, u)
     else (- 1, e, u))"

definition EventLoop_run_no_wait ::
    "'u libuv \<Rightarrow> ('k event_loop \<times> 'u \<Rightarrow> int \<times> 'k event_loop \<times> 'u) \<Rightarrow> hid \<Rightarrow> tid \<Rightarrow>
     'k event_loop \<times> 'u \<Rightarrow> int \<times> 'k event_loop \<times> 'u" where
  "EventLoop_run_no_wait L uv_run h me = (\<lambda>(e, u).
     if el_status e = NotStarted
     then let (rst, e, u) = uv_run (start_async L h me (e, u)) in (rst, e\<lparr>el_status := NotStarted\<rparr>, u)
     else (- 1, e, u))"

definition EventLoop_stop :: "'u libuv \<Rightarrow> 'k event_loop \<times> 'u \<Rightarrow> (int \<times> 'k event_loop \<times> 'u) option" where
  "EventLoop_stop L = (\<lambda>(e, u).
     if el_status e = Started
     then do { (a, u) \<leftarrow> Async_close L (Some StopLoop) (el_async e, u);
               Some (0, e\<lparr>el_async := a\<rparr>, u) }
     else Some (- 1, e, u))"

text \<open>libuv has closed the async handle: the callback handed to \<^verbatim>\<open>Async::close\<close> stops the loop.\<close>

definition EventLoop_async_closed :: "'u libuv \<Rightarrow> 'k event_loop \<times> 'u \<Rightarrow> 'k event_loop \<times> 'u" where
  "EventLoop_async_closed L = (\<lambda>(e, u). let (a, cs) = Async_closed (el_async e) in
     (e\<lparr>el_async := a\<rparr>, foldl (\<lambda>u c. case c of StopLoop \<Rightarrow> uv_do L UvStop u) u cs))"

definition EventLoop_is_stopped :: "'k event_loop \<Rightarrow> bool" where
  "EventLoop_is_stopped e \<longleftrightarrow> el_status e = Stopped"

definition EventLoop_get_status :: "'k event_loop \<Rightarrow> loop_status" where
  "EventLoop_get_status e = el_status e"

definition EventLoop_is_run_in_loop_thread :: "tid \<Rightarrow> 'k event_loop \<Rightarrow> bool" where
  "EventLoop_is_run_in_loop_thread me e =
     (if el_status e = Started then Some me = el_loopThreadId e else False)"

text \<open>What thread \<open>me\<close> runs at once (at most one function), and the new state.\<close>

definition EventLoop_run_in_this_loop ::
    "'u libuv \<Rightarrow> tid \<Rightarrow> 'k option \<Rightarrow> 'k event_loop \<times> 'u \<Rightarrow> ('k list \<times> 'k event_loop \<times> 'u) option" where
  "EventLoop_run_in_this_loop L me func = (\<lambda>(e, u).
     (case func of
        None \<Rightarrow> Some ([], e, u)
      | Some f \<Rightarrow>
          if EventLoop_is_run_in_loop_thread me e \<or> EventLoop_is_stopped e then Some ([f], e, u)
          else do { (a, u) \<leftarrow> Async_runInThisLoop L f (el_async e, u);
                    Some ([], e\<lparr>el_async := a\<rparr>, u) }))"

definition Disconnected :: int where
  "Disconnected = - 1"

definition EventLoop_get_error_message :: "'u libuv \<Rightarrow> int \<Rightarrow> string" where
  "EventLoop_get_error_message L status =
     (if Disconnected = status then ''the connection is disconnected'' else uv_strerror L status)"

lemmas EventLoop_defs =
  EventLoop_of_mode_def EventLoop_new_def EventLoop_default_loop_def EventLoop_handle_def
  start_async_def EventLoop_run_def EventLoop_run_no_wait_def EventLoop_stop_def
  EventLoop_async_closed_def EventLoop_is_stopped_def EventLoop_get_status_def
  EventLoop_is_run_in_loop_thread_def EventLoop_run_in_this_loop_def EventLoop_get_error_message_def

section \<open>The life of a loop\<close>

text \<open>The calls of a client of the loop; each call returns its code (0 where it returns none) and
  the functions it has run in the calling thread.\<close>

datatype 'k client_call = Run tid | RunNoWait tid | Stop | Post tid 'k

fun loop_call :: "'u libuv \<Rightarrow> ('k event_loop \<times> 'u \<Rightarrow> int \<times> 'k event_loop \<times> 'u) \<Rightarrow> hid \<Rightarrow>
    'k client_call \<Rightarrow> 'k event_loop \<times> 'u \<Rightarrow> (int \<times> 'k list \<times> 'k event_loop \<times> 'u) option" where
  "loop_call L uv_run h (Run me) s = (let (r, s) = EventLoop_run L uv_run h me s in Some (r, [], s))"
| "loop_call L uv_run h (RunNoWait me) s =
     (let (r, s) = EventLoop_run_no_wait L uv_run h me s in Some (r, [], s))"
| "loop_call L uv_run h Stop s = do { (r, s) \<leftarrow> EventLoop_stop L s; Some (r, [], s) }"
| "loop_call L uv_run h (Post me f) s =
     do { (fs, s) \<leftarrow> EventLoop_run_in_this_loop L me (Some f) s; Some (0, fs, s) }"

fun loop_calls :: "'u libuv \<Rightarrow> ('k event_loop \<times> 'u \<Rightarrow> int \<times> 'k event_loop \<times> 'u) \<Rightarrow> hid \<Rightarrow>
    'k client_call list \<Rightarrow> 'k event_loop \<times> 'u \<Rightarrow> ('k list \<times> 'k event_loop \<times> 'u) option" where
  "loop_calls L uv_run h [] s = Some ([], s)"
| "loop_calls L uv_run h (c # cs) s = do {
     (r, fs, s) \<leftarrow> loop_call L uv_run h c s;
     (gs, s) \<leftarrow> loop_calls L uv_run h cs s;
     Some (fs @ gs, s) }"

fun posted :: "'k client_call list \<Rightarrow> 'k list" where
  "posted [] = []"
| "posted (Post me f # cs) = f # posted cs"
| "posted (_ # cs) = posted cs"

lemma stopped_call:
  assumes "el_status e = Stopped"
  shows "loop_call L uv_run h c (e, u) =
    Some (case c of Post me f \<Rightarrow> 0 | _ \<Rightarrow> - 1, posted [c], e, u)"
  using assms by (cases c) (simp_all add: EventLoop_defs)

text \<open>After \<^verbatim>\<open>run\<close> has returned, the loop is stopped for good: whatever is called, running and
  stopping it report -1 and change nothing, and every posted function runs at once in the thread
  that posts it, in order, instead of being queued for a loop that no longer takes it.\<close>

theorem loop_stopped_for_good:
  assumes "el_status e = NotStarted"
  shows "\<exists>r e' u'. EventLoop_run L uv_run h me (e, u) = (r, e', u') \<and> el_status e' = Stopped \<and>
    loop_calls L uv_run h cs (e', u') = Some (posted cs, e', u')"
proof -
  obtain r e1 u1 where run: "uv_run (start_async L h me (e, u)) = (r, e1, u1)"
    by (metis prod_cases3)
  let ?e = "e1\<lparr>el_status := Stopped\<rparr>"
  have "loop_calls L uv_run h cs (?e, u1) = Some (posted cs, ?e, u1)"
  proof (induction cs)
    case (Cons c cs)
    have "loop_call L uv_run h c (?e, u1) =
        Some (case c of Post me f \<Rightarrow> 0 | _ \<Rightarrow> - 1, posted [c], ?e, u1)"
      by (rule stopped_call) simp
    with Cons.IH show ?case by (cases c) (simp_all split: client_call.splits)
  qed simp
  with run assms show ?thesis by (auto simp: EventLoop_run_def)
qed

theorem loop_stopped_for_good_witness:
  "\<exists>e' u'. EventLoop_run trace_uv (\<lambda>(e, u). (0, e, u)) 3 1 (EventLoop_new, []) = (0, e', u') \<and>
     u' = [UvAsyncSend 3, UvAsyncInit 3] \<and>
     loop_calls trace_uv (\<lambda>(e, u). (0, e, u)) 3 [Post 2 ''f'', Run 1, Post 1 ''g''] (e', u') =
       Some ([''f'', ''g''], e', u')"
proof -
  have "el_status (EventLoop_new :: string event_loop) = NotStarted"
    by (simp add: EventLoop_defs)
  from loop_stopped_for_good [OF this, of trace_uv "\<lambda>(e, u). (0, e, u)" 3 1 "[]"
      "[Post 2 ''f'', Run 1, Post 1 ''g'']"]
  show ?thesis
    by (auto simp: EventLoop_run_def start_async_def EventLoop_new_def EventLoop_of_mode_def
        Async_new_def Async_init_def trace_uv_def uv_do_def)
qed

text \<open>A posted function is run at once exactly when the caller is the loop thread of a running loop
  or the loop has stopped, and otherwise is queued last and the loop is woken; it is never both
  and never dropped, as long as the handle of the loop has not been deleted. Posting a null function does nothing.\<close>

theorem post_runs_or_queues:
  assumes "as_handle (el_async e) \<noteq> Dangling"
  shows "\<exists>now e' u'. EventLoop_run_in_this_loop L me (Some f) (e, u) = Some (now, e', u') \<and>
    as_callbacks (el_async e') @ now = as_callbacks (el_async e) @ [f] \<and>
    (now = [f] \<longleftrightarrow> el_status e = Stopped \<or> el_status e = Started \<and> el_loopThreadId e = Some me) \<and>
    (now = [] \<longrightarrow> u' = (case as_handle (el_async e) of Ptr h \<Rightarrow> uv_do L (UvAsyncSend h) u | _ \<Rightarrow> u)) \<and>
    EventLoop_run_in_this_loop L me None (e, u) = Some ([], e, u)"
  using assms
  by (auto simp: EventLoop_defs Async_defs split: hptr.splits)

theorem post_runs_or_queues_witness:
  "\<exists>e' u'. EventLoop_run_in_this_loop trace_uv 4 (Some ''f'') (EventLoop_new, []) = Some ([], e', u') \<and>
     as_callbacks (el_async e') = [''f'']"
proof -
  have "as_handle (el_async (EventLoop_new :: string event_loop)) \<noteq> Dangling"
    by (simp add: EventLoop_defs Async_defs)
  from post_runs_or_queues [OF this, of trace_uv 4 "''f''" "[]"] show ?thesis
    by (auto simp: EventLoop_new_def EventLoop_of_mode_def Async_new_def append_eq_Cons_conv)
qed

text \<open>C38: Stopping a running loop only closes the async handle; calling stop again before libuv has
  closed it closes nothing twice; when libuv has closed it the loop is told to stop. From then
  on until \<^verbatim>\<open>run\<close> returns, the status still says that the loop runs while its handle is deleted: a
  post from another thread, or another stop, uses the freed handle.\<close>

theorem stop_protocol:
  assumes "uv_laws L" and "el_status e = Started" and "as_handle (el_async e) = Ptr h"
    and "\<not> uv_is_closing L h u" and "el_loopThreadId e = Some me" and "other \<noteq> me"
  shows "\<exists>e1 u1. EventLoop_stop L (e, u) = Some (0, e1, u1) \<and> u1 = uv_do L (UvClose h) u \<and>
    EventLoop_stop L (e1, u1) = Some (0, e1, u1) \<and>
    (\<exists>e2. EventLoop_async_closed L (e1, u1) = (e2, uv_do L UvStop u1) \<and> el_status e2 = Started \<and>
      EventLoop_run_in_this_loop L other (Some f) (e2, uv_do L UvStop u1) = None \<and>
      EventLoop_stop L (e2, uv_do L UvStop u1) = None)"
  using assms by (simp add: EventLoop_defs Async_defs uv_simps)

theorem stop_protocol_witness:
  "\<exists>e1 u1. EventLoop_stop trace_uv
       (EventLoop_new\<lparr>el_async := Async_new\<lparr>as_handle := Ptr 3\<rparr>, el_status := Started,
          el_loopThreadId := Some 1\<rparr>, []) = Some (0, e1, u1) \<and> u1 = [UvClose 3] \<and>
     EventLoop_run_in_this_loop trace_uv 2 (Some ''f'') (EventLoop_async_closed trace_uv (e1, u1)) = None"
proof -
  let ?e = "EventLoop_new\<lparr>el_async := Async_new\<lparr>as_handle := Ptr 3\<rparr>, el_status := Started,
      el_loopThreadId := Some 1\<rparr> :: string event_loop"
  have h: "el_status ?e = Started" "as_handle (el_async ?e) = Ptr 3" "\<not> uv_is_closing trace_uv 3 []"
    "el_loopThreadId ?e = Some 1" "(2 :: tid) \<noteq> 1"
    by (simp_all add: trace_uv_def)
  from stop_protocol [OF trace_uv_laws h, of "''f''"] obtain e1 u1 e2 where
    "EventLoop_stop trace_uv (?e, []) = Some (0, e1, u1)" "u1 = uv_do trace_uv (UvClose 3) []"
    "EventLoop_async_closed trace_uv (e1, u1) = (e2, uv_do trace_uv UvStop u1)"
    "EventLoop_run_in_this_loop trace_uv 2 (Some ''f'') (e2, uv_do trace_uv UvStop u1) = None"
    by auto
  then show ?thesis
    by (intro exI [of _ e1] exI [of _ u1]) (simp add: uv_do_def trace_uv_def)
qed

text \<open>The code for a disconnected connection is -1, which is also libuv's code for a refused
  permission: its message is never the library's, for every other code it is.\<close>

lemma error_message_collision:
  "EventLoop_get_error_message L (- 1) = ''the connection is disconnected'' \<and>
   (c = - 1 \<or> EventLoop_get_error_message L c = uv_strerror L c)"
  by (simp add: EventLoop_get_error_message_def Disconnected_def)

end
