(* ===== verification/Udp_Socket.thy ===== *)
theory Udp_Socket
  imports Event_Loop Log_Writer
begin

text \<open>
  The UDP socket wrapper: \<^verbatim>\<open>ae/udp_socket.h\<close>, \<^verbatim>\<open>ae/udp_socket.cpp\<close>. The record holds the
  fields; operations act on libuv's state, on the writer of the log, and return the callbacks
  they call. A message callback is a value of \<open>'m\<close>, a close callback one of \<open>'k\<close>.
\<close>

section \<open>State and operations\<close>

record ('m, 'k) udp_socket =
  us_handle :: hid
  us_ipv :: IPV
  us_on_close :: "'k option"
  us_on_message_callback :: "'m option"

text \<open>The constructor leaves \<^verbatim>\<open>ipv_\<close> uninitialised: \<open>junk\<close> is the value it happens to have.\<close>

definition UdpSocket_new :: "'u libuv \<Rightarrow> hid \<Rightarrow> IPV \<Rightarrow> 'u \<Rightarrow> ('m, 'k) udp_socket \<times> 'u" where
  "UdpSocket_new L h junk u =
     (\<lparr>us_handle = h, us_ipv = junk, us_on_close = None, us_on_message_callback = None\<rparr>,
      uv_do L (UvUdpInit h) u)"

definition UdpSocket_try_bind_and_read ::
    "'u libuv \<Rightarrow> socket_addr \<Rightarrow> ('m, 'k, 'z) udp_socket_scheme \<times> 'u \<Rightarrow>
     (int \<times> ('m, 'k, 'z) udp_socket_scheme \<times> 'u) option" where
  "UdpSocket_try_bind_and_read L addr = (\<lambda>(s, u). do {
     let s = s\<lparr>us_ipv := SocketAddr_ipv addr\<rparr>;
     sa \<leftarrow> SocketAddr_addr addr;
     let (rst, u) = uv L (UvUdpBind (us_handle s) sa) u;
     Some (if rst \<noteq> 0 then (rst, s, u)
           else let (rst, u) = uv L (UvUdpRecvStart (us_handle s)) u in (rst, s, u)) })"

definition UdpSocket_try_read :: "'u libuv \<Rightarrow> ('m, 'k, 'z) udp_socket_scheme \<Rightarrow> 'u \<Rightarrow> int \<times> 'u" where
  "UdpSocket_try_read L s u = uv L (UvUdpRecvStart (us_handle s)) u"

text \<open>\<open>r\<close> is the address of the new request.\<close>

definition UdpSocket_send ::
    "'u libuv \<Rightarrow> rid \<Rightarrow> ('m, 'k, 'z) udp_socket_scheme \<Rightarrow> socket_addr \<Rightarrow> byte list \<Rightarrow> 'u \<Rightarrow> (int \<times> 'u) option" where
  "UdpSocket_send L r s to buf u =
     do { sa \<leftarrow> SocketAddr_addr to; Some (uv L (UvUdpSend r (us_handle s) buf sa) u) }"

text \<open>The completion callback of a send.\<close>

definition UdpSocket_sent :: "'u libuv \<Rightarrow> 'cb log_writer \<Rightarrow> int \<Rightarrow> 'cb log_out list option" where
  "UdpSocket_sent L w status =
     (if status \<noteq> 0
      then LogWriter_error w (''udp send error :'' @ EventLoop_get_error_message L status)
      else Some [])"

definition UdpSocket_on_close_completed :: "('m, 'k, 'z) udp_socket_scheme \<Rightarrow> 'k list" where
  "UdpSocket_on_close_completed s = calls_of (us_on_close s)"

definition UdpSocket_close ::
    "'u libuv \<Rightarrow> 'k option \<Rightarrow> ('m, 'k, 'z) udp_socket_scheme \<times> 'u \<Rightarrow>
     (('m, 'k, 'z) udp_socket_scheme \<times> 'u) \<times> 'k list" where
  "UdpSocket_close L callback = (\<lambda>(s, u).
     let s = s\<lparr>us_on_close := callback\<rparr>;
         u = (if uv_is_active L (us_handle s) u then uv_do L (UvUdpRecvStop (us_handle s)) u else u)
     in if \<not> uv_is_closing L (us_handle s) u then ((s, uv_do L (UvClose (us_handle s)) u), [])
        else ((s, u), UdpSocket_on_close_completed s))"

definition UdpSocket_set_message_callback ::
    "'m option \<Rightarrow> ('m, 'k, 'z) udp_socket_scheme \<Rightarrow> ('m, 'k, 'z) udp_socket_scheme" where
  "UdpSocket_set_message_callback callback s = s\<lparr>us_on_message_callback := callback\<rparr>"

definition UdpSocket_on_message ::
    "addr_lib \<Rightarrow> sockaddr \<Rightarrow> byte list \<Rightarrow> ('m, 'k, 'z) udp_socket_scheme \<Rightarrow>
     ('m \<times> socket_addr \<times> byte list) list option" where
  "UdpSocket_on_message A from data s = (case us_on_message_callback s of
     None \<Rightarrow> Some []
   | Some cb \<Rightarrow> do { addr \<leftarrow> SocketAddr_of_sockaddr A from (us_ipv s); Some [(cb, addr, data)] })"

text \<open>What a receive event logs and calls: \<open>buf\<close> is the memory \<^verbatim>\<open>nread\<close> counts into.\<close>

definition UdpSocket_on_mesage_receive ::
    "'u libuv \<Rightarrow> addr_lib \<Rightarrow> 'cb log_writer \<Rightarrow> int \<Rightarrow> byte list \<Rightarrow> sockaddr \<Rightarrow>
     ('m, 'k, 'z) udp_socket_scheme \<Rightarrow>
     ('cb log_out list \<times> ('m \<times> socket_addr \<times> byte list) list) option" where
  "UdpSocket_on_mesage_receive L A w nread buf addr s =
     (if nread < 0
      then do { out \<leftarrow> LogWriter_error w (''udp read error :'' @ EventLoop_get_error_message L nread);
                Some (out, []) }
      else if nread > 0
      then do { calls \<leftarrow> UdpSocket_on_message A addr (take (nat nread) buf) s; Some ([], calls) }
      else Some ([], []))"

lemmas UdpSocket_defs =
  UdpSocket_new_def UdpSocket_try_bind_and_read_def UdpSocket_try_read_def UdpSocket_send_def
  UdpSocket_close_def UdpSocket_on_close_completed_def UdpSocket_set_message_callback_def

section \<open>Facts\<close>

definition udp_ok :: "'u libuv \<times> ('m, 'k) udp_socket \<times> 'u \<Rightarrow> bool" where
  "udp_ok = (\<lambda>(L, s, u). uv_laws L)"

definition udp_closing :: "'u libuv \<times> ('m, 'k) udp_socket \<times> 'u \<Rightarrow> bool" where
  "udp_closing = (\<lambda>(L, s, u). uv_is_closing L (us_handle s) u)"

definition udp_close_op :: "'k option \<Rightarrow> 'u libuv \<times> ('m, 'k) udp_socket \<times> 'u \<Rightarrow>
    (('u libuv \<times> ('m, 'k) udp_socket \<times> 'u) \<times> 'k list) option" where
  "udp_close_op k = (\<lambda>(L, s). let (s', cs) = UdpSocket_close L k s in Some ((L, s'), cs))"

definition udp_fired :: "'u libuv \<times> ('m, 'k) udp_socket \<times> 'u \<Rightarrow> 'k list" where
  "udp_fired = (\<lambda>(L, s, u). UdpSocket_on_close_completed s)"

interpretation us: closable udp_ok udp_closing udp_close_op udp_fired
  by unfold_locales
     (auto simp: udp_ok_def udp_closing_def udp_close_op_def udp_fired_def UdpSocket_defs Let_def uv_simps)

lemma receive_data:
  assumes "0 < nread" "us_on_message_callback s = Some cb"
    "SocketAddr_of_sockaddr A from (us_ipv s) = Some addr"
  shows "UdpSocket_on_mesage_receive L A w nread buf from s =
    Some ([], [(cb, addr, take (nat nread) buf)])"
  using assms by (simp add: UdpSocket_on_mesage_receive_def UdpSocket_on_message_def)

text \<open>A receive event is handled completely: with a healthy log, an error is logged once with the
  library's message and calls nobody, an empty event does nothing, and data calls the message
  callback once with the sender's address and exactly the bytes received. Nothing is undefined
  when the socket's address family is the sender's.\<close>

theorem udp_receive_cases:
  assumes "names_ok w" and "lw_level w \<le> 3" and "us_ipv s = Ipv4" and "sa_bytes from = [a, b, c, d] @ pad"
  shows "\<exists>out calls. UdpSocket_on_mesage_receive L A w nread buf from s = Some (out, calls) \<and>
    (length out = (if nread < 0 then 1 else 0)) \<and>
    calls = (if 0 < nread
      then map (\<lambda>cb. (cb, \<lparr>ad_ip = dotted a b c d, ad_port = htons (sa_port from), ad_ipv = Ipv4,
             ad_ipv4 = Some from, ad_ipv6 = None, ad_hash_code = 0\<rparr>, take (nat nread) buf))
           (calls_of (us_on_message_callback s))
      else [])"
proof -
  obtain out where out: "LogWriter_error w (''udp read error :'' @ EventLoop_get_error_message L nread) = Some out"
    and len: "length out = 1"
    using write_cases [OF assms(1), of Error "''udp read error :'' @ EventLoop_get_error_message L nread"] assms(2)
    by (auto simp: LogWriter_error_def le_Suc_eq)
  have conv: "SocketAddr_of_sockaddr A from Ipv4 = Some \<lparr>ad_ip = dotted a b c d,
      ad_port = htons (sa_port from), ad_ipv = Ipv4, ad_ipv4 = Some from, ad_ipv6 = None,
      ad_hash_code = 0\<rparr>"
    by (simp add: SocketAddr_of_sockaddr_def SocketAddr_get_ip_and_port_def inet_ntoa_def assms(4) at_def)
  show ?thesis
    using out len conv assms(3)
    by (simp add: UdpSocket_on_mesage_receive_def UdpSocket_on_message_def split: option.splits)
qed

theorem udp_receive_cases_witness:
  "\<exists>out. UdpSocket_on_mesage_receive trace_uv demo_addr_lib (LogWriter_init :: unit log_writer) 2 [1, 2, 3]
     \<lparr>sa_family = 2, sa_port = htons 53, sa_bytes = [127, 0, 0, 1]\<rparr>
     \<lparr>us_handle = 1, us_ipv = Ipv4, us_on_close = None :: unit option, us_on_message_callback = Some ''cb''\<rparr> =
     Some (out, [(''cb'', \<lparr>ad_ip = dotted 127 0 0 1, ad_port = 53, ad_ipv = Ipv4,
        ad_ipv4 = Some \<lparr>sa_family = 2, sa_port = htons 53, sa_bytes = [127, 0, 0, 1]\<rparr>,
        ad_ipv6 = None, ad_hash_code = 0\<rparr>, [1, 2])])"
proof -
  let ?s = "\<lparr>us_handle = 1, us_ipv = Ipv4, us_on_close = None :: unit option,
     us_on_message_callback = Some ''cb''\<rparr>"
  have "lw_level (LogWriter_init :: unit log_writer) \<le> 3" "us_ipv ?s = Ipv4"
    "sa_bytes \<lparr>sa_family = 2, sa_port = htons 53, sa_bytes = [127, 0, 0, 1]\<rparr> = [127, 0, 0, 1] @ []"
    by (simp_all add: LogWriter_init_def)
  from udp_receive_cases [OF names_ok_init this, of trace_uv demo_addr_lib 2 "[1, 2, 3]"]
  show ?thesis by (simp add: numeral_2_eq_2)
qed

end
