(* ===== verification/Msgpack.thy ===== *)
theory Msgpack
  imports AE_Prelude
begin

text \<open>
  The unpacking loop that both proxies run over a received message (\<^verbatim>\<open>unpack\<close> of
  \<^verbatim>\<open>app/udp_proxy.cpp\<close> and \<^verbatim>\<open>app/tcp_proxy.cpp\<close>). The msgpack library is not part of the
  repository: \<open>dec\<close> stands for \<^verbatim>\<open>msgpack_unpack_next\<close>, which from an offset either reads an
  object and advances the offset or reports that there is none. Reading a member of the object's
  union that is not the one stored is undefined: \<open>None\<close>.
\<close>

datatype msgobj = MInt "64 word" | MStr "byte list" | MOther

type_synonym decoder = "byte list \<Rightarrow> nat \<Rightarrow> (msgobj \<times> nat) option"

fun via_i64 :: "msgobj \<Rightarrow> 64 word option" where
  "via_i64 (MInt i) = Some i"
| "via_i64 _ = None"

fun via_str :: "msgobj \<Rightarrow> byte list option" where
  "via_str (MStr s) = Some s"
| "via_str _ = None"

text \<open>The characters of a byte string.\<close>

definition chars :: "byte list \<Rightarrow> string" where
  "chars = map (\<lambda>b. char_of (unat b))"

text \<open>The loop; \<open>assign\<close> is the switch over the counter. The outer option is \<open>None\<close> when the loop
  does not return, the inner one when it runs into undefined behaviour.\<close>

partial_function (option) unpack_loop ::
    "decoder \<Rightarrow> (nat \<Rightarrow> msgobj \<Rightarrow> 'r \<Rightarrow> 'r option) \<Rightarrow> byte list \<Rightarrow> nat \<Rightarrow> nat \<Rightarrow> 'r \<Rightarrow> 'r option option" where
  [code]: "unpack_loop dec assign buffer i offset r =
     (case dec buffer offset of
        None \<Rightarrow> Some (Some r)
      | Some (obj, offset') \<Rightarrow>
          (case assign i obj r of
             None \<Rightarrow> Some None
           | Some r' \<Rightarrow> unpack_loop dec assign buffer (Suc i) offset' r'))"

text \<open>Documented behaviour of the decoder: an object takes at least one byte and lies within the
  buffer.\<close>

definition decoder_law :: "decoder \<Rightarrow> bool" where
  "decoder_law dec \<longleftrightarrow> (\<forall>buffer offset obj offset'.
     dec buffer offset = Some (obj, offset') \<longrightarrow> offset < offset' \<and> offset' \<le> length buffer)"

text \<open>Reference: the objects of a buffer, read one after the other, and the assignments they make.
  The number of bytes bounds the number of objects.\<close>

fun objects_from :: "decoder \<Rightarrow> byte list \<Rightarrow> nat \<Rightarrow> nat \<Rightarrow> msgobj list" where
  "objects_from dec buffer 0 offset = []"
| "objects_from dec buffer (Suc n) offset = (case dec buffer offset of
     None \<Rightarrow> [] | Some (obj, offset') \<Rightarrow> obj # objects_from dec buffer n offset')"

definition objects :: "decoder \<Rightarrow> byte list \<Rightarrow> msgobj list" where
  "objects dec buffer = objects_from dec buffer (length buffer) 0"

fun assigns :: "(nat \<Rightarrow> msgobj \<Rightarrow> 'r \<Rightarrow> 'r option) \<Rightarrow> nat \<Rightarrow> msgobj list \<Rightarrow> 'r \<Rightarrow> 'r option" where
  "assigns assign i [] r = Some r"
| "assigns assign i (obj # objs) r = do { r \<leftarrow> assign i obj r; assigns assign (Suc i) objs r }"

lemma unpack_loop_from:
  assumes "decoder_law dec" and "length buffer - offset \<le> n"
  shows "unpack_loop dec assign buffer i offset r =
    Some (assigns assign i (objects_from dec buffer n offset) r)"
  using assms(2)
proof (induction n arbitrary: i offset r)
  case 0
  have "dec buffer offset = None"
  proof (rule ccontr)
    assume "dec buffer offset \<noteq> None"
    then obtain obj offset' where "dec buffer offset = Some (obj, offset')" by auto
    then show False using assms(1) 0 by (fastforce simp: decoder_law_def)
  qed
  then show ?case by (simp add: unpack_loop.simps)
next
  case (Suc n)
  show ?case
  proof (cases "dec buffer offset")
    case None
    then show ?thesis by (simp add: unpack_loop.simps)
  next
    case (Some p)
    obtain obj offset' where p: "p = (obj, offset')" by fastforce
    then have "offset < offset'" "offset' \<le> length buffer"
      using assms(1) Some by (auto simp: decoder_law_def)
    then have "length buffer - offset' \<le> n" using Suc.prems by linarith
    from Suc.IH [OF this] show ?thesis
      using Some p by (subst unpack_loop.simps) (simp split: option.splits)
  qed
qed

lemma unpack_loop_objects:
  "decoder_law dec \<Longrightarrow>
   unpack_loop dec assign buffer 0 0 r = Some (assigns assign 0 (objects dec buffer) r)"
  unfolding objects_def by (rule unpack_loop_from) auto

text \<open>A decoder that satisfies the law: small non-negative integers and strings of up to 31 bytes in
  the msgpack format.\<close>

definition small_decoder :: decoder where
  "small_decoder buffer offset = (case drop offset buffer of
     [] \<Rightarrow> None
   | b # rest \<Rightarrow>
       if b < 0x80 then Some (MInt (ucast b), Suc offset)
       else if 0xa0 \<le> b \<and> b < 0xc0 then
         (let n = unat b - 160 in
          if n \<le> length rest then Some (MStr (take n rest), Suc offset + n) else None)
       else None)"

lemma small_decoder_law: "decoder_law small_decoder"
proof -
  have "Suc (length rest) = length buffer - offset" if "drop offset buffer = b # rest"
    for buffer rest :: "byte list" and b offset
    using arg_cong [OF that, of length] by simp
  then show ?thesis
    by (fastforce simp: decoder_law_def small_decoder_def Let_def split: list.splits if_splits)
qed

end
