(* ===== verification/Udp_Proxy.thy ===== *)
theory Udp_Proxy
  imports Udp_Socket Msgpack
begin

text \<open>
  The UDP proxy: \<^verbatim>\<open>app/udp_agent.h/.cpp\<close>, \<^verbatim>\<open>app/udp_proxy.h/.cpp\<close> and the base class of
  \<^verbatim>\<open>app/proxy.h\<close>. A datagram of a client names a real server and carries a message; an agent, a
  socket of its own for the pair of client and server, sends the message on and the answers back.
  Agents live on the heap: \<open>up_agents\<close> maps the address of an agent (the one of its handle) to
  the object. Texts printed for information are left out.
\<close>

section \<open>Agents\<close>

datatype udp_cb = ServerForward | AgentReply hid

record udp_agent = "(udp_cb, unit) udp_socket" +
  ua_ca :: socket_addr
  ua_sa :: socket_addr

text \<open>The ports are converted from \<^verbatim>\<open>int\<close> to \<^verbatim>\<open>unsigned short\<close>.\<close>

definition UdpAgent_new ::
    "'u libuv \<Rightarrow> addr_lib \<Rightarrow> hid \<Rightarrow> IPV \<Rightarrow> string \<Rightarrow> int \<Rightarrow> string \<Rightarrow> int \<Rightarrow> 'u \<Rightarrow> udp_agent \<times> 'u" where
  "UdpAgent_new L A h junk cip cport sip sport u =
     (let (s, u) = UdpSocket_new L h junk u in
      (udp_socket.extend s
        \<lparr>ua_ca = SocketAddr_of_ip A cip (of_int cport) Ipv4,
         ua_sa = SocketAddr_of_ip A sip (of_int sport) Ipv4\<rparr>, u))"

definition UdpAgent_send_to_server ::
    "'u libuv \<Rightarrow> rid \<Rightarrow> udp_agent \<Rightarrow> byte list \<Rightarrow> 'u \<Rightarrow> (int \<times> 'u) option" where
  "UdpAgent_send_to_server L r a buf u = UdpSocket_send L r a (ua_sa a) buf u"

definition UdpAgent_send_to_client ::
    "'u libuv \<Rightarrow> rid \<Rightarrow> udp_agent \<Rightarrow> byte list \<Rightarrow> 'u \<Rightarrow> (int \<times> 'u) option" where
  "UdpAgent_send_to_client L r a buf u = UdpSocket_send L r a (ua_ca a) buf u"

text \<open>The older variants call libuv themselves.\<close>

definition UdpAgent_send_to_server2 ::
    "'u libuv \<Rightarrow> rid \<Rightarrow> udp_agent \<Rightarrow> byte list \<Rightarrow> 'u \<Rightarrow> (int \<times> 'u) option" where
  "UdpAgent_send_to_server2 L r a buf u =
     do { sa \<leftarrow> SocketAddr_addr (ua_sa a); Some (uv L (UvUdpSend r (us_handle a) buf sa) u) }"

definition UdpAgent_send_to_client2 ::
    "'u libuv \<Rightarrow> rid \<Rightarrow> udp_agent \<Rightarrow> byte list \<Rightarrow> 'u \<Rightarrow> (int \<times> 'u) option" where
  "UdpAgent_send_to_client2 L r a buf u =
     do { sa \<leftarrow> SocketAddr_addr (ua_ca a); Some (uv L (UvUdpSend r (us_handle a) buf sa) u) }"

lemma send2_same:
  "UdpAgent_send_to_server2 = UdpAgent_send_to_server"
  "UdpAgent_send_to_client2 = UdpAgent_send_to_client"
  by (simp_all add: fun_eq_iff UdpAgent_send_to_server2_def UdpAgent_send_to_client2_def
      UdpAgent_send_to_server_def UdpAgent_send_to_client_def UdpSocket_send_def)

section \<open>The proxy\<close>

record proxy =
  px_addr :: socket_addr
  px_ip :: string
  px_port :: int

definition Proxy_new :: "addr_lib \<Rightarrow> string \<Rightarrow> int \<Rightarrow> proxy" where
  "Proxy_new A ip port =
     \<lparr>px_addr = SocketAddr_of_ip A ip (of_int port) Ipv4, px_ip = ip, px_port = port\<rparr>"

text \<open>The object with the heap and libuv's state: \<open>up_next\<close> is the next free address.\<close>

record 'u udp_proxy = proxy +
  up_session :: "string \<rightharpoonup> hid"
  up_server :: "(udp_cb, unit) udp_socket option"
  up_agents :: "hid \<rightharpoonup> udp_agent"
  up_next :: nat
  up_uv :: 'u

definition UdpProxy_new :: "addr_lib \<Rightarrow> string \<Rightarrow> int \<Rightarrow> nat \<Rightarrow> 'u \<Rightarrow> 'u udp_proxy" where
  "UdpProxy_new A ip port next u = proxy.extend (Proxy_new A ip port)
     \<lparr>up_session = Map.empty, up_server = None, up_agents = Map.empty, up_next = next, up_uv = u\<rparr>"

text \<open>The destructor deletes every agent of the session table.\<close>

definition UdpProxy_destroy :: "'u udp_proxy \<Rightarrow> 'u udp_proxy" where
  "UdpProxy_destroy w = w\<lparr>up_agents := up_agents w |` (- ran (up_session w))\<rparr>"

definition UdpProxy_start :: "'u libuv \<Rightarrow> IPV \<Rightarrow> 'u udp_proxy \<Rightarrow> (int \<times> 'u udp_proxy) option" where
  "UdpProxy_start L junk w = do {
     let (s, u) = UdpSocket_new L (up_next w) junk (up_uv w);
     let s = UdpSocket_set_message_callback (Some ServerForward) s;
     (rst, s, u) \<leftarrow> UdpSocket_try_bind_and_read L (px_addr w) (s, u);
     Some (0, w\<lparr>up_server := Some s, up_next := Suc (up_next w), up_uv := u\<rparr>) }"

text \<open>The switch over the objects of a message, and the message as a triple; \<open>junk\<close> is what the
  uninitialised port holds.\<close>

fun UdpProxy_assign ::
    "nat \<Rightarrow> msgobj \<Rightarrow> string \<times> 32 word \<times> byte list \<Rightarrow> (string \<times> 32 word \<times> byte list) option" where
  "UdpProxy_assign i obj (ip, port, message) =
     (if i = 0 then do { s \<leftarrow> via_str obj; Some (chars s, port, message) }
      else if i = 1 then do { n \<leftarrow> via_i64 obj; Some (ip, ucast n, message) }
      else if i = 2 then do { s \<leftarrow> via_str obj; Some (ip, port, s) }
      else Some (ip, port, message))"

definition UdpProxy_unpack ::
    "decoder \<Rightarrow> 32 word \<Rightarrow> byte list \<Rightarrow> (string \<times> 32 word \<times> byte list) option option" where
  "UdpProxy_unpack dec junk buffer = unpack_loop dec UdpProxy_assign buffer 0 0 ('''', junk, [])"

definition session_key :: "string \<Rightarrow> int \<Rightarrow> string \<Rightarrow> int \<Rightarrow> string" where
  "session_key cip cport sip sport =
     cip @ '':'' @ to_string cport @ ''@'' @ sip @ '':'' @ to_string sport"

definition UdpProxy_get_agent ::
    "'u libuv \<Rightarrow> addr_lib \<Rightarrow> IPV \<Rightarrow> string \<Rightarrow> int \<Rightarrow> string \<Rightarrow> int \<Rightarrow> 'u udp_proxy \<Rightarrow> hid \<times> 'u udp_proxy" where
  "UdpProxy_get_agent L A junk cip cport sip sport w =
     (let key = session_key cip cport sip sport in
      case up_session w key of
        None \<Rightarrow>
          let h = up_next w;
              (a, u) = UdpAgent_new L A h junk cip cport sip sport (up_uv w);
              a = UdpSocket_set_message_callback (Some (AgentReply h)) a;
              (rst, u) = UdpSocket_try_read L a u
          in (h, w\<lparr>up_session := (up_session w)(key \<mapsto> h), up_agents := (up_agents w)(h \<mapsto> a),
                   up_next := Suc h, up_uv := u\<rparr>)
      | Some h \<Rightarrow> (h, w))"

text \<open>A request of a send takes an address of its own.\<close>

definition UdpProxy_forward ::
    "'u libuv \<Rightarrow> addr_lib \<Rightarrow> decoder \<Rightarrow> IPV \<Rightarrow> 32 word \<Rightarrow> socket_addr \<Rightarrow> byte list \<Rightarrow> 'u udp_proxy \<Rightarrow>
     'u udp_proxy option" where
  "UdpProxy_forward L A dec junk_ipv junk_port from data w =
     (case UdpProxy_unpack dec junk_port data of
        Some (Some (sip, sport, message)) \<Rightarrow> do {
          let (h, w) = UdpProxy_get_agent L A junk_ipv (c_str (SocketAddr_ip from))
                         (SocketAddr_port from) (c_str sip) (sint sport) w;
          a \<leftarrow> up_agents w h;
          (rst, u) \<leftarrow> UdpAgent_send_to_server L (up_next w) a message (up_uv w);
          Some (w\<lparr>up_next := Suc (up_next w), up_uv := u\<rparr>) }
      | _ \<Rightarrow> None)"

text \<open>What the two message callbacks do, and a receive event on the server's socket or an agent's.\<close>

definition UdpProxy_callback ::
    "'u libuv \<Rightarrow> addr_lib \<Rightarrow> decoder \<Rightarrow> IPV \<Rightarrow> 32 word \<Rightarrow> udp_cb \<times> socket_addr \<times> byte list \<Rightarrow>
     'u udp_proxy \<Rightarrow> 'u udp_proxy option" where
  "UdpProxy_callback L A dec junk_ipv junk_port = (\<lambda>(cb, from, data) w. case cb of
     ServerForward \<Rightarrow> UdpProxy_forward L A dec junk_ipv junk_port from data w
   | AgentReply h \<Rightarrow> do {
       a \<leftarrow> up_agents w h;
       (rst, u) \<leftarrow> UdpAgent_send_to_client L (up_next w) a data (up_uv w);
       Some (w\<lparr>up_next := Suc (up_next w), up_uv := u\<rparr>) })"

datatype udp_event = FromClient int "byte list" sockaddr | FromServer hid int "byte list" sockaddr

fun UdpProxy_calls :: "'u libuv \<Rightarrow> addr_lib \<Rightarrow> decoder \<Rightarrow> IPV \<Rightarrow> 32 word \<Rightarrow>
    (udp_cb \<times> socket_addr \<times> byte list) list \<Rightarrow> 'u udp_proxy \<Rightarrow> 'u udp_proxy option" where
  "UdpProxy_calls L A dec ji jp [] w = Some w"
| "UdpProxy_calls L A dec ji jp (c # cs) w =
     do { w \<leftarrow> UdpProxy_callback L A dec ji jp c w; UdpProxy_calls L A dec ji jp cs w }"

definition UdpProxy_event ::
    "'u libuv \<Rightarrow> addr_lib \<Rightarrow> decoder \<Rightarrow> unit log_writer \<Rightarrow> IPV \<Rightarrow> 32 word \<Rightarrow> udp_event \<Rightarrow>
     'u udp_proxy \<Rightarrow> 'u udp_proxy option" where
  "UdpProxy_event L A dec lw ji jp e w = (case e of
     FromClient nread buf addr \<Rightarrow> do {
       s \<leftarrow> up_server w;
       (out, calls) \<leftarrow> UdpSocket_on_mesage_receive L A lw nread buf addr s;
       UdpProxy_calls L A dec ji jp calls w }
   | FromServer h nread buf addr \<Rightarrow> do {
       a \<leftarrow> up_agents w h;
       (out, calls) \<leftarrow> UdpSocket_on_mesage_receive L A lw nread buf addr a;
       UdpProxy_calls L A dec ji jp calls w })"

section \<open>Session keys\<close>

lemma session_key_inj:
  assumes "CHR ''@'' \<notin> set cip" "CHR ''@'' \<notin> set cip'"
  shows "session_key cip cport sip sport = session_key cip' cport' sip' sport' \<longleftrightarrow>
    cip = cip' \<and> cport = cport' \<and> sip = sip' \<and> sport = sport'"
proof
  assume eq: "session_key cip cport sip sport = session_key cip' cport' sip' sport'"
  let ?c = "cip @ '':'' @ to_string cport" and ?c' = "cip' @ '':'' @ to_string cport'"
  let ?s = "sip @ '':'' @ to_string sport" and ?s' = "sip' @ '':'' @ to_string sport'"
  have "CHR ''@'' \<notin> set ?c" "CHR ''@'' \<notin> set ?c'" using assms by auto
  moreover have "?c @ CHR ''@'' # ?s = ?c' @ CHR ''@'' # ?s'"
    using eq by (simp add: session_key_def)
  ultimately have "?c = ?c' \<and> ?s = ?s'" by (rule split_first)
  then show "cip = cip' \<and> cport = cport' \<and> sip = sip' \<and> sport = sport'"
    using split_last [of "CHR '':''" "to_string cport" "to_string cport'" cip cip']
      split_last [of "CHR '':''" "to_string sport" "to_string sport'" sip sip']
    by simp
qed simp

section \<open>The session invariant\<close>

text \<open>The agent of a pair of client and server.\<close>

definition agent_for :: "addr_lib \<Rightarrow> string \<Rightarrow> int \<Rightarrow> string \<Rightarrow> int \<Rightarrow> hid \<Rightarrow> udp_agent \<Rightarrow> bool" where
  "agent_for A cip cport sip sport h a \<longleftrightarrow>
     us_handle a = h \<and> us_on_message_callback a = Some (AgentReply h) \<and>
     ua_ca a = SocketAddr_of_ip A cip (of_int cport) Ipv4 \<and>
     ua_sa a = SocketAddr_of_ip A sip (of_int sport) Ipv4"

text \<open>Every key of the session table is the key of one pair and leads to the live agent of that
  pair; no two keys share an agent; addresses in use are below the next free one; the server
  forwards what it receives and reads IPv4 senders.\<close>

definition proxy_inv :: "addr_lib \<Rightarrow> 'u udp_proxy \<Rightarrow> bool" where
  "proxy_inv A w \<longleftrightarrow>
     (\<forall>key h. up_session w key = Some h \<longrightarrow> (\<exists>a cip cport sip sport.
        key = session_key cip cport sip sport \<and> CHR ''@'' \<notin> set cip \<and>
        up_agents w h = Some a \<and> agent_for A cip cport sip sport h a)) \<and>
     (\<forall>h a. up_agents w h = Some a \<longrightarrow> h < up_next w \<and> us_on_message_callback a = Some (AgentReply h)) \<and>
     (\<forall>key key' h. up_session w key = Some h \<longrightarrow> up_session w key' = Some h \<longrightarrow> key = key') \<and>
     (\<forall>s. up_server w = Some s \<longrightarrow> us_on_message_callback s = Some ServerForward \<and> us_ipv s = Ipv4)"

lemma proxy_invI:
  assumes "\<And>key h. up_session w key = Some h \<Longrightarrow> \<exists>a cip cport sip sport.
        key = session_key cip cport sip sport \<and> CHR ''@'' \<notin> set cip \<and>
        up_agents w h = Some a \<and> agent_for A cip cport sip sport h a"
    and "\<And>h a. up_agents w h = Some a \<Longrightarrow> h < up_next w \<and> us_on_message_callback a = Some (AgentReply h)"
    and "\<And>key key' h. up_session w key = Some h \<Longrightarrow> up_session w key' = Some h \<Longrightarrow> key = key'"
    and "\<And>s. up_server w = Some s \<Longrightarrow> us_on_message_callback s = Some ServerForward \<and> us_ipv s = Ipv4"
  shows "proxy_inv A w"
  using assms unfolding proxy_inv_def by blast

lemma proxy_inv_session:
  "proxy_inv A w \<Longrightarrow> up_session w key = Some h \<Longrightarrow> \<exists>a cip cport sip sport.
     key = session_key cip cport sip sport \<and> CHR ''@'' \<notin> set cip \<and>
     up_agents w h = Some a \<and> agent_for A cip cport sip sport h a"
  unfolding proxy_inv_def by blast

lemma proxy_inv_agent:
  "proxy_inv A w \<Longrightarrow> up_agents w h = Some a \<Longrightarrow>
   h < up_next w \<and> us_on_message_callback a = Some (AgentReply h)"
  unfolding proxy_inv_def by blast

lemma proxy_inv_less: "proxy_inv A w \<Longrightarrow> up_session w key = Some h \<Longrightarrow> h < up_next w"
  using proxy_inv_session proxy_inv_agent by blast

lemma proxy_inv_inj:
  "proxy_inv A w \<Longrightarrow> up_session w key = Some h \<Longrightarrow> up_session w key' = Some h \<Longrightarrow> key = key'"
  unfolding proxy_inv_def by blast

lemma proxy_inv_server:
  "proxy_inv A w \<Longrightarrow> up_server w = Some s \<Longrightarrow>
   us_on_message_callback s = Some ServerForward \<and> us_ipv s = Ipv4"
  unfolding proxy_inv_def by blast

lemma proxy_inv_new: "proxy_inv A (UdpProxy_new A ip port next u)"
  by (simp add: proxy_inv_def UdpProxy_new_def proxy.defs)

lemma proxy_inv_start:
  assumes "proxy_inv A w" "px_addr w = SocketAddr_of_ip A ip p Ipv4"
    and "UdpProxy_start L junk w = Some (r, w')"
  shows "proxy_inv A w'"
proof -
  obtain s u where w': "w' = w\<lparr>up_server := Some s, up_next := Suc (up_next w), up_uv := u\<rparr>"
    and s: "us_on_message_callback s = Some ServerForward" "us_ipv s = Ipv4"
    using assms(2,3)
    by (auto simp: UdpProxy_start_def UdpSocket_defs SocketAddr_of_ip_def SocketAddr_ipv_def
        SocketAddr_addr_def Let_def split: prod.splits if_splits)
  show ?thesis
    using assms(1) s unfolding proxy_inv_def w' by (force simp: less_Suc_eq)
qed

lemma proxy_inv_uv [simp]:
  "proxy_inv A w \<Longrightarrow> proxy_inv A (w\<lparr>up_next := Suc (up_next w), up_uv := u\<rparr>)"
  unfolding proxy_inv_def by (simp add: less_Suc_eq)

lemma get_agent_old:
  assumes "proxy_inv A w" "CHR ''@'' \<notin> set cip"
    and "up_session w (session_key cip cport sip sport) = Some h"
  shows "UdpProxy_get_agent L A junk cip cport sip sport w = (h, w) \<and>
    (\<exists>a. up_agents w h = Some a \<and> agent_for A cip cport sip sport h a)"
proof -
  obtain a cip' cport' sip' sport' where
    "session_key cip cport sip sport = session_key cip' cport' sip' sport'" "CHR ''@'' \<notin> set cip'"
    "up_agents w h = Some a" "agent_for A cip' cport' sip' sport' h a"
    using assms(1,3) unfolding proxy_inv_def by blast
  then show ?thesis
    using assms(2,3) session_key_inj by (simp add: UdpProxy_get_agent_def)
qed

lemma get_agent_new:
  assumes inv: "proxy_inv A w" and cip: "CHR ''@'' \<notin> set cip"
    and "up_session w (session_key cip cport sip sport) = None"
    and "UdpProxy_get_agent L A junk cip cport sip sport w = (h, w')"
  shows "h = up_next w \<and> proxy_inv A w' \<and>
    up_session w' = (up_session w)(session_key cip cport sip sport \<mapsto> h) \<and>
    up_uv w' = uv_do L (UvUdpRecvStart h) (uv_do L (UvUdpInit h) (up_uv w)) \<and>
    (\<exists>a. up_agents w' h = Some a \<and> agent_for A cip cport sip sport h a)"
proof -
  define a :: udp_agent where "a = \<lparr>us_handle = up_next w, us_ipv = junk, us_on_close = None,
     us_on_message_callback = Some (AgentReply (up_next w)),
     ua_ca = SocketAddr_of_ip A cip (of_int cport) Ipv4,
     ua_sa = SocketAddr_of_ip A sip (of_int sport) Ipv4\<rparr>"
  have a: "agent_for A cip cport sip sport (up_next w) a"
    by (simp add: agent_for_def a_def)
  have w': "w' = w\<lparr>up_session := (up_session w)(session_key cip cport sip sport \<mapsto> up_next w),
      up_agents := (up_agents w)(up_next w \<mapsto> a), up_next := Suc (up_next w),
      up_uv := uv_do L (UvUdpRecvStart (up_next w)) (uv_do L (UvUdpInit (up_next w)) (up_uv w))\<rparr>"
    and h: "h = up_next w"
    using assms(3,4)
    by (auto simp: UdpProxy_get_agent_def UdpAgent_new_def UdpSocket_defs udp_socket.defs a_def
        Let_def uv_do_def split_beta)
  let ?key = "session_key cip cport sip sport"
  have "proxy_inv A w'"
  proof (rule proxy_invI)
    fix key k assume s: "up_session w' key = Some k"
    show "\<exists>a cip cport sip sport. key = session_key cip cport sip sport \<and> CHR ''@'' \<notin> set cip \<and>
        up_agents w' k = Some a \<and> agent_for A cip cport sip sport k a"
    proof (cases "key = ?key")
      case True
      then show ?thesis using s a cip unfolding w' by auto
    next
      case False
      then have old: "up_session w key = Some k" using s by (simp add: w')
      show ?thesis
        using proxy_inv_session [OF inv old] proxy_inv_less [OF inv old] by (simp add: w')
    qed
  next
    fix k b assume "up_agents w' k = Some b"
    then show "k < up_next w' \<and> us_on_message_callback b = Some (AgentReply k)"
      using proxy_inv_agent [OF inv, of k b] a by (auto simp: w' agent_for_def split: if_splits)
  next
    fix key key' k assume "up_session w' key = Some k" "up_session w' key' = Some k"
    then show "key = key'"
      using proxy_inv_inj [OF inv, of key k key'] proxy_inv_less [OF inv, of key k]
        proxy_inv_less [OF inv, of key' k] by (auto simp: w' split: if_splits)
  next
    fix s assume "up_server w' = Some s"
    then show "us_on_message_callback s = Some ServerForward \<and> us_ipv s = Ipv4"
      using proxy_inv_server [OF inv, of s] by (simp add: w')
  qed
  then show ?thesis using a unfolding h by (simp add: w')
qed

lemma get_agent:
  assumes inv: "proxy_inv A w" and cip: "CHR ''@'' \<notin> set cip"
    and get: "UdpProxy_get_agent L A junk cip cport sip sport w = (h, w')"
  shows "proxy_inv A w' \<and> up_session w' (session_key cip cport sip sport) = Some h \<and>
    (\<exists>a. up_agents w' h = Some a \<and> agent_for A cip cport sip sport h a) \<and>
    (up_session w (session_key cip cport sip sport) = Some h \<and> w' = w \<or>
     up_session w (session_key cip cport sip sport) = None \<and>
       up_session w' = (up_session w)(session_key cip cport sip sport \<mapsto> h) \<and>
       up_uv w' = uv_do L (UvUdpRecvStart h) (uv_do L (UvUdpInit h) (up_uv w)))"
proof (cases "up_session w (session_key cip cport sip sport)")
  case None
  note new = get_agent_new [OF inv cip None get]
  then have "up_session w' (session_key cip cport sip sport) = Some h" by simp
  with new None show ?thesis by blast
next
  case (Some k)
  then show ?thesis using get_agent_old [OF inv cip Some] get inv by auto
qed

lemma agent_sends:
  assumes "agent_for A cip cport sip sport h a"
  shows "UdpAgent_send_to_server L r a m u = Some (uv L (UvUdpSend r h m
      (uv_ip4_addr A (c_str sip) (of_int sport))) u)"
    and "UdpAgent_send_to_client L r a m u = Some (uv L (UvUdpSend r h m
      (uv_ip4_addr A (c_str cip) (of_int cport))) u)"
  using assms
  by (simp_all add: agent_for_def UdpAgent_send_to_server_def UdpAgent_send_to_client_def
      UdpSocket_send_def SocketAddr_addr_def SocketAddr_of_ip_def)

section \<open>Properties\<close>

lemma chars_hi: "chars [0x68, 0x69] = ''hi''"
  by code_simp

text \<open>Unpacking a message returns for every buffer and every decoder that advances within the
  buffer, and is the assignment of the first three objects: a message that starts with a string,
  an integer and a string gives that server address, that port cut to 32 bits and that text;
  objects after the third are ignored.\<close>

theorem udp_unpack_objects:
  assumes "decoder_law dec"
  shows "UdpProxy_unpack dec junk buffer =
      Some (assigns UdpProxy_assign 0 (objects dec buffer) ('''', junk, [])) \<and>
    (objects dec buffer = MStr ip # MInt p # MStr m # others \<longrightarrow>
      UdpProxy_unpack dec junk buffer = Some (Some (chars ip, ucast p, m)))"
proof -
  have "assigns UdpProxy_assign i objs r = Some r" if "3 \<le> i" for i objs r
    using that by (induction objs arbitrary: i) (cases r; simp)+
  from this [of 3 others] show ?thesis
    by (simp add: UdpProxy_unpack_def unpack_loop_objects [OF assms] numeral_3_eq_3)
qed

theorem udp_unpack_objects_witness:
  "UdpProxy_unpack small_decoder 7 [0xa2, 0x68, 0x69, 0x35, 0xa1, 0x78] =
     Some (Some (''hi'', 0x35, [0x78]))"
proof -
  have "objects small_decoder [0xa2, 0x68, 0x69, 0x35, 0xa1, 0x78] =
      MStr [0x68, 0x69] # MInt 0x35 # MStr [0x78] # []"
    by (simp add: objects_def small_decoder_def Let_def)
  with udp_unpack_objects [OF small_decoder_law, where junk = 7 and ip = "[0x68, 0x69]" and p = "0x35" and
      m = "[0x78]" and others = "[]"] show ?thesis
    by (simp add: chars_hi)
qed

text \<open>A message with no object after the server's address leaves the port at whatever the
  uninitialised variable holds, and one whose first object is not a string reads the wrong
  member of the object's union.\<close>

theorem udp_unpack_unchecked:
  "UdpProxy_unpack small_decoder junk [0xa2, 0x68, 0x69] = Some (Some (''hi'', junk, [])) \<and>
   UdpProxy_unpack small_decoder junk [0x35] = Some None"
  by (simp add: UdpProxy_unpack_def unpack_loop_objects [OF small_decoder_law] objects_def
      small_decoder_def Let_def chars_hi)

lemma dotted_no_at [simp]: "CHR ''@'' \<notin> set (dotted a b c d)"
  using set_dec_string not_digit by (auto simp: dotted_def byte_dec_def)

lemma from_ip4:
  assumes "SocketAddr_of_sockaddr A from Ipv4 = Some addr"
  shows "CHR ''@'' \<notin> set (c_str (SocketAddr_ip addr))"
  using assms
  by (auto simp: SocketAddr_of_sockaddr_def SocketAddr_get_ip_and_port_def inet_ntoa_def SocketAddr_ip_def
      split: Option.bind_splits)

lemma forward_steps:
  assumes inv: "proxy_inv A w" and at: "CHR ''@'' \<notin> set (c_str (SocketAddr_ip from))"
    and unp: "UdpProxy_unpack dec jp data = Some (Some (sip, sport, m))"
    and key: "key = session_key (c_str (SocketAddr_ip from)) (SocketAddr_port from) (c_str sip) (sint sport)"
  shows "\<exists>h w' u r. UdpProxy_forward L A dec ji jp from data w = Some w' \<and> proxy_inv A w' \<and>
    up_session w' key = Some h \<and>
    up_uv w' = uv_do L (UvUdpSend r h m (uv_ip4_addr A (c_str sip) (of_int (sint sport)))) u \<and>
    (up_session w key = Some h \<and> u = up_uv w \<and> up_session w' = up_session w \<or>
     up_session w key = None \<and> up_session w' = (up_session w)(key \<mapsto> h) \<and>
       u = uv_do L (UvUdpRecvStart h) (uv_do L (UvUdpInit h) (up_uv w)))"
proof -
  obtain h w1 where get: "UdpProxy_get_agent L A ji (c_str (SocketAddr_ip from)) (SocketAddr_port from)
      (c_str sip) (sint sport) w = (h, w1)" by fastforce
  note g = get_agent [OF inv at get, folded key]
  then obtain a where a: "up_agents w1 h = Some a"
    "agent_for A (c_str (SocketAddr_ip from)) (SocketAddr_port from) (c_str sip) (sint sport) h a"
    by blast
  let ?u = "uv_do L (UvUdpSend (up_next w1) h m (uv_ip4_addr A (c_str sip) (of_int (sint sport)))) (up_uv w1)"
  let ?w = "w1\<lparr>up_next := Suc (up_next w1), up_uv := ?u\<rparr>"
  have "UdpProxy_forward L A dec ji jp from data w = Some ?w"
    using unp get a by (simp add: UdpProxy_forward_def agent_sends uv_do_def split_beta)
  moreover have "proxy_inv A ?w" using g by simp
  moreover have "up_session ?w = up_session w1" "up_uv ?w = ?u" by simp_all
  ultimately show ?thesis using g by fastforce
qed

text \<open>C10: A datagram of a client that names a server is sent on to that server, with the message's bytes
  and from the socket of the agent of that pair of client and server: the agent in the session
  table when the pair has one, and otherwise a new socket that is also told to receive. The
  session table stays consistent.\<close>

theorem udp_forward_routes:
  assumes "proxy_inv A w" and "SocketAddr_of_sockaddr A from Ipv4 = Some client"
    and "UdpProxy_unpack dec jp data = Some (Some (sip, sport, m))"
    and "key = session_key (c_str (SocketAddr_ip client)) (SocketAddr_port client) (c_str sip) (sint sport)"
  shows "\<exists>h w' u r. UdpProxy_forward L A dec ji jp client data w = Some w' \<and> proxy_inv A w' \<and>
    up_session w' key = Some h \<and>
    up_uv w' = uv_do L (UvUdpSend r h m (uv_ip4_addr A (c_str sip) (of_int (sint sport)))) u \<and>
    (up_session w key = Some h \<and> u = up_uv w \<and> up_session w' = up_session w \<or>
     up_session w key = None \<and> up_session w' = (up_session w)(key \<mapsto> h) \<and>
       u = uv_do L (UvUdpRecvStart h) (uv_do L (UvUdpInit h) (up_uv w)))"
  using forward_steps [OF assms(1) from_ip4 [OF assms(2)] assms(3,4)] .

text \<open>A proxy that has been built, a client's address and a message of \<open>hi\<close>, 53 and \<open>x\<close>; and the
  proxy with one session.\<close>

definition demo_proxy :: "uv_call list udp_proxy" where
  "demo_proxy = UdpProxy_new demo_addr_lib ''::'' 53 7 []"

definition demo_from :: sockaddr where
  "demo_from = \<lparr>sa_family = 2, sa_port = htons 99, sa_bytes = [10, 0, 0, 1]\<rparr>"

definition demo_client :: socket_addr where
  "demo_client = \<lparr>ad_ip = dotted 10 0 0 1, ad_port = 99, ad_ipv = Ipv4, ad_ipv4 = Some demo_from,
     ad_ipv6 = None, ad_hash_code = 0\<rparr>"

definition demo_session :: "uv_call list udp_proxy" where
  "demo_session = snd (UdpProxy_get_agent trace_uv demo_addr_lib Ipv4 ''c'' 99 ''s'' 53 demo_proxy)"

lemma demo_conv: "SocketAddr_of_sockaddr demo_addr_lib demo_from Ipv4 = Some demo_client"
  by (simp add: demo_from_def demo_client_def SocketAddr_of_sockaddr_def SocketAddr_get_ip_and_port_def
      inet_ntoa_def at_def)

lemma demo_inv: "proxy_inv demo_addr_lib demo_proxy"
  unfolding demo_proxy_def by (rule proxy_inv_new)

lemma demo_get: "UdpProxy_get_agent trace_uv demo_addr_lib Ipv4 ''c'' 99 ''s'' 53 demo_proxy = (7, demo_session)"
  unfolding demo_session_def
  by (simp add: UdpProxy_get_agent_def demo_proxy_def UdpProxy_new_def proxy.defs Let_def split_beta)

lemma demo_session_state:
  "up_next demo_session = 8" "up_uv demo_session = [UvUdpRecvStart 7, UvUdpInit 7]"
  "up_agents demo_session 7 = Some a \<Longrightarrow> us_ipv a = Ipv4"
  unfolding demo_session_def
  by (auto simp: UdpProxy_get_agent_def demo_proxy_def UdpProxy_new_def proxy.defs Let_def split_beta
      UdpAgent_new_def UdpSocket_defs udp_socket.defs trace_uv_def uv_do_def)

lemma demo_unpack:
  "UdpProxy_unpack small_decoder 0 [0xa2, 0x68, 0x69, 0x35, 0xa1, 0x78] = Some (Some (''hi'', 0x35, [0x78]))"
  by (simp add: UdpProxy_unpack_def unpack_loop_objects [OF small_decoder_law] objects_def
      small_decoder_def Let_def chars_hi)

theorem udp_forward_routes_witness:
  "\<exists>h w' r. UdpProxy_forward trace_uv demo_addr_lib small_decoder Ipv4 0 demo_client
       [0xa2, 0x68, 0x69, 0x35, 0xa1, 0x78] demo_proxy = Some w' \<and>
     up_uv w' = [UvUdpSend r h [0x78] (uv_ip4_addr demo_addr_lib ''hi'' 53), UvUdpRecvStart h, UvUdpInit h]"
proof -
  have c: "c_str ''hi'' = ''hi''" by (simp add: c_str_def)
  have empty: "up_session demo_proxy = Map.empty" "up_uv demo_proxy = []"
    by (simp_all add: demo_proxy_def UdpProxy_new_def proxy.defs)
  have do: "uv_do trace_uv c u = c # u" for c u
    by (simp add: trace_uv_def uv_do_def)
  from udp_forward_routes [OF demo_inv demo_conv demo_unpack refl, of trace_uv Ipv4]
  show ?thesis by (simp add: c empty do) blast
qed

text \<open>An answer of a real server.\<close>

lemma reply_steps:
  assumes "proxy_inv A w" and "up_session w (session_key cip cport sip sport) = Some h"
    and "CHR ''@'' \<notin> set cip" and "0 < nread"
    and "\<And>a. up_agents w h = Some a \<Longrightarrow> SocketAddr_of_sockaddr A server (us_ipv a) \<noteq> None"
  shows "\<exists>r. UdpProxy_event L A dec lw ji jp (FromServer h nread buf server) w =
    Some (w\<lparr>up_next := Suc (up_next w), up_uv := uv_do L (UvUdpSend r h (take (nat nread) buf)
      (uv_ip4_addr A (c_str cip) (of_int cport))) (up_uv w)\<rparr>)"
proof -
  obtain a where a: "up_agents w h = Some a" "agent_for A cip cport sip sport h a"
    using get_agent_old [OF assms(1,3,2)] by blast
  obtain addr where addr: "SocketAddr_of_sockaddr A server (us_ipv a) = Some addr"
    using assms(5) a(1) by auto
  have "UdpSocket_on_mesage_receive L A lw nread buf server a =
      Some ([], [(AgentReply h, addr, take (nat nread) buf)])"
    using a(2) by (intro receive_data [OF assms(4) _ addr]) (simp add: agent_for_def)
  then show ?thesis
    using a by (simp add: UdpProxy_event_def UdpProxy_callback_def agent_sends uv_do_def split_beta)
      blast
qed

text \<open>C11: What an agent's socket receives is sent back, byte for byte, to the client of its session:
  from the same socket, to the address and port the session key names, and no state but the
  request counter changes.\<close>

theorem udp_reply_routes:
  assumes "proxy_inv A w" and "up_session w (session_key cip cport sip sport) = Some h"
    and "CHR ''@'' \<notin> set cip" and "0 < nread"
    and "\<And>a. up_agents w h = Some a \<Longrightarrow> SocketAddr_of_sockaddr A server (us_ipv a) \<noteq> None"
  shows "\<exists>r. UdpProxy_event L A dec lw ji jp (FromServer h nread buf server) w =
    Some (w\<lparr>up_next := Suc (up_next w), up_uv := uv_do L (UvUdpSend r h (take (nat nread) buf)
      (uv_ip4_addr A (c_str cip) (of_int cport))) (up_uv w)\<rparr>)"
  using reply_steps [OF assms] .

theorem udp_reply_routes_witness:
  "\<exists>r. UdpProxy_event trace_uv demo_addr_lib small_decoder LogWriter_init Ipv4 0
      (FromServer 7 1 [0x79] demo_from) demo_session =
    Some (demo_session\<lparr>up_next := 9,
      up_uv := [UvUdpSend r 7 [0x79] (uv_ip4_addr demo_addr_lib ''c'' 99), UvUdpRecvStart 7, UvUdpInit 7]\<rparr>)"
proof -
  have at: "CHR ''@'' \<notin> set ''c''" by simp
  note g = get_agent [OF demo_inv at demo_get]
  have conv: "SocketAddr_of_sockaddr demo_addr_lib demo_from (us_ipv a) \<noteq> None"
    if "up_agents demo_session 7 = Some a" for a
    using demo_session_state(3) [OF that] demo_conv by simp
  have c: "c_str ''c'' = ''c''" by (simp add: c_str_def)
  have do: "uv_do trace_uv c u = c # u" for c u
    by (simp add: trace_uv_def uv_do_def)
  have s: "up_session demo_session (session_key ''c'' 99 ''s'' 53) = Some 7" using g by blast
  have "0 < (1 :: int)" by simp
  from udp_reply_routes [OF conjunct1 [OF g] s at this conv, of trace_uv small_decoder LogWriter_init
      Ipv4 0 "[0x79]"]
  show ?thesis by (simp add: c do demo_session_state)
qed

section \<open>All runs\<close>

lemma forward_inv:
  assumes "proxy_inv A w" "CHR ''@'' \<notin> set (c_str (SocketAddr_ip from))"
    and "UdpProxy_forward L A dec ji jp from data w = Some w'"
  shows "proxy_inv A w'"
proof -
  obtain sip sport m where "UdpProxy_unpack dec jp data = Some (Some (sip, sport, m))"
    using assms(3) by (auto simp: UdpProxy_forward_def split: option.splits prod.splits)
  from forward_steps [OF assms(1,2) this refl, of L ji] obtain w1 where
    "UdpProxy_forward L A dec ji jp from data w = Some w1" "proxy_inv A w1" by blast
  with assms(3) show ?thesis by simp
qed

lemma reply_inv:
  assumes "proxy_inv A w" "UdpProxy_callback L A dec ji jp (AgentReply h, from, data) w = Some w'"
  shows "proxy_inv A w'"
  using assms by (auto simp: UdpProxy_callback_def split: Option.bind_splits prod.splits)

lemma calls_nil [simp]: "x \<bind> UdpProxy_calls L A dec ji jp [] = x"
  by (cases x) simp_all

lemma socket_calls:
  assumes "UdpSocket_on_mesage_receive L A lw nread buf addr s = Some (out, calls)"
  shows "calls = [] \<or> (\<exists>cb from. us_on_message_callback s = Some cb \<and>
    SocketAddr_of_sockaddr A addr (us_ipv s) = Some from \<and> calls = [(cb, from, take (nat nread) buf)])"
  using assms
  by (auto simp: UdpSocket_on_mesage_receive_def UdpSocket_on_message_def
      split: if_splits option.splits Option.bind_splits)

lemma event_inv:
  assumes inv: "proxy_inv A w" and ev: "UdpProxy_event L A dec lw ji jp e w = Some w'"
  shows "proxy_inv A w'"
proof (cases e)
  case (FromClient nread buf addr)
  then obtain s out calls where s: "up_server w = Some s"
    "UdpSocket_on_mesage_receive L A lw nread buf addr s = Some (out, calls)"
    "UdpProxy_calls L A dec ji jp calls w = Some w'"
    using ev by (auto simp: UdpProxy_event_def split: Option.bind_splits)
  then show ?thesis
    using socket_calls [OF s(2)] proxy_inv_server [OF inv s(1)] inv
    by (auto simp: UdpProxy_callback_def dest!: from_ip4 intro: forward_inv)
next
  case (FromServer h nread buf addr)
  then obtain a out calls where a: "up_agents w h = Some a"
    "UdpSocket_on_mesage_receive L A lw nread buf addr a = Some (out, calls)"
    "UdpProxy_calls L A dec ji jp calls w = Some w'"
    using ev by (auto simp: UdpProxy_event_def split: Option.bind_splits)
  then show ?thesis
    using socket_calls [OF a(2)] proxy_inv_agent [OF inv a(1)] inv
    by (auto dest: reply_inv)
qed

text \<open>A run of the proxy. Every event comes with what its uninitialised variables hold: the address
  family of the socket of an agent it makes, and the port of a message that names none.\<close>

fun udp_run :: "'u libuv \<Rightarrow> addr_lib \<Rightarrow> decoder \<Rightarrow> unit log_writer \<Rightarrow>
    (IPV \<times> 32 word \<times> udp_event) list \<Rightarrow> 'u udp_proxy \<Rightarrow> 'u udp_proxy option" where
  "udp_run L A dec lw [] w = Some w"
| "udp_run L A dec lw ((ji, jp, e) # es) w =
     do { w \<leftarrow> UdpProxy_event L A dec lw ji jp e w; udp_run L A dec lw es w }"

lemma udp_run_inv: "udp_run L A dec lw es w = Some w' \<Longrightarrow> proxy_inv A w \<Longrightarrow> proxy_inv A w'"
proof (induction es arbitrary: w)
  case (Cons x es)
  obtain ji jp e where x: "x = (ji, jp, e)" by (cases x)
  then obtain w1 where "UdpProxy_event L A dec lw ji jp e w = Some w1" "udp_run L A dec lw es w1 = Some w'"
    using Cons.prems(1) by (auto split: Option.bind_splits)
  then show ?case using event_inv [OF Cons.prems(2)] Cons.IH by blast
qed simp

text \<open>C9: Whatever datagrams a proxy receives after it has been built and started, its session table
  stays consistent: each key belongs to one pair of client and server and leads to the live agent
  that sends to that server and answers to that client, and different pairs never share a socket.\<close>

theorem udp_sessions_consistent:
  assumes "UdpProxy_start L junk (UdpProxy_new A ip port next u) = Some (r, w0)"
    and "udp_run L A dec lw es w0 = Some w"
    and "CHR ''@'' \<notin> set cip" and "CHR ''@'' \<notin> set cip'"
    and "up_session w (session_key cip cport sip sport) = Some h"
    and "up_session w (session_key cip' cport' sip' sport') = Some h'"
  shows "(\<exists>a. up_agents w h = Some a \<and> agent_for A cip cport sip sport h a) \<and>
    (h = h' \<longleftrightarrow> (cip, cport, sip, sport) = (cip', cport', sip', sport'))"
proof -
  have "px_addr (UdpProxy_new A ip port next u) = SocketAddr_of_ip A ip (of_int port) Ipv4"
    by (simp add: UdpProxy_new_def Proxy_new_def proxy.defs)
  from proxy_inv_start [OF proxy_inv_new this assms(1)] have inv: "proxy_inv A w"
    using udp_run_inv assms(2) by blast
  have "h = h' \<longleftrightarrow> session_key cip cport sip sport = session_key cip' cport' sip' sport'"
    using proxy_inv_inj [OF inv] assms(5,6) by auto
  then show ?thesis
    using get_agent_old [OF inv assms(3,5)] session_key_inj [OF assms(3,4)] by auto
qed

theorem udp_sessions_consistent_witness:
  "\<exists>w0 w h. UdpProxy_start trace_uv Ipv6 demo_proxy = Some (0, w0) \<and>
     udp_run trace_uv demo_addr_lib small_decoder LogWriter_init
       [(Ipv4, 0, FromClient 6 [0xa2, 0x68, 0x69, 0x35, 0xa1, 0x78] demo_from)] w0 = Some w \<and>
     (\<exists>a. up_agents w h = Some a \<and> agent_for demo_addr_lib (dotted 10 0 0 1) 99 ''hi'' 53 h a)"
proof -
  obtain w0 where start: "UdpProxy_start trace_uv Ipv6 demo_proxy = Some (0, w0)"
    by (auto simp: UdpProxy_start_def demo_proxy_def UdpProxy_new_def Proxy_new_def proxy.defs UdpSocket_defs
        SocketAddr_addr_def SocketAddr_of_ip_def Let_def split_beta)
  have "px_addr demo_proxy = SocketAddr_of_ip demo_addr_lib ''::'' 53 Ipv4"
    by (simp add: demo_proxy_def UdpProxy_new_def Proxy_new_def proxy.defs)
  note inv = proxy_inv_start [OF demo_inv this start]
  obtain s where s: "up_server w0 = Some s"
    using start by (auto simp: UdpProxy_start_def split: Option.bind_splits prod.splits)
  note sv = proxy_inv_server [OF inv s]
  let ?e = "FromClient 6 [0xa2, 0x68, 0x69, 0x35, 0xa1, 0x78] demo_from"
  have c: "c_str ''hi'' = ''hi''" "c_str (dotted 10 0 0 1) = dotted 10 0 0 1"
    by (simp add: c_str_def) (rule dotted_c_str)
  have at: "CHR ''@'' \<notin> set (c_str (SocketAddr_ip demo_client))" by (rule from_ip4 [OF demo_conv])
  have recv: "UdpSocket_on_mesage_receive trace_uv demo_addr_lib (LogWriter_init :: unit log_writer) 6
      [0xa2, 0x68, 0x69, 0x35, 0xa1, 0x78] demo_from s =
      Some ([], [(ServerForward, demo_client, [0xa2, 0x68, 0x69, 0x35, 0xa1, 0x78])])"
    using sv demo_conv by (subst receive_data) simp_all
  obtain h w where fw: "UdpProxy_forward trace_uv demo_addr_lib small_decoder Ipv4 0 demo_client
       [0xa2, 0x68, 0x69, 0x35, 0xa1, 0x78] w0 = Some w"
    "up_session w (session_key (dotted 10 0 0 1) 99 ''hi'' 53) = Some h"
    using forward_steps [OF inv at demo_unpack refl, of trace_uv Ipv4]
    by (auto simp: demo_client_def SocketAddr_ip_def SocketAddr_port_def c)
  have run: "udp_run trace_uv demo_addr_lib small_decoder LogWriter_init [(Ipv4, 0, ?e)] w0 = Some w"
    using s recv fw(1) by (simp add: UdpProxy_event_def UdpProxy_callback_def)
  from udp_sessions_consistent [OF start [unfolded demo_proxy_def] run dotted_no_at dotted_no_at fw(2,2)]
  show ?thesis using start run by blast
qed

end
