(* ===== verification/Tcp_Connection.thy ===== *)
theory Tcp_Connection
  imports Event_Loop Log_Writer Global_Config "HOL-Library.AList" "HOL-Library.Multiset"
begin

text \<open>
  A TCP connection: \<^verbatim>\<open>ae/tcp_connection.h\<close>, \<^verbatim>\<open>ae/tcp_connection.cpp\<close>. The record holds the fields
  of the object; its callbacks are values of the types \<open>'m\<close> (message), \<open>'c\<close> (connection closed)
  and \<open>'k\<close> (close complete), a write callback is a value of \<open>'w\<close>. Operations act on the object
  and on \<open>io\<close>: libuv's state and the requests on the heap. They return the calls they make, in
  order; in the source each of these calls is the last thing the operation does with the object.
\<close>

section \<open>Requests and effects\<close>

record write_info =
  wi_status :: int
  wi_buf :: "byte list"
  wi_size :: "64 word"

record 'w write_req =
  wr_buf :: "byte list"
  wr_callback :: "'w option"

text \<open>The requests libuv has accepted and not completed; \<open>io_next\<close> is the next free address.\<close>

record ('u, 'w) io =
  io_uv :: 'u
  io_writes :: "(rid \<times> 'w write_req) list"
  io_shutdowns :: "(rid \<times> hid) list"
  io_next :: nat

datatype ('m, 'c, 'k, 'w) conn_call =
    CallMessage 'm "byte list"
  | CallConnectClose 'c string
  | CallCloseComplete 'k string
  | CallWrite 'w write_info
  | Log log_level string

section \<open>State and operations\<close>

record ('m, 'c, 'k) tcp_connection =
  tc_name :: string
  tc_connected :: bool
  tc_handle :: hid
  tc_data :: "byte list"
  tc_buffer :: "list_buffer option"
  tc_wrapper :: "nat option"
  tc_onMessageCallback :: "'m option"
  tc_onConnectCloseCallback :: "'c option"
  tc_closeCompleteCallback :: "'k option"

definition TcpConnection_new ::
    "'v libuv \<Rightarrow> buffer_mode \<Rightarrow> string \<Rightarrow> hid \<Rightarrow> bool \<Rightarrow> 'v \<Rightarrow> ('m, 'c, 'k) tcp_connection \<times> 'v" where
  "TcpConnection_new L mode name client isConnected u =
     (\<lparr>tc_name = name, tc_connected = isConnected, tc_handle = client, tc_data = [],
       tc_buffer = (if mode = ListBuffer then Some ListBuffer_init else None), tc_wrapper = None,
       tc_onMessageCallback = None, tc_onConnectCloseCallback = None,
       tc_closeCompleteCallback = None\<rparr>,
      uv_do L (UvReadStart client) u)"

definition TcpConnection_on_message ::
    "byte list \<Rightarrow> ('m, 'c, 'k) tcp_connection \<Rightarrow> ('m, 'c, 'k, 'w) conn_call list" where
  "TcpConnection_on_message buf c = map (\<lambda>f. CallMessage f buf) (calls_of (tc_onMessageCallback c))"

definition TcpConnection_on_socket_close ::
    "('m, 'c, 'k) tcp_connection \<Rightarrow> ('m, 'c, 'k, 'w) conn_call list" where
  "TcpConnection_on_socket_close c =
     map (\<lambda>f. CallConnectClose f (tc_name c)) (calls_of (tc_onConnectCloseCallback c))"

definition TcpConnection_close_complete ::
    "('m, 'c, 'k) tcp_connection \<Rightarrow> ('m, 'c, 'k, 'w) conn_call list" where
  "TcpConnection_close_complete c =
     map (\<lambda>f. CallCloseComplete f (tc_name c)) (calls_of (tc_closeCompleteCallback c))"

definition TcpConnection_close ::
    "'v libuv \<Rightarrow> 'k option \<Rightarrow> ('m, 'c, 'k) tcp_connection \<times> 'v \<Rightarrow>
     (('m, 'c, 'k) tcp_connection \<times> 'v) \<times> ('m, 'c, 'k, 'w) conn_call list" where
  "TcpConnection_close L callback = (\<lambda>(c, u).
     let c = c\<lparr>tc_onMessageCallback := None, tc_onConnectCloseCallback := None,
               tc_closeCompleteCallback := callback\<rparr>;
         h = tc_handle c;
         u = (if uv_is_active L h u then uv_do L (UvReadStop h) u else u)
     in if \<not> uv_is_closing L h u then ((c, uv_do L (UvClose h) u), [])
        else ((c, u), TcpConnection_close_complete c))"

text \<open>The argument \<^verbatim>\<open>buf\<close> stands for the bytes at the pointer when the call is made, and its length
  is the argument \<^verbatim>\<open>size\<close>. The buffer given to libuv has a 32-bit length: \<open>uv_buf\<close> is what is
  left of \<open>buf\<close> after the cast, all of it below 4 GiB. The size reported to a callback is an
  \<^verbatim>\<open>unsigned long\<close>. The request keeps the pointer and not the bytes: what is said of the bytes of a
  pending request holds when the caller leaves its buffer alone until the request completes.\<close>

definition uv_buf :: "byte list \<Rightarrow> byte list" where
  "uv_buf buf = take (unat (of_nat (length buf) :: u32)) buf"

lemma uv_buf_short [simp]: "length buf < 4294967296 \<Longrightarrow> uv_buf buf = buf"
  by (simp add: uv_buf_def unat_of_nat)

lemma uv_buf_length: "length (uv_buf buf) = length buf mod 4294967296"
  by (simp add: uv_buf_def unat_of_nat min_def)

lemma uv_buf_twice [simp]: "uv_buf (uv_buf buf) = uv_buf buf"
  by (rule uv_buf_short) (simp add: uv_buf_length)

definition TcpConnection_write ::
    "'v libuv \<Rightarrow> byte list \<Rightarrow> 'w option \<Rightarrow> ('m, 'c, 'k) tcp_connection \<Rightarrow> ('v, 'w) io \<Rightarrow>
     int \<times> ('v, 'w) io \<times> ('m, 'c, 'k, 'w) conn_call list" where
  "TcpConnection_write L buf callback c io =
     (if tc_connected c then
        let r = io_next io;
            (rst, u) = uv L (UvWrite r (tc_handle c) (uv_buf buf)) (io_uv io);
            io = io\<lparr>io_uv := u, io_next := Suc r\<rparr>
        in if rst \<noteq> 0
           then (rst, io, Log Error (''write data error:'' @ to_string rst)
                   # map (\<lambda>f. CallWrite f \<lparr>wi_status = rst, wi_buf = buf, wi_size = of_nat (length buf)\<rparr>)
                         (calls_of callback))
           else (rst, io\<lparr>io_writes := (r, \<lparr>wr_buf = uv_buf buf, wr_callback = callback\<rparr>) # io_writes io\<rparr>, [])
      else (- 1, io,
            map (\<lambda>f. CallWrite f \<lparr>wi_status = Disconnected, wi_buf = buf, wi_size = of_nat (length buf)\<rparr>)
              (calls_of callback)))"

text \<open>libuv completes a write: the callback of the request, which is then deleted. A request that is
  not pending is \<open>None\<close>.\<close>

definition write_done ::
    "rid \<Rightarrow> int \<Rightarrow> ('v, 'w) io \<Rightarrow> (('v, 'w) io \<times> ('m, 'c, 'k, 'w) conn_call list) option" where
  "write_done r status io = do {
     wr \<leftarrow> map_of (io_writes io) r;
     Some (io\<lparr>io_writes := AList.delete r (io_writes io)\<rparr>,
       map (\<lambda>f. CallWrite f \<lparr>wi_status = status, wi_buf = wr_buf wr, wi_size = of_nat (length (wr_buf wr))\<rparr>)
         (calls_of (wr_callback wr))) }"

text \<open>The function \<^verbatim>\<open>write_in_loop\<close> posts: it holds a weak reference, so the object is there or not
  when it runs. Calling the empty callback raises an exception nobody catches: \<open>None\<close>.\<close>

definition TcpConnection_write_in_loop ::
    "'v libuv \<Rightarrow> byte list \<Rightarrow> 'w option \<Rightarrow> ('m, 'c, 'k) tcp_connection option \<Rightarrow> ('v, 'w) io \<Rightarrow>
     (('v, 'w) io \<times> ('m, 'c, 'k, 'w) conn_call list) option" where
  "TcpConnection_write_in_loop L buf callback conn io = (case conn of
     Some c \<Rightarrow> (let (rst, io, cs) = TcpConnection_write L buf callback c io in Some (io, cs))
   | None \<Rightarrow> do { f \<leftarrow> callback;
       Some (io, [CallWrite f \<lparr>wi_status = Disconnected, wi_buf = buf, wi_size = of_nat (length buf)\<rparr>]) })"

definition TcpConnection_set_wrapper ::
    "nat option \<Rightarrow> ('m, 'c, 'k) tcp_connection \<Rightarrow> ('m, 'c, 'k) tcp_connection" where
  "TcpConnection_set_wrapper wrapper c = c\<lparr>tc_wrapper := wrapper\<rparr>"

text \<open>Locking the weak reference gives the wrapper while somebody else keeps it alive.\<close>

definition TcpConnection_get_wrapper :: "(nat \<Rightarrow> bool) \<Rightarrow> ('m, 'c, 'k) tcp_connection \<Rightarrow> nat option" where
  "TcpConnection_get_wrapper alive c = (case tc_wrapper c of
     Some x \<Rightarrow> if alive x then Some x else None | None \<Rightarrow> None)"

definition TcpConnection_set_message_callback ::
    "'m option \<Rightarrow> ('m, 'c, 'k) tcp_connection \<Rightarrow> ('m, 'c, 'k) tcp_connection" where
  "TcpConnection_set_message_callback callback c = c\<lparr>tc_onMessageCallback := callback\<rparr>"

definition TcpConnection_set_connect_close_callback ::
    "'c option \<Rightarrow> ('m, 'c, 'k) tcp_connection \<Rightarrow> ('m, 'c, 'k) tcp_connection" where
  "TcpConnection_set_connect_close_callback callback c = c\<lparr>tc_onConnectCloseCallback := callback\<rparr>"

definition TcpConnection_set_connect_status ::
    "bool \<Rightarrow> ('m, 'c, 'k) tcp_connection \<Rightarrow> ('m, 'c, 'k) tcp_connection" where
  "TcpConnection_set_connect_status status c = c\<lparr>tc_connected := status\<rparr>"

definition TcpConnection_is_connected :: "('m, 'c, 'k) tcp_connection \<Rightarrow> bool" where
  "TcpConnection_is_connected c = tc_connected c"

definition TcpConnection_get_name :: "('m, 'c, 'k) tcp_connection \<Rightarrow> string" where
  "TcpConnection_get_name c = tc_name c"

definition TcpConnection_get_packet_buffer :: "('m, 'c, 'k) tcp_connection \<Rightarrow> list_buffer option" where
  "TcpConnection_get_packet_buffer c = tc_buffer c"

definition TcpConnection_resize_data ::
    "nat \<Rightarrow> ('m, 'c, 'k) tcp_connection \<Rightarrow> ('m, 'c, 'k) tcp_connection" where
  "TcpConnection_resize_data n c = c\<lparr>tc_data := str_resize n (tc_data c)\<rparr>"

definition TcpConnection_on_mesage_receive ::
    "'v libuv \<Rightarrow> int \<Rightarrow> byte list \<Rightarrow> ('m, 'c, 'k) tcp_connection \<Rightarrow> ('v, 'w) io \<Rightarrow>
     (('m, 'c, 'k) tcp_connection \<times> ('v, 'w) io) \<times> ('m, 'c, 'k, 'w) conn_call list" where
  "TcpConnection_on_mesage_receive L nread buf c io =
     (if nread > 0 then ((c, io), TcpConnection_on_message (take (nat nread) buf) c)
      else if nread < 0 then
        let c = TcpConnection_set_connect_status False c;
            log = Log Error (uv_err_name L nread)
        in if nread \<noteq> UV_EOF then ((c, io), log # TcpConnection_on_socket_close c)
           else
             let r = io_next io;
                 (rst, u) = uv L (UvShutdown r (tc_handle c)) (io_uv io);
                 io = io\<lparr>io_uv := u, io_next := Suc r\<rparr>
             in ((c, if rst = 0 then io\<lparr>io_shutdowns := (r, tc_handle c) # io_shutdowns io\<rparr> else io),
                 [log])
      else ((c, io), []))"

text \<open>The completion callback of the shutdown; its argument is a raw pointer to the connection.\<close>

definition shutdown_done ::
    "('m, 'c, 'k) tcp_connection option \<Rightarrow> ('m, 'c, 'k, 'w) conn_call list option" where
  "shutdown_done conn = do { c \<leftarrow> conn; Some (TcpConnection_on_socket_close c) }"

text \<open>The destructor of \<^verbatim>\<open>ConnectionWrapper\<close>, which holds a weak reference to the connection.\<close>

definition ConnectionWrapper_destroy ::
    "('m, 'c, 'k) tcp_connection option \<Rightarrow> ('m, 'c, 'k, 'w) conn_call list" where
  "ConnectionWrapper_destroy conn = (case conn of
     Some c \<Rightarrow> TcpConnection_on_socket_close c | None \<Rightarrow> [])"

lemmas TcpConnection_defs =
  TcpConnection_new_def TcpConnection_on_message_def TcpConnection_on_socket_close_def
  TcpConnection_close_complete_def TcpConnection_close_def TcpConnection_set_wrapper_def
  TcpConnection_set_message_callback_def TcpConnection_set_connect_close_callback_def
  TcpConnection_set_connect_status_def TcpConnection_resize_data_def

section \<open>The closing protocol\<close>

definition conn_ok :: "'v libuv \<times> ('m, 'c, 'k) tcp_connection \<times> 'v \<Rightarrow> bool" where
  "conn_ok = (\<lambda>(L, c, u). uv_laws L)"

definition conn_closing :: "'v libuv \<times> ('m, 'c, 'k) tcp_connection \<times> 'v \<Rightarrow> bool" where
  "conn_closing = (\<lambda>(L, c, u). uv_is_closing L (tc_handle c) u)"

definition completed :: "('m, 'c, 'k, 'w) conn_call list \<Rightarrow> 'k list" where
  "completed cs = concat (map (\<lambda>x. case x of CallCloseComplete k n \<Rightarrow> [k] | _ \<Rightarrow> []) cs)"

definition conn_close_op :: "'k option \<Rightarrow> 'v libuv \<times> ('m, 'c, 'k) tcp_connection \<times> 'v \<Rightarrow>
    (('v libuv \<times> ('m, 'c, 'k) tcp_connection \<times> 'v) \<times> 'k list) option" where
  "conn_close_op k = (\<lambda>(L, s).
     let (s', cs) = (TcpConnection_close L k s :: _ \<times> (_, _, _, unit) conn_call list)
     in Some ((L, s'), completed cs))"

definition conn_fired :: "'v libuv \<times> ('m, 'c, 'k) tcp_connection \<times> 'v \<Rightarrow> 'k list" where
  "conn_fired = (\<lambda>(L, c, u). completed (TcpConnection_close_complete c :: (_, _, _, unit) conn_call list))"

lemma completed_complete [simp]:
  "completed (TcpConnection_close_complete c) = calls_of (tc_closeCompleteCallback c)"
  by (cases "tc_closeCompleteCallback c") (simp_all add: completed_def TcpConnection_close_complete_def)

lemma completed_Nil [simp]: "completed [] = []"
  by (simp add: completed_def)

interpretation tc: closable conn_ok conn_closing conn_close_op conn_fired
  by unfold_locales
     (auto simp: conn_ok_def conn_closing_def conn_close_op_def conn_fired_def TcpConnection_close_def
       Let_def uv_simps)

text \<open>What closing does to the object, whatever state the handle is in.\<close>

lemma close_object:
  assumes "TcpConnection_close L k (c, u) = ((c', u'), cs)"
  shows "c' = c\<lparr>tc_onMessageCallback := None, tc_onConnectCloseCallback := None, tc_closeCompleteCallback := k\<rparr>"
  using assms by (auto simp: TcpConnection_close_def Let_def split: if_splits)

lemma close_open:
  assumes "uv_laws L" "\<not> uv_is_closing L (tc_handle c) u" "TcpConnection_close L k (c, u) = ((c', u'), cs)"
  shows "cs = [] \<and> uv_is_closing L (tc_handle c) u' \<and>
    (\<forall>h. h \<noteq> tc_handle c \<longrightarrow> uv_is_closing L h u' = uv_is_closing L h u)"
  using assms by (auto simp: TcpConnection_close_def Let_def uv_simps split: if_splits)

lemma close_closing:
  assumes "uv_laws L" "uv_is_closing L (tc_handle c) u" "TcpConnection_close L k (c, u) = ((c', u'), cs)"
  shows "cs = map (\<lambda>f. CallCloseComplete f (tc_name c)) (calls_of k) \<and>
    (\<forall>h. uv_is_closing L h u' = uv_is_closing L h u)"
  using assms by (auto simp: TcpConnection_close_def TcpConnection_close_complete_def Let_def uv_simps split: if_splits)

section \<open>Write callbacks\<close>

text \<open>What happens to a connection between its creation and its closing: writes, completions of
  writes reported by libuv, and receive events.\<close>

datatype 'w io_event = Write "byte list" "'w option" | WriteDone rid int | Receive int "byte list"

definition io_step :: "'v libuv \<Rightarrow> 'w io_event \<Rightarrow> ('m, 'c, 'k) tcp_connection \<times> ('v, 'w) io \<Rightarrow>
    (('m, 'c, 'k) tcp_connection \<times> ('v, 'w) io \<times> ('m, 'c, 'k, 'w) conn_call list) option" where
  "io_step L e = (\<lambda>(c, io). case e of
     Write buf f \<Rightarrow> (let (rst, io, cs) = TcpConnection_write L buf f c io in Some (c, io, cs))
   | WriteDone r status \<Rightarrow> do { (io, cs) \<leftarrow> write_done r status io; Some (c, io, cs) }
   | Receive nread buf \<Rightarrow>
       (let ((c, io), cs) = TcpConnection_on_mesage_receive L nread buf c io in Some (c, io, cs)))"

fun io_run :: "'v libuv \<Rightarrow> 'w io_event list \<Rightarrow> ('m, 'c, 'k) tcp_connection \<times> ('v, 'w) io \<Rightarrow>
    (('m, 'c, 'k) tcp_connection \<times> ('v, 'w) io \<times> ('m, 'c, 'k, 'w) conn_call list) option" where
  "io_run L [] s = Some (fst s, snd s, [])"
| "io_run L (e # es) s = do {
     (c, io, cs) \<leftarrow> io_step L e s;
     (c, io, cs') \<leftarrow> io_run L es (c, io);
     Some (c, io, cs @ cs') }"

definition called :: "('m, 'c, 'k, 'w) conn_call list \<Rightarrow> 'w list" where
  "called cs = concat (map (\<lambda>x. case x of CallWrite f i \<Rightarrow> [f] | _ \<Rightarrow> []) cs)"

definition pending :: "(rid \<times> 'w write_req) list \<Rightarrow> 'w list" where
  "pending rs = concat (map (\<lambda>(r, wr). calls_of (wr_callback wr)) rs)"

definition requested :: "'w io_event list \<Rightarrow> 'w list" where
  "requested es = concat (map (\<lambda>e. case e of Write buf f \<Rightarrow> calls_of f | _ \<Rightarrow> []) es)"

definition io_ok :: "('v, 'w) io \<Rightarrow> bool" where
  "io_ok io \<longleftrightarrow> distinct (map fst (io_writes io)) \<and> (\<forall>r \<in> fst ` set (io_writes io). r < io_next io)"

lemma called_simps [simp]:
  "called [] = []"
  "called (cs @ cs') = called cs @ called cs'"
  "called (Log l s # cs) = called cs"
  "called (map (\<lambda>f. CallWrite f i) (calls_of k)) = calls_of k"
  "called (map (\<lambda>f. CallMessage f b) fs) = []"
  "called (map (\<lambda>f. CallConnectClose f n) gs) = []"
  by (cases k; simp add: called_def; induction fs; induction gs; simp)+

lemma pending_delete:
  assumes "distinct (map fst rs)" "map_of rs r = Some wr"
  shows "mset (pending rs) = mset (calls_of (wr_callback wr)) + mset (pending (AList.delete r rs))"
  using assms
proof (induction rs)
  case (Cons p rs)
  obtain r' wr' where p: "p = (r', wr')" by fastforce
  show ?case
  proof (cases "r' = r")
    case True
    then have "AList.delete r (p # rs) = rs"
      using Cons.prems(1) p by (force simp: AList.delete_eq intro!: filter_True)
    then show ?thesis using Cons.prems p True by (simp add: pending_def)
  next
    case False
    then show ?thesis using Cons p by (simp add: pending_def)
  qed
qed simp

lemma io_step_callbacks:
  assumes "io_step L e (c, io) = Some (c', io', cs)" "io_ok io"
  shows "io_ok io' \<and>
    mset (called cs) + mset (pending (io_writes io')) = mset (pending (io_writes io)) + mset (requested [e])"
proof (cases e)
  case (Write buf f)
  have lt: "a < io_next io" if "(a, b) \<in> set (io_writes io)" for a b
    using assms(2) that by (force simp: io_ok_def)
  show ?thesis
    using assms Write
    by (auto simp: io_step_def TcpConnection_write_def Let_def io_ok_def requested_def pending_def
        split: if_splits prod.splits) (blast intro: less_SucI dest: lt)+
next
  case (WriteDone r status)
  then obtain wr where wr: "map_of (io_writes io) r = Some wr"
    and io': "io' = io\<lparr>io_writes := AList.delete r (io_writes io)\<rparr>"
    and cs: "called cs = calls_of (wr_callback wr)"
    using assms(1) by (auto simp: io_step_def write_done_def split: Option.bind_splits)
  have "set (AList.delete r (io_writes io)) \<subseteq> set (io_writes io)"
    by (auto simp: AList.delete_eq)
  then have "io_ok io'"
    using assms(2) by (auto simp: io_ok_def io' AList.distinct_delete)
  then show ?thesis
    using pending_delete [OF _ wr] assms(2) cs WriteDone by (simp add: io_ok_def io' requested_def)
next
  case (Receive nread buf)
  then have "io_writes io' = io_writes io" "io_next io \<le> io_next io'" "called cs = []"
    using assms(1)
    by (auto simp: io_step_def TcpConnection_on_mesage_receive_def TcpConnection_on_message_def
        TcpConnection_on_socket_close_def Let_def split: if_splits prod.splits)
  then show ?thesis
    using assms(2) Receive by (force simp: io_ok_def requested_def)
qed

lemma io_run_callbacks:
  assumes "io_run L es (c, io) = Some (c', io', cs)" "io_ok io"
  shows "mset (called cs) + mset (pending (io_writes io')) = mset (pending (io_writes io)) + mset (requested es)"
  using assms
proof (induction es arbitrary: c io cs)
  case Nil
  then show ?case by (simp add: requested_def)
next
  case (Cons e es)
  then obtain c1 io1 cs1 cs2 where step: "io_step L e (c, io) = Some (c1, io1, cs1)"
    and run: "io_run L es (c1, io1) = Some (c', io', cs2)" and cs: "cs = cs1 @ cs2"
    by (auto split: Option.bind_splits)
  note s = io_step_callbacks [OF step Cons.prems(2)]
  have r: "mset (requested (e # es)) = mset (requested [e]) + mset (requested es)"
    by (simp add: requested_def)
  from s Cons.IH [OF run] show ?case
    unfolding cs r by (simp add: ac_simps)
qed

section \<open>Properties\<close>

text \<open>C7: Every write callback is called exactly once. However writes, their completions and receive
  events follow each other, the callbacks called so far and those of the requests libuv still
  holds are, with multiplicity, the callbacks handed to \<^verbatim>\<open>write\<close>: none is lost and none called
  twice, on a broken or failing connection too. When libuv holds no request all have been called.\<close>

theorem write_callbacks_exactly_once:
  assumes "io_run L es (c, io) = Some (c', io', cs)" and "io_writes io = []"
  shows "mset (called cs) + mset (pending (io_writes io')) = mset (requested es) \<and>
    (io_writes io' = [] \<longrightarrow> mset (called cs) = mset (requested es))"
proof -
  have "io_ok io" "pending (io_writes io) = []" using assms(2) by (simp_all add: io_ok_def pending_def)
  with io_run_callbacks [OF assms(1)] show ?thesis by (auto simp: pending_def)
qed

definition demo_conn :: "(unit, unit, string) tcp_connection" where
  "demo_conn = fst (TcpConnection_new trace_uv NoBuffer ''peer'' 1 True [])"

definition demo_io :: "(uv_call list, string) io" where
  "demo_io = \<lparr>io_uv = [], io_writes = [], io_shutdowns = [], io_next = 5\<rparr>"

theorem write_callbacks_exactly_once_witness:
  "\<exists>c' io' cs. io_run trace_uv [Write [1] (Some ''a''), Write [2] (Some ''b''), WriteDone 5 0,
       Receive (- 104) [], Write [3] (Some ''c'')] (demo_conn, demo_io) = Some (c', io', cs) \<and>
     called cs = [''a'', ''c''] \<and> pending (io_writes io') = [''b''] \<and>
     mset (called cs) + mset (pending (io_writes io')) = mset [''a'', ''b'', ''c'']"
proof -
  have "io_run trace_uv [Write [1] (Some ''a''), Write [2] (Some ''b''), WriteDone 5 0,
       Receive (- 104) [], Write [3] (Some ''c'')] (demo_conn, demo_io) =
     Some (demo_conn\<lparr>tc_connected := False\<rparr>, \<lparr>io_uv = [UvWrite 6 1 [2], UvWrite 5 1 [1]],
        io_writes = [(6, \<lparr>wr_buf = [2], wr_callback = Some ''b''\<rparr>)], io_shutdowns = [], io_next = 7\<rparr>,
       [CallWrite ''a'' \<lparr>wi_status = 0, wi_buf = [1], wi_size = 1\<rparr>, Log Error ''ERR'',
        CallWrite ''c'' \<lparr>wi_status = - 1, wi_buf = [3], wi_size = 1\<rparr>])" (is "?run = Some (?c, ?io, ?cs)")
    by (simp add: io_step_def TcpConnection_write_def write_done_def demo_conn_def demo_io_def
        TcpConnection_defs TcpConnection_on_mesage_receive_def trace_uv_def Let_def UV_EOF_def
        Disconnected_def)
  from write_callbacks_exactly_once [OF this] this show ?thesis
    by (intro exI [of _ ?c] exI [of _ ?io] exI [of _ ?cs])
      (simp add: called_def pending_def requested_def demo_io_def)
qed

text \<open>C8: Closing an open connection detaches it at once: from then on no receive event and no loss of
  the connection calls back, and the completion callback is called once, when libuv has closed
  the handle. Closing it again before that drops the first completion callback, calls the
  second immediately and once more when libuv is done.\<close>

theorem conn_close_protocol:
  assumes "uv_laws L" and "\<not> uv_is_closing L (tc_handle c) u"
  shows "\<exists>c1 u1. TcpConnection_close L k (c, u) = ((c1, u1), []) \<and>
    TcpConnection_on_message buf c1 = [] \<and> TcpConnection_on_socket_close c1 = [] \<and>
    TcpConnection_close_complete c1 = map (\<lambda>f. CallCloseComplete f (tc_name c)) (calls_of k) \<and>
    (\<exists>c2 u2. TcpConnection_close L k' (c1, u1) =
        ((c2, u2), map (\<lambda>f. CallCloseComplete f (tc_name c)) (calls_of k')) \<and>
      TcpConnection_close_complete c2 = map (\<lambda>f. CallCloseComplete f (tc_name c)) (calls_of k'))"
  using assms by (auto simp: TcpConnection_defs Let_def uv_simps)

theorem conn_close_protocol_witness:
  "\<exists>c1 u1. TcpConnection_close trace_uv (Some ''k'') (demo_conn, []) =
       ((c1, u1), [] :: (_, _, _, unit) conn_call list) \<and>
     TcpConnection_close_complete c1 = [CallCloseComplete ''k'' ''peer'' :: (_, _, _, unit) conn_call]"
proof -
  have "\<not> uv_is_closing trace_uv (tc_handle demo_conn) []" "tc_name demo_conn = ''peer''"
    by (simp_all add: trace_uv_def demo_conn_def TcpConnection_new_def)
  with conn_close_protocol [OF trace_uv_laws this(1), of "Some ''k''"] show ?thesis
    by fastforce
qed

text \<open>An end of file disconnects and asks libuv to shut the socket down; the connection is closed
  when the shutdown completes. When libuv refuses the shutdown, its code is ignored: nothing is
  pending and no call closes the connection, which keeps its callbacks and its handle.\<close>

theorem eof_shutdown:
  assumes "uv L (UvShutdown (io_next io) (tc_handle c)) (io_uv io) = (rst, u)"
  shows "\<exists>c' io'. TcpConnection_on_mesage_receive L UV_EOF buf c io = ((c', io'), [Log Error (uv_err_name L UV_EOF)]) \<and>
    c' = c\<lparr>tc_connected := False\<rparr> \<and>
    (rst = 0 \<longrightarrow> map_of (io_shutdowns io') (io_next io) = Some (tc_handle c)) \<and>
    (rst \<noteq> 0 \<longrightarrow> io_shutdowns io' = io_shutdowns io \<and> io_writes io' = io_writes io)"
  using assms
  by (simp add: TcpConnection_on_mesage_receive_def UV_EOF_def TcpConnection_set_connect_status_def Let_def)

theorem eof_shutdown_witness:
  "\<exists>c' io'. TcpConnection_on_mesage_receive (trace_uv\<lparr>uv := \<lambda>c tr. (- 107, c # tr)\<rparr>) UV_EOF [] demo_conn demo_io =
      ((c', io'), [Log Error ''ERR'']) \<and> io_shutdowns io' = []"
proof -
  have "uv (trace_uv\<lparr>uv := \<lambda>c tr. (- 107, c # tr)\<rparr>) (UvShutdown (io_next demo_io) (tc_handle demo_conn)) (io_uv demo_io) =
      (- 107, [UvShutdown (io_next demo_io) (tc_handle demo_conn)])"
    by (simp add: demo_io_def)
  from eof_shutdown [OF this, of "[]"] show ?thesis
    by (auto simp: trace_uv_def demo_io_def)
qed

text \<open>A write handed to the loop reports to its callback exactly once in the loop when the connection
  is gone or broken, as disconnected, and hands the bytes to libuv when it is live; but with
  no callback and the connection gone, it calls an empty function object.\<close>

theorem write_in_loop_cases:
  "TcpConnection_write_in_loop L buf f None io =
      (case f of None \<Rightarrow> None
       | Some g \<Rightarrow> Some (io, [CallWrite g \<lparr>wi_status = - 1, wi_buf = buf, wi_size = of_nat (length buf)\<rparr>])) \<and>
   TcpConnection_write_in_loop L buf f (Some (c\<lparr>tc_connected := False\<rparr>)) io =
      Some (io, map (\<lambda>g. CallWrite g \<lparr>wi_status = - 1, wi_buf = buf, wi_size = of_nat (length buf)\<rparr>) (calls_of f)) \<and>
   (\<exists>io' cs. TcpConnection_write_in_loop L buf f (Some (c\<lparr>tc_connected := True\<rparr>)) io = Some (io', cs) \<and>
      io_uv io' = uv_do L (UvWrite (io_next io) (tc_handle c) (uv_buf buf)) (io_uv io))"
  by (auto simp: TcpConnection_write_in_loop_def TcpConnection_write_def Disconnected_def uv_do_def Let_def
      split: option.splits prod.splits)

section \<open>Writes\<close>

lemma write_io:
  assumes "uv_laws L" "TcpConnection_write L m k c io = (rst, io', cs)"
  shows "io_next io \<le> io_next io' \<and> io_shutdowns io' = io_shutdowns io \<and> (\<forall>g. uv_is_closing L g (io_uv io') = uv_is_closing L g (io_uv io))"
proof -
  obtain rst0 u where u: "uv L (UvWrite (io_next io) (tc_handle c) (uv_buf m)) (io_uv io) = (rst0, u)" by fastforce
  have "io' = io \<or> io_uv io' = u \<and> io_next io' = Suc (io_next io) \<and> io_shutdowns io' = io_shutdowns io"
    using assms(2) u by (auto simp: TcpConnection_write_def Let_def split: if_splits)
  moreover have "uv_is_closing L g u = uv_is_closing L g (io_uv io)" for g
    using closing_other [OF assms(1), of "UvWrite (io_next io) (tc_handle c) (uv_buf m)" g "io_uv io"] u
    by (simp add: uv_do_def)
  ultimately show ?thesis by auto
qed

lemma write_calls:
  assumes "TcpConnection_write L m k c io = (rst, io', cs)"
  shows "calls_by L (\<lambda>x. \<exists>r. x = UvWrite r (tc_handle c) (uv_buf m)) (io_uv io) (io_uv io')"
  using assms
  by (auto simp: TcpConnection_write_def Let_def split: if_splits prod.splits elim!: calls_by_uv)

lemma write_back:
  "TcpConnection_write L m k c io = (rst, io', cs) \<Longrightarrow> tc_connected c \<Longrightarrow>
   \<exists>q. io_uv io' = uv_do L (UvWrite q (tc_handle c) (uv_buf m)) (io_uv io)"
  by (intro exI [of _ "io_next io"])
    (auto simp: TcpConnection_write_def uv_do_def Let_def split: prod.splits if_splits)

end
