(* ===== verification/Tcp_Acceptor.thy ===== *)
theory Tcp_Acceptor
  imports Event_Loop Log_Writer
begin

text \<open>
  The listening socket: \<^verbatim>\<open>ae/tcp_acceptor.h\<close>, \<^verbatim>\<open>ae/tcp_acceptor.cpp\<close>. The new-connection
  callback is a value of \<open>'n\<close>, the close callback one of \<open>'k\<close>. The handle of an accepted client
  is reference counted: \<open>Release\<close> marks the end of the last reference, which frees its memory.
\<close>

section \<open>State and operations\<close>

record ('n, 'k) tcp_acceptor =
  ta_listened :: bool
  ta_tcpNoDelay :: bool
  ta_callback :: "'n option"
  ta_onCloseComplet :: "'k option"
  ta_server :: hid

datatype 'n accept_call = CallNewConnection 'n hid | LogError string | Release hid

definition TcpAcceptor_new ::
    "'u libuv \<Rightarrow> hid \<Rightarrow> bool \<Rightarrow> 'u \<Rightarrow> ('n, 'k) tcp_acceptor \<times> 'u" where
  "TcpAcceptor_new L h tcpNoDelay u =
     (let u = uv_do L (UvTcpInit h) u;
          u = (if tcpNoDelay then uv_do L (UvTcpNodelay h) u else u)
      in (\<lparr>ta_listened = False, ta_tcpNoDelay = tcpNoDelay, ta_callback = None,
           ta_onCloseComplet = None, ta_server = h\<rparr>, u))"

text \<open>Without a callback nobody takes the client over.\<close>

definition TcpAcceptor_on_new_connect :: "hid \<Rightarrow> ('n, 'k) tcp_acceptor \<Rightarrow> 'n accept_call list" where
  "TcpAcceptor_on_new_connect client a = (case ta_callback a of
     Some n \<Rightarrow> [CallNewConnection n client] | None \<Rightarrow> [Release client])"

definition TcpAcceptor_on_close_complete :: "('n, 'k) tcp_acceptor \<Rightarrow> 'k list" where
  "TcpAcceptor_on_close_complete a = calls_of (ta_onCloseComplet a)"

definition TcpAcceptor_bind ::
    "'u libuv \<Rightarrow> socket_addr \<Rightarrow> ('n, 'k) tcp_acceptor \<Rightarrow> 'u \<Rightarrow> (int \<times> 'u) option" where
  "TcpAcceptor_bind L addr a u =
     do { sa \<leftarrow> SocketAddr_addr addr; Some (uv L (UvTcpBind (ta_server a) sa) u) }"

definition TcpAcceptor_listen ::
    "'u libuv \<Rightarrow> ('n, 'k) tcp_acceptor \<times> 'u \<Rightarrow> int \<times> ('n, 'k) tcp_acceptor \<times> 'u" where
  "TcpAcceptor_listen L = (\<lambda>(a, u).
     let (rst, u) = uv L (UvListen (ta_server a) 128) u
     in (rst, if rst = 0 then a\<lparr>ta_listened := True\<rparr> else a, u))"

text \<open>The connection callback handed to \<^verbatim>\<open>uv_listen\<close>; \<open>client\<close> is the address of the new handle.\<close>

definition TcpAcceptor_on_connection ::
    "'u libuv \<Rightarrow> int \<Rightarrow> hid \<Rightarrow> ('n, 'k) tcp_acceptor \<Rightarrow> 'u \<Rightarrow> 'n accept_call list \<times> 'u" where
  "TcpAcceptor_on_connection L status client a u =
     (if status < 0
      then ([LogError (''New connection error :'' @ EventLoop_get_error_message L status)], u)
      else
        let u = uv_do L (UvTcpInit client) u;
            u = (if ta_tcpNoDelay a then uv_do L (UvTcpNodelay client) u else u);
            (rst, u) = uv L (UvAccept (ta_server a) client) u
        in if rst = 0 then (TcpAcceptor_on_new_connect client a, u)
           else ([Release client], uv_do L (UvClose client) u))"

definition TcpAcceptor_is_listen :: "('n, 'k) tcp_acceptor \<Rightarrow> bool" where
  "TcpAcceptor_is_listen a = ta_listened a"

definition TcpAcceptor_close ::
    "'u libuv \<Rightarrow> 'k option \<Rightarrow> ('n, 'k) tcp_acceptor \<times> 'u \<Rightarrow> (('n, 'k) tcp_acceptor \<times> 'u) \<times> 'k list" where
  "TcpAcceptor_close L callback = (\<lambda>(a, u).
     let a = a\<lparr>ta_onCloseComplet := callback\<rparr>;
         h = ta_server a;
         u = (if uv_is_active L h u then uv_do L (UvReadStop h) u else u)
     in if \<not> uv_is_closing L h u then ((a, uv_do L (UvClose h) u), [])
        else ((a, u), TcpAcceptor_on_close_complete a))"

definition TcpAcceptor_is_tcp_no_delay :: "('n, 'k) tcp_acceptor \<Rightarrow> bool" where
  "TcpAcceptor_is_tcp_no_delay a = ta_tcpNoDelay a"

definition TcpAcceptor_set_new_connection_callback ::
    "'n option \<Rightarrow> ('n, 'k) tcp_acceptor \<Rightarrow> ('n, 'k) tcp_acceptor" where
  "TcpAcceptor_set_new_connection_callback callback a = a\<lparr>ta_callback := callback\<rparr>"

lemmas TcpAcceptor_defs =
  TcpAcceptor_new_def TcpAcceptor_on_new_connect_def TcpAcceptor_on_close_complete_def
  TcpAcceptor_bind_def TcpAcceptor_listen_def TcpAcceptor_close_def
  TcpAcceptor_set_new_connection_callback_def

section \<open>Facts\<close>

definition acceptor_ok :: "'u libuv \<times> ('n, 'k) tcp_acceptor \<times> 'u \<Rightarrow> bool" where
  "acceptor_ok = (\<lambda>(L, a, u). uv_laws L)"

definition acceptor_closing :: "'u libuv \<times> ('n, 'k) tcp_acceptor \<times> 'u \<Rightarrow> bool" where
  "acceptor_closing = (\<lambda>(L, a, u). uv_is_closing L (ta_server a) u)"

definition acceptor_close_op :: "'k option \<Rightarrow> 'u libuv \<times> ('n, 'k) tcp_acceptor \<times> 'u \<Rightarrow>
    (('u libuv \<times> ('n, 'k) tcp_acceptor \<times> 'u) \<times> 'k list) option" where
  "acceptor_close_op k = (\<lambda>(L, s). let (s', cs) = TcpAcceptor_close L k s in Some ((L, s'), cs))"

definition acceptor_fired :: "'u libuv \<times> ('n, 'k) tcp_acceptor \<times> 'u \<Rightarrow> 'k list" where
  "acceptor_fired = (\<lambda>(L, a, u). TcpAcceptor_on_close_complete a)"

interpretation ta: closable acceptor_ok acceptor_closing acceptor_close_op acceptor_fired
  by unfold_locales
     (auto simp: acceptor_ok_def acceptor_closing_def acceptor_close_op_def acceptor_fired_def
       TcpAcceptor_close_def TcpAcceptor_on_close_complete_def Let_def uv_simps)

text \<open>What a connection event does; the handles of others are left alone.\<close>

lemma on_connection_cases:
  assumes "uv_laws L" and "TcpAcceptor_on_connection L status client a u = (cs, u')"
  obtains s where "status < 0" "cs = [LogError s]" "u' = u"
  | n where "0 \<le> status" "cs = [CallNewConnection n client]" "ta_callback a = Some n"
      "\<not> uv_is_closing L client u'" "\<And>h. h \<noteq> client \<Longrightarrow> uv_is_closing L h u' = uv_is_closing L h u"
  | "0 \<le> status" "cs = [Release client]" "ta_callback a = None \<or> uv_is_closing L client u'"
      "\<And>h. h \<noteq> client \<Longrightarrow> uv_is_closing L h u' = uv_is_closing L h u"
proof (cases "status < 0")
  case False
  let ?u = "if ta_tcpNoDelay a then uv_do L (UvTcpNodelay client) (uv_do L (UvTcpInit client) u)
    else uv_do L (UvTcpInit client) u"
  obtain rst u1 where acc: "uv L (UvAccept (ta_server a) client) ?u = (rst, u1)" by fastforce
  then have u1: "u1 = uv_do L (UvAccept (ta_server a) client) ?u" by (simp add: uv_do_def)
  have open1: "\<not> uv_is_closing L client u1"
    unfolding u1 using assms(1) by (simp add: uv_simps)
  have others: "uv_is_closing L h u1 = uv_is_closing L h u" if "h \<noteq> client" for h
    unfolding u1 using assms(1) that by (simp add: uv_simps)
  have conn: "(cs, u') = (if rst = 0 then (TcpAcceptor_on_new_connect client a, u1)
      else ([Release client], uv_do L (UvClose client) u1))"
    using assms(2) False acc by (simp add: TcpAcceptor_on_connection_def Let_def)
  show ?thesis
  proof (cases "rst = 0 \<and> ta_callback a \<noteq> None")
    case True
    then obtain n where n: "rst = 0" "ta_callback a = Some n" by auto
    show ?thesis
      by (rule that(2) [of n])
        (use conn open1 others False n in \<open>auto simp: TcpAcceptor_on_new_connect_def\<close>)
  next
    case False
    then show ?thesis
      using conn others assms(1) \<open>\<not> status < 0\<close>
      by (intro that(3)) (auto simp: TcpAcceptor_on_new_connect_def uv_simps split: if_splits)
  qed
next
  case True
  then show ?thesis using assms(2) that(1) by (auto simp: TcpAcceptor_on_connection_def)
qed

text \<open>A connection event hands the client to the callback exactly when the system reports no error,
  \<^verbatim>\<open>uv_accept\<close> succeeds and a callback is set. In every other case in which the handle was made,
  its memory is released by the end of the handler: after a refused accept while libuv is still
  closing it, and without a callback while it is open.\<close>

theorem acceptor_client_handle:
  assumes "uv_laws L" and "TcpAcceptor_on_connection L status client a u = (cs, u')"
  shows "(status < 0 \<longrightarrow> u' = u \<and> length cs = 1 \<and> \<not> (\<exists>h. Release h \<in> set cs)) \<and>
    (0 \<le> status \<longrightarrow>
      (cs = map (\<lambda>n. CallNewConnection n client) (calls_of (ta_callback a)) \<and> cs \<noteq> [] \<and>
         \<not> uv_is_closing L client u') \<or>
      (cs = [Release client] \<and> (ta_callback a = None \<or> uv_is_closing L client u')))"
  using assms by (cases rule: on_connection_cases) auto

theorem acceptor_client_handle_witness:
  "fst (TcpAcceptor_on_connection trace_uv 0 9 (fst (TcpAcceptor_new trace_uv 4 True []) :: (string, unit) tcp_acceptor) []) =
     [Release 9]"
proof -
  let ?a = "fst (TcpAcceptor_new trace_uv 4 True []) :: (string, unit) tcp_acceptor"
  obtain cs u' where r: "TcpAcceptor_on_connection trace_uv 0 9 ?a [] = (cs, u')" by fastforce
  have "ta_callback ?a = None" by (simp add: TcpAcceptor_new_def Let_def)
  with acceptor_client_handle [OF trace_uv_laws r] r show ?thesis by auto
qed

end
