(* ===== verification/Tcp_Server.thy ===== *)
theory Tcp_Server
  imports Tcp_Connection Tcp_Acceptor Timer_Wheel "HOL-Library.List_Lexorder" "HOL-Library.Char_ord"
begin

text \<open>
  The TCP server: \<^verbatim>\<open>ae/tcp_server.h\<close>, \<^verbatim>\<open>ae/tcp_server.cpp\<close>, with the connections, wrappers and
  the wheel it owns. The world is the server object, the heap of connections (by the address of
  their handle, which is the one libuv hands back) and of wrappers, and libuv's state with the
  requests. The callbacks of the application act on the world and are a parameter \<open>app\<close>. A use of
  an object that has been freed is \<open>None\<close>.
\<close>

section \<open>State\<close>

datatype srv_message = SrvMessage
datatype srv_close = SrvCloseConnection
datatype srv_done = SrvCloseDone
datatype srv_accept = SrvOnAccept

type_synonym srv_connection = "(srv_message, srv_close, srv_done) tcp_connection"

text \<open>\<^verbatim>\<open>connnections_\<close> is a sorted association list: \<^verbatim>\<open>std::map\<close> orders its keys by their bytes. The
  address family is uninitialised before \<^verbatim>\<open>listen\<close>. \<open>'a\<close> are the callbacks of the application, \<open>'w\<close>
  its write callbacks, \<open>'s\<close> its state. \<open>sw_released\<close> holds the last state of the objects the server
  has let go, for the references an application may keep to them.\<close>

record ('u, 'w, 'a, 's) world =
  sw_mode :: buffer_mode
  sw_tcpNoDelay :: bool
  sw_ipv :: IPV
  sw_acceptor :: "(srv_accept, 'a) tcp_acceptor option"
  sw_connections :: "(string \<times> hid) list"
  sw_onMessageCallback :: "'a option"
  sw_onNewConnectCallback :: "'a option"
  sw_onConnectCloseCallback :: "'a option"
  sw_wheel :: "(nat, unit) timer_wheel"
  sw_conns :: "hid \<rightharpoonup> srv_connection"
  sw_released :: "hid \<rightharpoonup> srv_connection"
  sw_wrappers :: "nat \<rightharpoonup> hid"
  sw_io :: "('u, 'w) io"
  sw_log :: "(log_level \<times> string) list"
  sw_app :: 's

datatype ('a, 'w) app_call =
    AppMessage 'a hid "byte list"
  | AppNewConnect 'a hid
  | AppConnectClose 'a hid
  | AppServerClosed 'a
  | AppWrite 'w write_info

type_synonym ('u, 'w, 'a, 's) app =
  "('a, 'w) app_call \<Rightarrow> ('u, 'w, 'a, 's) world \<Rightarrow> ('u, 'w, 'a, 's) world option"

abbreviation wuv :: "('u, 'w, 'a, 's) world \<Rightarrow> 'u" where
  "wuv w \<equiv> io_uv (sw_io w)"

definition put_uv :: "'u \<Rightarrow> ('u, 'w, 'a, 's) world \<Rightarrow> ('u, 'w, 'a, 's) world" where
  "put_uv u w = w\<lparr>sw_io := (sw_io w)\<lparr>io_uv := u\<rparr>\<rparr>"

definition put_conn :: "hid \<Rightarrow> srv_connection \<Rightarrow> ('u, 'w, 'a, 's) world \<Rightarrow> ('u, 'w, 'a, 's) world" where
  "put_conn h c w = w\<lparr>sw_conns := (sw_conns w)(h \<mapsto> c)\<rparr>"

definition put_log :: "log_level \<Rightarrow> string \<Rightarrow> ('u, 'w, 'a, 's) world \<Rightarrow> ('u, 'w, 'a, 's) world" where
  "put_log l s w = w\<lparr>sw_log := sw_log w @ [(l, s)]\<rparr>"

text \<open>A callback of the application, when it is set.\<close>

definition app_opt :: "('u, 'w, 'a, 's) app \<Rightarrow> 'a option \<Rightarrow> ('a \<Rightarrow> ('a, 'w) app_call) \<Rightarrow>
    ('u, 'w, 'a, 's) world \<Rightarrow> ('u, 'w, 'a, 's) world option" where
  "app_opt app cb mk w = (case cb of None \<Rightarrow> Some w | Some a \<Rightarrow> app (mk a) w)"

section \<open>The connection table\<close>

definition TcpServer_get_connection :: "string \<Rightarrow> ('u, 'w, 'a, 's) world \<Rightarrow> hid option" where
  "TcpServer_get_connection name w = map_of (sw_connections w) name"

text \<open>\<^verbatim>\<open>std::map::insert\<close> leaves an entry that is there.\<close>

definition TcpServer_add_connection ::
    "string \<Rightarrow> hid \<Rightarrow> ('u, 'w, 'a, 's) world \<Rightarrow> ('u, 'w, 'a, 's) world" where
  "TcpServer_add_connection name h w =
     (if map_of (sw_connections w) name = None
      then w\<lparr>sw_connections := insort_key fst (name, h) (sw_connections w)\<rparr> else w)"

text \<open>The end of a reference to a connection: when the table has none left the server lets the object
  go. It is freed then, unless the application keeps a reference (see \<open>sw_released\<close>).\<close>

definition release :: "hid \<Rightarrow> ('u, 'w, 'a, 's) world \<Rightarrow> ('u, 'w, 'a, 's) world" where
  "release h w = (if h \<in> snd ` set (sw_connections w) then w else (case sw_conns w h of
     None \<Rightarrow> w
   | Some c \<Rightarrow> w\<lparr>sw_conns := (sw_conns w)(h := None), sw_released := (sw_released w)(h \<mapsto> c)\<rparr>))"

definition TcpServer_remove_connection ::
    "string \<Rightarrow> ('u, 'w, 'a, 's) world \<Rightarrow> ('u, 'w, 'a, 's) world" where
  "TcpServer_remove_connection name w = (case map_of (sw_connections w) name of
     None \<Rightarrow> w
   | Some h \<Rightarrow> release h (w\<lparr>sw_connections := AList.delete name (sw_connections w)\<rparr>))"

section \<open>Closing a connection\<close>

text \<open>The function \<^verbatim>\<open>close_connection\<close> hands to \<^verbatim>\<open>TcpConnection::close\<close>.\<close>

definition TcpServer_close_done ::
    "('u, 'w, 'a, 's) app \<Rightarrow> string \<Rightarrow> ('u, 'w, 'a, 's) world \<Rightarrow> ('u, 'w, 'a, 's) world option" where
  "TcpServer_close_done app name w = (case TcpServer_get_connection name w of
     None \<Rightarrow> Some w
   | Some h \<Rightarrow> do {
       w \<leftarrow> app_opt app (sw_onConnectCloseCallback w) (\<lambda>a. AppConnectClose a h) w;
       Some (TcpServer_remove_connection name w) })"

fun run_done :: "('u, 'w, 'a, 's) app \<Rightarrow> (srv_message, srv_close, srv_done, 'w) conn_call list \<Rightarrow>
    ('u, 'w, 'a, 's) world \<Rightarrow> ('u, 'w, 'a, 's) world option" where
  "run_done app [] w = Some w"
| "run_done app (CallCloseComplete SrvCloseDone name # cs) w =
     do { w \<leftarrow> TcpServer_close_done app name w; run_done app cs w }"
| "run_done app (_ # cs) w = run_done app cs w"

definition TcpServer_close_connection ::
    "'u libuv \<Rightarrow> ('u, 'w, 'a, 's) app \<Rightarrow> string \<Rightarrow> ('u, 'w, 'a, 's) world \<Rightarrow> ('u, 'w, 'a, 's) world option" where
  "TcpServer_close_connection L app name w = (case TcpServer_get_connection name w of
     None \<Rightarrow> Some w
   | Some h \<Rightarrow> do {
       c \<leftarrow> sw_conns w h;
       let ((c, u), cs) = TcpConnection_close L (Some SrvCloseDone) (c, wuv w);
       run_done app cs (put_uv u (put_conn h c w)) })"

section \<open>Messages and calls of connections\<close>

definition wheel_alive :: "('u, 'w, 'a, 's) world \<Rightarrow> nat \<Rightarrow> bool" where
  "wheel_alive w x \<longleftrightarrow> x \<in> members (sw_wheel w)"

text \<open>The connection is an argument by shared pointer: it outlives the application's callback.\<close>

definition TcpServer_on_message ::
    "('u, 'w, 'a, 's) app \<Rightarrow> hid \<Rightarrow> byte list \<Rightarrow> ('u, 'w, 'a, 's) world \<Rightarrow> ('u, 'w, 'a, 's) world option" where
  "TcpServer_on_message app h buf w = do {
     c \<leftarrow> sw_conns w h;
     w \<leftarrow> app_opt app (sw_onMessageCallback w) (\<lambda>a. AppMessage a h buf) w;
     let c = (case sw_conns w h of Some c' \<Rightarrow> c' | None \<Rightarrow> c);
     if TimerWheel_get_timeout (sw_wheel w) > 0
     then do {
       wheel \<leftarrow> TimerWheel_insert (TcpConnection_get_wrapper (wheel_alive w) c) (sw_wheel w);
       Some (w\<lparr>sw_wheel := wheel\<rparr>) }
     else Some w }"

fun run_calls :: "'u libuv \<Rightarrow> ('u, 'w, 'a, 's) app \<Rightarrow> hid \<Rightarrow>
    (srv_message, srv_close, srv_done, 'w) conn_call list \<Rightarrow>
    ('u, 'w, 'a, 's) world \<Rightarrow> ('u, 'w, 'a, 's) world option" where
  "run_calls L app h [] w = Some w"
| "run_calls L app h (c # cs) w = do {
     w \<leftarrow> (case c of
        CallMessage SrvMessage buf \<Rightarrow> TcpServer_on_message app h buf w
      | CallConnectClose SrvCloseConnection name \<Rightarrow> TcpServer_close_connection L app name w
      | CallCloseComplete SrvCloseDone name \<Rightarrow> TcpServer_close_done app name w
      | CallWrite f info \<Rightarrow> app (AppWrite f info) w
      | Log l s \<Rightarrow> Some (put_log l s w));
     run_calls L app h cs w }"

section \<open>Operations of the server\<close>

definition TcpServer_set_buffer_mode :: "buffer_mode \<Rightarrow> ('u, 'w, 'a, 's) world \<Rightarrow> ('u, 'w, 'a, 's) world" where
  "TcpServer_set_buffer_mode mode w = w\<lparr>sw_mode := mode\<rparr>"

definition TcpServer_set_timeout :: "u32 \<Rightarrow> ('u, 'w, 'a, 's) world \<Rightarrow> ('u, 'w, 'a, 's) world" where
  "TcpServer_set_timeout seconds w = w\<lparr>sw_wheel := TimerWheel_set_timeout seconds (sw_wheel w)\<rparr>"

definition TcpServer_set_new_connect_callback ::
    "'a option \<Rightarrow> ('u, 'w, 'a, 's) world \<Rightarrow> ('u, 'w, 'a, 's) world" where
  "TcpServer_set_new_connect_callback callback w = w\<lparr>sw_onNewConnectCallback := callback\<rparr>"

definition TcpServer_set_connect_close_callback ::
    "'a option \<Rightarrow> ('u, 'w, 'a, 's) world \<Rightarrow> ('u, 'w, 'a, 's) world" where
  "TcpServer_set_connect_close_callback callback w = w\<lparr>sw_onConnectCloseCallback := callback\<rparr>"

definition TcpServer_set_message_callback ::
    "'a option \<Rightarrow> ('u, 'w, 'a, 's) world \<Rightarrow> ('u, 'w, 'a, 's) world" where
  "TcpServer_set_message_callback callback w = w\<lparr>sw_onMessageCallback := callback\<rparr>"

definition TcpServer_new :: "'u libuv \<Rightarrow> buffer_mode \<Rightarrow> IPV \<Rightarrow> bool \<Rightarrow> ('u, 'w) io \<Rightarrow> 's \<Rightarrow> ('u, 'w, 'a, 's) world" where
  "TcpServer_new L mode junk tcpNoDelay io s =
     (let (wheel, u) = TimerWheel_new L (io_next io) () 0 (io_uv io) in
      \<lparr>sw_mode = mode, sw_tcpNoDelay = tcpNoDelay, sw_ipv = junk, sw_acceptor = None,
       sw_connections = [], sw_onMessageCallback = None, sw_onNewConnectCallback = None,
       sw_onConnectCloseCallback = None, sw_wheel = wheel, sw_conns = Map.empty, sw_released = Map.empty,
       sw_wrappers = Map.empty, sw_io = io\<lparr>io_uv := u, io_next := Suc (io_next io)\<rparr>,
       sw_log = [], sw_app = s\<rparr>)"

definition TcpServer_listen ::
    "'u libuv \<Rightarrow> socket_addr \<Rightarrow> ('u, 'w, 'a, 's) world \<Rightarrow> (int \<times> ('u, 'w, 'a, 's) world) option" where
  "TcpServer_listen L addr w = do {
     let w = w\<lparr>sw_ipv := SocketAddr_ipv addr\<rparr>;
     let h = io_next (sw_io w);
     let (acc, u) = TcpAcceptor_new L h (sw_tcpNoDelay w) (wuv w);
     let w = w\<lparr>sw_io := (sw_io w)\<lparr>io_next := Suc h\<rparr>\<rparr>;
     (rst, u) \<leftarrow> TcpAcceptor_bind L addr acc u;
     if rst \<noteq> 0 then Some (rst, put_uv u w\<lparr>sw_acceptor := Some acc\<rparr>)
     else do {
       let acc = TcpAcceptor_set_new_connection_callback (Some SrvOnAccept) acc;
       (wheel, u) \<leftarrow> TimerWheel_start L (sw_wheel w, u);
       let (rst, acc, u) = TcpAcceptor_listen L (acc, u);
       Some (rst, put_uv u w\<lparr>sw_acceptor := Some acc, sw_wheel := wheel\<rparr>) } }"

text \<open>A new client, with the address of its handle.\<close>

definition TcpServer_on_accept ::
    "'u libuv \<Rightarrow> addr_lib \<Rightarrow> ('u, 'w, 'a, 's) app \<Rightarrow> hid \<Rightarrow> ('u, 'w, 'a, 's) world \<Rightarrow> ('u, 'w, 'a, 's) world option" where
  "TcpServer_on_accept L A app client w = do {
     key \<leftarrow> SocketAddr_addr_to_str A (uv_getpeername L client (wuv w)) (sw_ipv w);
     let w = put_log Debug (''new connect  '' @ key) w;
     let (c, u) = TcpConnection_new L (sw_mode w) key client True (wuv w);
     let c = TcpConnection_set_message_callback (Some SrvMessage) c;
     let c = TcpConnection_set_connect_close_callback (Some SrvCloseConnection) c;
     let w = TcpServer_add_connection key client (put_uv u (put_conn client c w));
     w \<leftarrow> (if TimerWheel_get_timeout (sw_wheel w) > 0
       then do {
         let x = io_next (sw_io w);
         let w = w\<lparr>sw_io := (sw_io w)\<lparr>io_next := Suc x\<rparr>, sw_wrappers := (sw_wrappers w)(x \<mapsto> client)\<rparr>;
         let w = put_conn client (TcpConnection_set_wrapper (Some x) c) w;
         wheel \<leftarrow> TimerWheel_insert (Some x) (sw_wheel w);
         Some (w\<lparr>sw_wheel := wheel\<rparr>) }
       else Some w);
     w \<leftarrow> app_opt app (sw_onNewConnectCallback w) (\<lambda>a. AppNewConnect a client) w;
     Some (release client w) }"

text \<open>The writes of a server have an \<^verbatim>\<open>unsigned int\<close> size: what the caller gives is cut to it.\<close>

definition TcpServer_write ::
    "'u libuv \<Rightarrow> ('u, 'w, 'a, 's) app \<Rightarrow> hid option \<Rightarrow> byte list \<Rightarrow> 'w option \<Rightarrow> ('u, 'w, 'a, 's) world \<Rightarrow>
     ('u, 'w, 'a, 's) world option" where
  "TcpServer_write L app connection sbuf callback w = (let buf = uv_buf sbuf in case connection of
     Some h \<Rightarrow> do {
       c \<leftarrow> sw_conns w h;
       let (rst, io, cs) = TcpConnection_write L buf callback c (sw_io w);
       run_calls L app h cs (w\<lparr>sw_io := io\<rparr>) }
   | None \<Rightarrow> (case callback of
       Some f \<Rightarrow> app (AppWrite f \<lparr>wi_status = Disconnected, wi_buf = buf, wi_size = of_nat (length buf)\<rparr>) w
     | None \<Rightarrow> Some w))"

definition TcpServer_write_name ::
    "'u libuv \<Rightarrow> ('u, 'w, 'a, 's) app \<Rightarrow> string \<Rightarrow> byte list \<Rightarrow> 'w option \<Rightarrow> ('u, 'w, 'a, 's) world \<Rightarrow>
     ('u, 'w, 'a, 's) world option" where
  "TcpServer_write_name L app name buf callback w =
     TcpServer_write L app (TcpServer_get_connection name w) buf callback w"

text \<open>The part of \<^verbatim>\<open>write_in_loop\<close> that runs in the calling thread: the function to post to the loop,
  with the connection it refers to, or the report of a missing connection.\<close>

definition TcpServer_write_in_loop ::
    "('u, 'w, 'a, 's) app \<Rightarrow> hid option \<Rightarrow> byte list \<Rightarrow> 'w option \<Rightarrow> ('u, 'w, 'a, 's) world \<Rightarrow>
     ((hid \<times> byte list \<times> 'w option) option \<times> ('u, 'w, 'a, 's) world) option" where
  "TcpServer_write_in_loop app connection sbuf callback w = (let buf = uv_buf sbuf in case connection of
     Some h \<Rightarrow> Some (Some (h, buf, callback), w)
   | None \<Rightarrow> (case callback of
       Some f \<Rightarrow> do {
         w \<leftarrow> app (AppWrite f \<lparr>wi_status = Disconnected, wi_buf = buf, wi_size = of_nat (length buf)\<rparr>)
               (put_log Warn ''try write a disconnect connection.'' w);
         Some (None, w) }
     | None \<Rightarrow> Some (None, w)))"

definition TcpServer_write_in_loop_name ::
    "('u, 'w, 'a, 's) app \<Rightarrow> string \<Rightarrow> byte list \<Rightarrow> 'w option \<Rightarrow> ('u, 'w, 'a, 's) world \<Rightarrow>
     ((hid \<times> byte list \<times> 'w option) option \<times> ('u, 'w, 'a, 's) world) option" where
  "TcpServer_write_in_loop_name app name buf callback w =
     TcpServer_write_in_loop app (TcpServer_get_connection name w) buf callback w"

text \<open>The function runs in the loop.\<close>

definition run_posted_write ::
    "'u libuv \<Rightarrow> ('u, 'w, 'a, 's) app \<Rightarrow> hid \<times> byte list \<times> 'w option \<Rightarrow> ('u, 'w, 'a, 's) world \<Rightarrow>
     ('u, 'w, 'a, 's) world option" where
  "run_posted_write L app = (\<lambda>(h, buf, callback) w. do {
     (io, cs) \<leftarrow> TcpConnection_write_in_loop L buf callback (sw_conns w h) (sw_io w);
     run_calls L app h cs (w\<lparr>sw_io := io\<rparr>) })"

text \<open>Closing the server: the acceptor first, then, when its handle is closed, every connection of the
  table in order, then the callback. The loop over \<^verbatim>\<open>std::map\<close> goes wrong when the body erases the
  entry it stands at: \<open>None\<close>.\<close>

fun close_all ::
    "'u libuv \<Rightarrow> ('u, 'w, 'a, 's) app \<Rightarrow> (string \<times> hid) list \<Rightarrow> ('u, 'w, 'a, 's) world \<Rightarrow>
     ('u, 'w, 'a, 's) world option" where
  "close_all L app [] w = Some w"
| "close_all L app ((name, h) # rest) w = do {
     c \<leftarrow> sw_conns w h;
     w \<leftarrow> run_calls L app h (TcpConnection_on_socket_close c) w;
     (if map_of (sw_connections w) name = Some h then close_all L app rest w else None) }"

definition server_closed ::
    "'u libuv \<Rightarrow> ('u, 'w, 'a, 's) app \<Rightarrow> 'a list \<Rightarrow> ('u, 'w, 'a, 's) world \<Rightarrow> ('u, 'w, 'a, 's) world option" where
  "server_closed L app cs w = (case cs of
     [] \<Rightarrow> Some w
   | callback # _ \<Rightarrow> do {
       w \<leftarrow> close_all L app (sw_connections w) w;
       app (AppServerClosed callback) w })"

definition TcpServer_close ::
    "'u libuv \<Rightarrow> ('u, 'w, 'a, 's) app \<Rightarrow> 'a \<Rightarrow> ('u, 'w, 'a, 's) world \<Rightarrow> ('u, 'w, 'a, 's) world option" where
  "TcpServer_close L app callback w = (case sw_acceptor w of
     None \<Rightarrow> Some w
   | Some acc \<Rightarrow>
       let ((acc, u), cs) = TcpAcceptor_close L (Some callback) (acc, wuv w)
       in server_closed L app cs (put_uv u w\<lparr>sw_acceptor := Some acc\<rparr>))"

section \<open>Events\<close>

text \<open>What libuv reports: a connection event of the listening handle, a receive event, the closing of
  a connection's handle, the end of a shutdown or a write, a turn of the wheel, the closing of
  the listening handle.\<close>

datatype srv_event =
    Accepted int hid
  | Received hid int "byte list"
  | Closed hid
  | ShutdownDone rid
  | WriteCompleted rid int
  | WheelTurn
  | AcceptorClosed

fun accept_calls ::
    "'u libuv \<Rightarrow> addr_lib \<Rightarrow> ('u, 'w, 'a, 's) app \<Rightarrow> srv_accept accept_call list \<Rightarrow>
     ('u, 'w, 'a, 's) world \<Rightarrow> ('u, 'w, 'a, 's) world option" where
  "accept_calls L A app [] w = Some w"
| "accept_calls L A app (c # cs) w = do {
     w \<leftarrow> (case c of
        CallNewConnection SrvOnAccept h \<Rightarrow> TcpServer_on_accept L A app h w
      | LogError s \<Rightarrow> Some (put_log Error s w)
      | Release h \<Rightarrow> Some w);
     accept_calls L A app cs w }"

text \<open>The destructors of the wrappers the wheel has dropped, in the order of the set.\<close>

fun drop_wrappers ::
    "'u libuv \<Rightarrow> ('u, 'w, 'a, 's) app \<Rightarrow> nat list \<Rightarrow> ('u, 'w, 'a, 's) world \<Rightarrow> ('u, 'w, 'a, 's) world option" where
  "drop_wrappers L app [] w = Some w"
| "drop_wrappers L app (x # xs) w = do {
     h \<leftarrow> sw_wrappers w x;
     w \<leftarrow> run_calls L app h (ConnectionWrapper_destroy (sw_conns w h)) (w\<lparr>sw_wrappers := (sw_wrappers w)(x := None)\<rparr>);
     drop_wrappers L app xs w }"

definition wheel_turn ::
    "'u libuv \<Rightarrow> ('u, 'w, 'a, 's) app \<Rightarrow> ('u, 'w, 'a, 's) world \<Rightarrow> ('u, 'w, 'a, 's) world option" where
  "wheel_turn L app w = do {
     wheel \<leftarrow> TimerWheel_wheel_callback (sw_wheel w);
     drop_wrappers L app (sorted_list_of_set (members (sw_wheel w) - members wheel)) (w\<lparr>sw_wheel := wheel\<rparr>) }"

text \<open>The handle of a new client is allocated in the callback: its address is taken from then on.\<close>

definition TcpServer_event ::
    "'u libuv \<Rightarrow> addr_lib \<Rightarrow> ('u, 'w, 'a, 's) app \<Rightarrow> srv_event \<Rightarrow> ('u, 'w, 'a, 's) world \<Rightarrow>
     ('u, 'w, 'a, 's) world option" where
  "TcpServer_event L A app e w = (case e of
     Accepted status client \<Rightarrow> do {
       acc \<leftarrow> sw_acceptor w;
       let (cs, u) = TcpAcceptor_on_connection L status client acc (wuv w);
       let w = w\<lparr>sw_io := (sw_io w)\<lparr>io_next := max (io_next (sw_io w)) (Suc client)\<rparr>\<rparr>;
       accept_calls L A app cs (put_uv u w) }
   | Received h nread buf \<Rightarrow> do {
       c \<leftarrow> sw_conns w h;
       let ((c, io), cs) = TcpConnection_on_mesage_receive L nread buf c (sw_io w);
       run_calls L app h cs (put_conn h c w\<lparr>sw_io := io\<rparr>) }
   | Closed h \<Rightarrow> do {
       c \<leftarrow> sw_conns w h;
       run_calls L app h (TcpConnection_close_complete c) w }
   | ShutdownDone r \<Rightarrow> do {
       h \<leftarrow> map_of (io_shutdowns (sw_io w)) r;
       cs \<leftarrow> shutdown_done (sw_conns w h);
       run_calls L app h cs (w\<lparr>sw_io := (sw_io w)\<lparr>io_shutdowns := AList.delete r (io_shutdowns (sw_io w))\<rparr>\<rparr>) }
   | WriteCompleted r status \<Rightarrow> do {
       (io, cs) \<leftarrow> write_done r status (sw_io w);
       run_calls L app 0 cs (w\<lparr>sw_io := io\<rparr>) }
   | WheelTurn \<Rightarrow> wheel_turn L app w
   | AcceptorClosed \<Rightarrow> do {
       acc \<leftarrow> sw_acceptor w;
       server_closed L app (TcpAcceptor_on_close_complete acc) w })"

section \<open>References of the application\<close>

text \<open>A connection the application refers to: in the server's heap or, let go by the server, alive by
  this reference.\<close>

definition held :: "hid \<Rightarrow> ('u, 'w, 'a, 's) world \<Rightarrow> srv_connection option" where
  "held h w = (case sw_conns w h of Some c \<Rightarrow> Some c | None \<Rightarrow> sw_released w h)"

definition put_held :: "hid \<Rightarrow> srv_connection \<Rightarrow> ('u, 'w, 'a, 's) world \<Rightarrow> ('u, 'w, 'a, 's) world" where
  "put_held h c w = (if sw_conns w h \<noteq> None then put_conn h c w
     else w\<lparr>sw_released := (sw_released w)(h \<mapsto> c)\<rparr>)"

text \<open>The calls a connection makes inside a write or a close the application has given no callback:
  errors it logs.\<close>

fun log_calls :: "(srv_message, srv_close, srv_done, 'w) conn_call list \<Rightarrow>
    ('u, 'w, 'a, 's) world \<Rightarrow> ('u, 'w, 'a, 's) world" where
  "log_calls [] w = w"
| "log_calls (Log l s # cs) w = log_calls cs (put_log l s w)"
| "log_calls (_ # cs) w = log_calls cs w"

lemma held_same: "sw_conns w' = sw_conns w \<Longrightarrow> sw_released w' = sw_released w \<Longrightarrow> held h w' = held h w"
  by (simp add: held_def split: option.split)

lemma log_calls_same [simp]:
  "sw_io (log_calls cs w) = sw_io w" "sw_app (log_calls cs w) = sw_app w"
  "sw_connections (log_calls cs w) = sw_connections w" "sw_conns (log_calls cs w) = sw_conns w"
  "sw_released (log_calls cs w) = sw_released w" "sw_wheel (log_calls cs w) = sw_wheel w"
  "sw_wrappers (log_calls cs w) = sw_wrappers w"
  by (induction cs w rule: log_calls.induct) (simp_all add: put_log_def)

end
