(* ===== verification/Tcp_Server_Safety.thy ===== *)
theory Tcp_Server_Safety
  imports Tcp_Server
begin

text \<open>
  The invariant of the TCP server and what follows from it: connections in the table are alive,
  live connections are in the table, a connection whose handle is closing is detached, so that
  the closing of a connection is begun once. It is completed by the server, unless the application
  has closed the connection itself and without a callback.
\<close>

section \<open>The invariant\<close>

definition conn_inv :: "'u libuv \<Rightarrow> 'u \<Rightarrow> hid \<Rightarrow> srv_connection \<Rightarrow> bool" where
  "conn_inv L u h c \<longleftrightarrow> tc_handle c = h \<and>
     (if uv_is_closing L h u
      then tc_onMessageCallback c = None \<and> tc_onConnectCloseCallback c = None
      else tc_onMessageCallback c = Some SrvMessage \<and>
        tc_onConnectCloseCallback c = Some SrvCloseConnection)"

definition table_inv :: "'u libuv \<Rightarrow> ('u, 'w, 'a, 's) world \<Rightarrow> bool" where
  "table_inv L w \<longleftrightarrow> distinct (map fst (sw_connections w)) \<and>
     (\<forall>name h. map_of (sw_connections w) name = Some h \<longrightarrow> (\<exists>c. sw_conns w h = Some c \<and> tc_name c = name)) \<and>
     (\<forall>h c. sw_conns w h = Some c \<longrightarrow>
        map_of (sw_connections w) (tc_name c) = Some h \<and> conn_inv L (wuv w) h c)"

definition idle_inv :: "('u, 'w, 'a, 's) world \<Rightarrow> bool" where
  "idle_inv w \<longleftrightarrow> (tw_timeoutSec (sw_wheel w) = 0 \<or> wheel_ok (sw_wheel w)) \<and>
     finite (members (sw_wheel w)) \<and> (\<forall>x \<in> members (sw_wheel w). sw_wrappers w x \<noteq> None)"

text \<open>The addresses of handles are taken; an object the server has let go is still at its address.\<close>

definition heap_inv :: "('u, 'w, 'a, 's) world \<Rightarrow> bool" where
  "heap_inv w \<longleftrightarrow> (\<forall>h. sw_conns w h \<noteq> None \<longrightarrow> h < io_next (sw_io w)) \<and>
     (\<forall>h c. sw_released w h = Some c \<longrightarrow> tc_handle c = h)"

definition server_inv :: "'u libuv \<Rightarrow> ('u, 'w, 'a, 's) world \<Rightarrow> bool" where
  "server_inv L w \<longleftrightarrow> table_inv L w \<and> idle_inv w \<and> heap_inv w"

text \<open>A step that frees no connection and reopens no handle.\<close>

definition keeps :: "'u libuv \<Rightarrow> ('u, 'w, 'a, 's) world \<Rightarrow> ('u, 'w, 'a, 's) world \<Rightarrow> bool" where
  "keeps L w w' \<longleftrightarrow> (\<forall>h. map_option tc_name (sw_conns w' h) = map_option tc_name (sw_conns w h)) \<and>
     (\<forall>h. sw_conns w h \<noteq> None \<longrightarrow> uv_is_closing L h (wuv w) \<longrightarrow> uv_is_closing L h (wuv w'))"

text \<open>What the server calls back with: connections that are alive, and messages the peers send (\<open>V\<close>).\<close>

fun call_ok :: "(byte list \<Rightarrow> bool) \<Rightarrow> ('a, 'w) app_call \<Rightarrow> ('u, 'w, 'a, 's) world \<Rightarrow> bool" where
  "call_ok V (AppMessage a h buf) w \<longleftrightarrow> sw_conns w h \<noteq> None \<and> V buf"
| "call_ok V (AppNewConnect a h) w \<longleftrightarrow> sw_conns w h \<noteq> None"
| "call_ok V (AppConnectClose a h) w \<longleftrightarrow> sw_conns w h \<noteq> None"
| "call_ok V (AppServerClosed a) w \<longleftrightarrow> True"
| "call_ok V (AppWrite f i) w \<longleftrightarrow> True"

text \<open>What is asked of the application: its callbacks return, they may use the server as they like
  as long as they keep the invariant, and they do not free connections themselves.\<close>

definition app_ok :: "'u libuv \<Rightarrow> (byte list \<Rightarrow> bool) \<Rightarrow> ('u, 'w, 'a, 's) app \<Rightarrow> bool" where
  "app_ok L V app \<longleftrightarrow> (\<forall>x w. server_inv L w \<longrightarrow> call_ok V x w \<longrightarrow>
     (\<exists>w'. app x w = Some w' \<and> server_inv L w' \<and> keeps L w w'))"

lemma keeps_refl [simp]: "keeps L w w"
  by (simp add: keeps_def)

lemma keeps_dom: "keeps L w w' \<Longrightarrow> sw_conns w' h = None \<longleftrightarrow> sw_conns w h = None"
  unfolding keeps_def by (metis option.map_disc_iff)

lemma keeps_trans: "keeps L w w1 \<Longrightarrow> keeps L w1 w2 \<Longrightarrow> keeps L w w2"
  using keeps_dom [of L w w1] by (simp add: keeps_def)

lemma app_opt_ok:
  assumes "app_ok L V app" "server_inv L w" "\<And>a. call_ok V (mk a) w"
  shows "\<exists>w'. app_opt app cb mk w = Some w' \<and> server_inv L w' \<and> keeps L w w'"
  using assms by (cases cb) (auto simp: app_opt_def app_ok_def)

lemma table_entry:
  "table_inv L w \<Longrightarrow> map_of (sw_connections w) name = Some h \<Longrightarrow> \<exists>c. sw_conns w h = Some c \<and> tc_name c = name"
  by (simp add: table_inv_def)

lemma table_conn:
  "table_inv L w \<Longrightarrow> sw_conns w h = Some c \<Longrightarrow>
   map_of (sw_connections w) (tc_name c) = Some h \<and> conn_inv L (wuv w) h c"
  by (simp add: table_inv_def)

lemma table_invI:
  assumes "distinct (map fst (sw_connections w))"
    and "\<And>name h. map_of (sw_connections w) name = Some h \<Longrightarrow> \<exists>c. sw_conns w h = Some c \<and> tc_name c = name"
    and "\<And>h c. sw_conns w h = Some c \<Longrightarrow>
      map_of (sw_connections w) (tc_name c) = Some h \<and> conn_inv L (wuv w) h c"
  shows "table_inv L w"
  using assms unfolding table_inv_def by blast

lemma table_distinct: "table_inv L w \<Longrightarrow> distinct (map fst (sw_connections w))"
  by (simp add: table_inv_def)

text \<open>Steps that change one connection, or none.\<close>

lemma table_inv_update:
  assumes "table_inv L w" "sw_conns w h = Some c" "tc_name c' = tc_name c"
    and "sw_connections w' = sw_connections w" "sw_conns w' = (sw_conns w)(h \<mapsto> c')"
    and "conn_inv L (wuv w') h c'"
    and "\<And>g. g \<noteq> h \<Longrightarrow> uv_is_closing L g (wuv w') = uv_is_closing L g (wuv w)"
  shows "table_inv L w'"
proof (rule table_invI)
  show "distinct (map fst (sw_connections w'))"
    using table_distinct [OF assms(1)] assms(4) by simp
next
  fix name g assume "map_of (sw_connections w') name = Some g"
  then show "\<exists>d. sw_conns w' g = Some d \<and> tc_name d = name"
    using table_entry [OF assms(1), of name g] assms(2-5) by (cases "g = h") auto
next
  fix g d assume d: "sw_conns w' g = Some d"
  show "map_of (sw_connections w') (tc_name d) = Some g \<and> conn_inv L (wuv w') g d"
  proof (cases "g = h")
    case True
    then show ?thesis using d table_conn [OF assms(1,2)] assms(3-6) by simp
  next
    case False
    then have "sw_conns w g = Some d" using d assms(5) by simp
    then show ?thesis using table_conn [OF assms(1), of g d] assms(4) assms(7) [OF False]
      by (simp add: conn_inv_def)
  qed
qed

lemma table_inv_same:
  assumes "table_inv L w" "sw_connections w' = sw_connections w" "sw_conns w' = sw_conns w"
    and "\<And>g. sw_conns w g \<noteq> None \<Longrightarrow> uv_is_closing L g (wuv w') = uv_is_closing L g (wuv w)"
  shows "table_inv L w'"
proof (rule table_invI)
  fix g d assume "sw_conns w' g = Some d"
  then have d: "sw_conns w g = Some d" using assms(3) by simp
  then show "map_of (sw_connections w') (tc_name d) = Some g \<and> conn_inv L (wuv w') g d"
    using table_conn [OF assms(1) d] assms(2) assms(4) [of g] by (simp add: conn_inv_def)
qed (use assms table_distinct [OF assms(1)] table_entry [OF assms(1)] in simp_all)

lemma heap_inv_same:
  "heap_inv w \<Longrightarrow> (\<And>h. sw_conns w' h \<noteq> None \<Longrightarrow> sw_conns w h \<noteq> None) \<Longrightarrow> sw_released w' = sw_released w \<Longrightarrow>
   io_next (sw_io w) \<le> io_next (sw_io w') \<Longrightarrow> heap_inv w'"
  unfolding heap_inv_def by (auto intro: order.strict_trans2)

lemma idle_inv_same:
  "idle_inv w \<Longrightarrow> sw_wheel w' = sw_wheel w \<Longrightarrow> sw_wrappers w' = sw_wrappers w \<Longrightarrow> idle_inv w'"
  by (simp add: idle_inv_def)

lemma server_inv_same:
  assumes "server_inv L w" "sw_connections w' = sw_connections w" "sw_conns w' = sw_conns w"
    "sw_wheel w' = sw_wheel w" "sw_wrappers w' = sw_wrappers w" "sw_released w' = sw_released w"
    "io_next (sw_io w) \<le> io_next (sw_io w')"
    and "\<And>g. sw_conns w g \<noteq> None \<Longrightarrow> uv_is_closing L g (wuv w') = uv_is_closing L g (wuv w)"
  shows "server_inv L w' \<and> keeps L w w'"
  using assms table_inv_same [of L w w'] idle_inv_same [of w w'] heap_inv_same [of w w']
  by (simp add: server_inv_def keeps_def)

lemma put_log_inv: "server_inv L w \<Longrightarrow> server_inv L (put_log l s w) \<and> keeps L w (put_log l s w)"
  by (rule server_inv_same) (simp_all add: put_log_def)

section \<open>Closing\<close>

text \<open>A connection that is told that its socket is lost begins to close, unless it does already; the
  application is not called.\<close>

lemma close_call:
  fixes w :: "('u, 'w, 'a, 's) world"
  assumes laws: "uv_laws L" and inv: "server_inv L w" and c: "sw_conns w h = Some c"
  shows "\<exists>w'. run_calls L app k (TcpConnection_on_socket_close c) w = Some w' \<and> server_inv L w' \<and>
    keeps L w w' \<and> uv_is_closing L h (wuv w') \<and> sw_wheel w' = sw_wheel w \<and>
    sw_wrappers w' = sw_wrappers w \<and> sw_connections w' = sw_connections w \<and>
    (\<forall>g. g \<noteq> h \<longrightarrow> uv_is_closing L g (wuv w') = uv_is_closing L g (wuv w)) \<and>
    sw_onConnectCloseCallback w' = sw_onConnectCloseCallback w"
proof (cases "uv_is_closing L h (wuv w)")
  case True
  then have "tc_onConnectCloseCallback c = None"
    using table_conn [of L w h c] inv c by (simp add: server_inv_def conn_inv_def)
  then show ?thesis using inv True by (simp add: TcpConnection_on_socket_close_def)
next
  case False
  have ci: "conn_inv L (wuv w) h c" "map_of (sw_connections w) (tc_name c) = Some h" "tc_handle c = h"
    using table_conn [of L w h c] inv c by (auto simp: server_inv_def conn_inv_def)
  then have cb: "tc_onConnectCloseCallback c = Some SrvCloseConnection"
    using False by (simp add: conn_inv_def)
  obtain c' u and cs :: "(srv_message, srv_close, srv_done, 'w) conn_call list" where
    cl: "TcpConnection_close L (Some SrvCloseDone) (c, wuv w) = ((c', u), cs)"
    by (metis prod.collapse)
  note o = close_open [OF laws _ cl, unfolded ci(3), OF False]
  let ?w = "put_uv u (put_conn h c' w)"
  have run: "run_calls L app k (TcpConnection_on_socket_close c) w = Some ?w"
    using cb ci c cl o
    by (simp add: TcpConnection_on_socket_close_def TcpServer_close_connection_def TcpServer_get_connection_def)
  have w': "sw_connections ?w = sw_connections w" "sw_conns ?w = (sw_conns w)(h \<mapsto> c')" "wuv ?w = u"
    "sw_wheel ?w = sw_wheel w" "sw_wrappers ?w = sw_wrappers w"
    "sw_onConnectCloseCallback ?w = sw_onConnectCloseCallback w" "sw_released ?w = sw_released w"
    "io_next (sw_io ?w) = io_next (sw_io w)"
    by (simp_all add: put_uv_def put_conn_def)
  have "heap_inv ?w"
    using inv c w' by (intro heap_inv_same [of w ?w]) (auto simp: server_inv_def split: if_splits)
  moreover have "conn_inv L u h c'" "tc_name c' = tc_name c"
    using o ci(3) by (simp_all add: conn_inv_def close_object [OF cl])
  ultimately have "server_inv L ?w"
    using inv c w' o table_inv_update [of L w h c c' ?w] idle_inv_same [of w ?w]
    by (simp add: server_inv_def)
  moreover have "keeps L w ?w"
    using c w' o False \<open>tc_name c' = tc_name c\<close> by (auto simp: keeps_def)
  ultimately show ?thesis
    using run w' o by (intro exI [of _ ?w]) simp
qed

text \<open>libuv has closed the handle of a connection: the application is told, the entry is removed and
  the object freed.\<close>

lemma release_last:
  assumes "table_inv L w" "map_of (sw_connections w) name = Some h"
  shows "TcpServer_remove_connection name w =
    w\<lparr>sw_connections := AList.delete name (sw_connections w), sw_conns := (sw_conns w)(h := None),
      sw_released := (sw_released w)(h := sw_conns w h)\<rparr>"
proof -
  obtain c where c: "sw_conns w h = Some c" "tc_name c = name" using table_entry [OF assms] by blast
  have "h \<notin> snd ` set (AList.delete name (sw_connections w))"
  proof
    assume "h \<in> snd ` set (AList.delete name (sw_connections w))"
    then obtain n where n: "(n, h) \<in> set (sw_connections w)" "n \<noteq> name"
      by (auto simp: AList.delete_eq)
    then have "map_of (sw_connections w) n = Some h"
      using assms(1) by (simp add: table_inv_def)
    then show False using table_entry [OF assms(1)] c n(2) by fastforce
  qed
  then show ?thesis using assms(2) c by (simp add: TcpServer_remove_connection_def release_def)
qed

lemma remove_inv:
  assumes "table_inv L w" "map_of (sw_connections w) name = Some h"
  shows "table_inv L (w\<lparr>sw_connections := AList.delete name (sw_connections w), sw_conns := (sw_conns w)(h := None),
      sw_released := (sw_released w)(h := sw_conns w h)\<rparr>)"
proof -
  obtain c where c: "sw_conns w h = Some c" "tc_name c = name" using table_entry [OF assms] by blast
  let ?w = "w\<lparr>sw_connections := AList.delete name (sw_connections w), sw_conns := (sw_conns w)(h := None),
      sw_released := (sw_released w)(h := sw_conns w h)\<rparr>"
  have del: "map_of (sw_connections ?w) n = (if n = name then None else map_of (sw_connections w) n)" for n
    by (simp add: AList.delete_conv)
  show ?thesis
  proof (rule table_invI)
    show "distinct (map fst (sw_connections ?w))"
      using table_distinct [OF assms(1)] by (simp add: AList.distinct_delete)
  next
    fix n g assume "map_of (sw_connections ?w) n = Some g"
    then have "map_of (sw_connections w) n = Some g" "n \<noteq> name"
      unfolding del by (auto split: if_splits)
    then show "\<exists>d. sw_conns ?w g = Some d \<and> tc_name d = n"
      using table_entry [OF assms(1), of n g] c by (cases "g = h") auto
  next
    fix g d assume "sw_conns ?w g = Some d"
    then have d: "sw_conns w g = Some d" "g \<noteq> h" by (auto split: if_splits)
    then have "tc_name d \<noteq> name" using table_conn [OF assms(1) d(1)] assms(2) by auto
    then show "map_of (sw_connections ?w) (tc_name d) = Some g \<and> conn_inv L (wuv ?w) g d"
      unfolding del using table_conn [OF assms(1) d(1)] by simp
  qed
qed

lemma close_done:
  assumes app: "app_ok L V app" and inv: "server_inv L w"
    and c: "sw_conns w h = Some c" "tc_closeCompleteCallback c = Some SrvCloseDone"
  shows "\<exists>w1 w'. app_opt app (sw_onConnectCloseCallback w) (\<lambda>a. AppConnectClose a h) w = Some w1 \<and>
    keeps L w w1 \<and> server_inv L w1 \<and>
    run_calls L app k (TcpConnection_close_complete c) w = Some w' \<and>
    w' = w1\<lparr>sw_connections := AList.delete (tc_name c) (sw_connections w1), sw_conns := (sw_conns w1)(h := None),
      sw_released := (sw_released w1)(h := sw_conns w1 h)\<rparr> \<and>
    server_inv L w'"
proof -
  have ci: "conn_inv L (wuv w) h c" "map_of (sw_connections w) (tc_name c) = Some h"
    using table_conn [of L w h c] inv c by (auto simp: server_inv_def)
  note cb = c(2)
  obtain w1 where w1: "app_opt app (sw_onConnectCloseCallback w) (\<lambda>a. AppConnectClose a h) w = Some w1"
    "server_inv L w1" "keeps L w w1"
    using app_opt_ok [OF app inv, of "\<lambda>a. AppConnectClose a h" "sw_onConnectCloseCallback w"] c(1) by auto
  then obtain c1 where c1: "sw_conns w1 h = Some c1" "tc_name c1 = tc_name c"
    using c(1) unfolding keeps_def by (metis option.simps(9) map_option_eq_Some)
  then have m: "map_of (sw_connections w1) (tc_name c) = Some h" and t1: "table_inv L w1"
    using table_conn [of L w1 h c1] w1(2) by (auto simp: server_inv_def)
  let ?w = "w1\<lparr>sw_connections := AList.delete (tc_name c) (sw_connections w1), sw_conns := (sw_conns w1)(h := None),
      sw_released := (sw_released w1)(h := sw_conns w1 h)\<rparr>"
  have "run_calls L app k (TcpConnection_close_complete c) w = Some ?w"
    using cb ci(2) w1(1) release_last [OF t1 m]
    by (simp add: TcpConnection_close_complete_def TcpServer_close_done_def TcpServer_get_connection_def)
  moreover have "tc_handle c1 = h" using table_conn [OF t1 c1(1)] by (simp add: conn_inv_def)
  then have "server_inv L ?w"
    using remove_inv [OF t1 m] w1(2) idle_inv_same [of w1 ?w] c1(1) by (simp add: server_inv_def heap_inv_def)
  ultimately show ?thesis using w1 by blast
qed

section \<open>Messages, writes and the wheel\<close>

lemma timeout_wheel:
  assumes "idle_inv w" "TimerWheel_get_timeout (sw_wheel w) > 0"
  shows "wheel_ok (sw_wheel w)"
  using assms by (auto simp: idle_inv_def TimerWheel_get_timeout_def)

lemma insert_members:
  assumes "wheel_ok wh" "TimerWheel_insert (Some x) wh = Some wh'"
  shows "members wh' = insert x (members wh)"
proof -
  have "wheel_ok wh'" using insert_keeps_ok [OF assms] by simp
  then show ?thesis
    using members_age [OF assms(1)] members_age [of wh'] wheel_age_insert [OF assms]
    by (auto simp: set_eq_iff split: if_splits)
qed

lemma tick_members:
  assumes "wheel_ok wh" "TimerWheel_wheel_callback wh = Some wh'"
  shows "members wh' \<subseteq> members wh"
proof -
  have "wheel_ok wh'" using callback_keeps_ok [OF assms] by simp
  then show ?thesis
    using members_age [OF assms(1)] members_age [of wh'] wheel_age_tick [OF assms]
    by (auto split: option.splits)
qed

text \<open>Inserting a wrapper that exists.\<close>

lemma wheel_insert_inv:
  assumes inv: "server_inv L w" and t: "TimerWheel_get_timeout (sw_wheel w) > 0"
    and x: "\<And>x. xo = Some x \<Longrightarrow> sw_wrappers w x \<noteq> None"
  shows "\<exists>wh. TimerWheel_insert xo (sw_wheel w) = Some wh \<and> server_inv L (w\<lparr>sw_wheel := wh\<rparr>) \<and>
    keeps L w (w\<lparr>sw_wheel := wh\<rparr>)"
proof -
  have ok: "wheel_ok (sw_wheel w)" using inv t timeout_wheel [of w] by (simp add: server_inv_def)
  have keeps: "keeps L w (w\<lparr>sw_wheel := wh\<rparr>)" for wh by (simp add: keeps_def)
  have table: "table_inv L (w\<lparr>sw_wheel := wh\<rparr>)" for wh
    using inv table_inv_same [of L w "w\<lparr>sw_wheel := wh\<rparr>"] by (simp add: server_inv_def)
  show ?thesis
  proof (cases xo)
    case None
    then show ?thesis
      using inv keeps by (intro exI [of _ "sw_wheel w"]) (simp add: TimerWheel_insert_def)
  next
    case (Some y)
    obtain wh where wh: "TimerWheel_insert (Some y) (sw_wheel w) = Some wh"
      using insert_ok [OF ok] by blast
    then have "idle_inv (w\<lparr>sw_wheel := wh\<rparr>)"
      using inv x Some insert_members [OF ok wh] insert_keeps_ok [OF ok wh]
      by (auto simp: server_inv_def idle_inv_def)
    moreover have "heap_inv (w\<lparr>sw_wheel := wh\<rparr>)" using inv by (simp add: server_inv_def heap_inv_def)
    ultimately show ?thesis using wh Some table keeps by (auto simp: server_inv_def)
  qed
qed

lemma message_call:
  assumes app: "app_ok L V app" and inv: "server_inv L w" and c: "sw_conns w h = Some c" and "V buf"
  shows "\<exists>w'. run_calls L app h (TcpConnection_on_message buf c) w = Some w' \<and> server_inv L w' \<and> keeps L w w'"
proof (cases "tc_onMessageCallback c")
  case None
  then show ?thesis using inv by (simp add: TcpConnection_on_message_def)
next
  case (Some m)
  obtain w1 where w1: "app_opt app (sw_onMessageCallback w) (\<lambda>a. AppMessage a h buf) w = Some w1"
    "server_inv L w1" "keeps L w w1"
    using app_opt_ok [OF app inv, of "\<lambda>a. AppMessage a h buf" "sw_onMessageCallback w"] c \<open>V buf\<close> by auto
  obtain c1 where c1: "sw_conns w1 h = Some c1" using keeps_dom [OF w1(3), of h] c by auto
  let ?x = "TcpConnection_get_wrapper (wheel_alive w1) c1"
  have "\<exists>w'. TcpServer_on_message app h buf w = Some w' \<and> server_inv L w' \<and> keeps L w w'"
  proof (cases "TimerWheel_get_timeout (sw_wheel w1) > 0")
    case True
    have "sw_wrappers w1 x \<noteq> None" if "?x = Some x" for x
      using that w1(2)
      by (auto simp: TcpConnection_get_wrapper_def wheel_alive_def server_inv_def idle_inv_def
          split: option.splits if_splits)
    from wheel_insert_inv [OF w1(2) True this] obtain wh where
      wh: "TimerWheel_insert ?x (sw_wheel w1) = Some wh" "server_inv L (w1\<lparr>sw_wheel := wh\<rparr>)"
      "keeps L w1 (w1\<lparr>sw_wheel := wh\<rparr>)" by blast
    then show ?thesis
      using True c c1 w1 keeps_trans [OF w1(3) wh(3)] by (simp add: TcpServer_on_message_def)
  next
    case False
    then show ?thesis using c c1 w1 by (simp add: TcpServer_on_message_def)
  qed
  then show ?thesis
    using Some by (cases m) (auto simp: TcpConnection_on_message_def)
qed

lemma run_calls_nil [simp]: "x \<bind> run_calls L app h [] = x"
  by (cases x) simp_all

text \<open>Calls that only log or report writes.\<close>

fun report :: "('m, 'c, 'k, 'w) conn_call \<Rightarrow> bool" where
  "report (CallWrite f i) = True"
| "report (Log l s) = True"
| "report _ = False"

lemma report_calls:
  assumes app: "app_ok L V app" and "server_inv L w" "list_all report cs"
  shows "\<exists>w'. run_calls L app h cs w = Some w' \<and> server_inv L w' \<and> keeps L w w'"
  using assms(2,3)
proof (induction cs arbitrary: w)
  case (Cons c cs)
  have "\<exists>w1. run_calls L app h [c] w = Some w1 \<and> server_inv L w1 \<and> keeps L w w1"
    using Cons.prems put_log_inv app by (cases c) (auto simp: app_ok_def)
  then obtain w1 where w1: "run_calls L app h [c] w = Some w1" "server_inv L w1" "keeps L w w1" by blast
  obtain w2 where w2: "run_calls L app h cs w1 = Some w2" "server_inv L w2" "keeps L w1 w2"
    using Cons.IH [OF w1(2)] Cons.prems(2) by auto
  have "run_calls L app h (c # cs) w = Some w2"
    using w1(1) w2(1) by (auto split: Option.bind_splits)
  then show ?case using w2 keeps_trans [OF w1(3) w2(3)] by blast
qed simp

lemma write_reports:
  "TcpConnection_write L buf f c io = (rst, io', cs) \<Longrightarrow> list_all report cs"
  "write_done r status io = Some (io', cs') \<Longrightarrow> list_all report cs'"
proof -
  have *: "list_all report (map (\<lambda>f. CallWrite f i) fs)" for fs i
    by (induction fs) auto
  show "TcpConnection_write L buf f c io = (rst, io', cs) \<Longrightarrow> list_all report cs"
    using * by (auto simp: TcpConnection_write_def Let_def split: if_splits prod.splits)
  show "write_done r status io = Some (io', cs') \<Longrightarrow> list_all report cs'"
    using * by (auto simp: write_done_def split: Option.bind_splits)
qed

text \<open>The wrappers the wheel drops: each live connection behind one begins to close.\<close>

lemma drop_wrapper_inv:
  assumes laws: "uv_laws L" and inv: "server_inv L w" and x: "sw_wrappers w x = Some h" "x \<notin> members (sw_wheel w)"
  shows "\<exists>w1. run_calls L app h (ConnectionWrapper_destroy (sw_conns w h)) (w\<lparr>sw_wrappers := (sw_wrappers w)(x := None)\<rparr>) = Some w1 \<and>
    server_inv L w1 \<and> keeps L w w1 \<and> (sw_conns w h \<noteq> None \<longrightarrow> uv_is_closing L h (wuv w1)) \<and>
    sw_wheel w1 = sw_wheel w \<and> sw_wrappers w1 = (sw_wrappers w)(x := None) \<and>
    (\<forall>g. g \<noteq> h \<longrightarrow> uv_is_closing L g (wuv w1) = uv_is_closing L g (wuv w))"
proof -
  let ?w = "w\<lparr>sw_wrappers := (sw_wrappers w)(x := None)\<rparr>"
  have inv': "server_inv L ?w" and keep: "keeps L w ?w"
    using inv x(2) table_inv_same [of L w ?w] by (auto simp: server_inv_def idle_inv_def heap_inv_def keeps_def)
  show ?thesis
  proof (cases "sw_conns w h")
    case None
    then show ?thesis using inv' keep by (simp add: ConnectionWrapper_destroy_def)
  next
    case (Some c)
    then obtain w1 where w1: "run_calls L app h (TcpConnection_on_socket_close c) ?w = Some w1"
      "server_inv L w1" "keeps L ?w w1" "uv_is_closing L h (wuv w1)" "sw_wheel w1 = sw_wheel ?w"
      "sw_wrappers w1 = sw_wrappers ?w" "\<forall>g. g \<noteq> h \<longrightarrow> uv_is_closing L g (wuv w1) = uv_is_closing L g (wuv ?w)"
      using close_call [OF laws inv', of h c app h] by auto
    then show ?thesis
      using Some keeps_trans [OF keep w1(3)] by (simp add: ConnectionWrapper_destroy_def)
  qed
qed

lemma drop_wrappers_inv:
  assumes laws: "uv_laws L" and "server_inv L w" and "distinct xs"
    and "\<forall>x \<in> set xs. sw_wrappers w x \<noteq> None \<and> x \<notin> members (sw_wheel w)"
  shows "\<exists>w'. drop_wrappers L app xs w = Some w' \<and> server_inv L w' \<and> keeps L w w' \<and>
    (\<forall>x h. x \<in> set xs \<longrightarrow> sw_wrappers w x = Some h \<longrightarrow> sw_conns w h \<noteq> None \<longrightarrow> uv_is_closing L h (wuv w')) \<and>
    sw_wheel w' = sw_wheel w \<and> (\<forall>y. y \<notin> set xs \<longrightarrow> sw_wrappers w' y = sw_wrappers w y) \<and>
    (\<forall>g. (\<forall>x \<in> set xs. sw_wrappers w x \<noteq> Some g) \<longrightarrow> uv_is_closing L g (wuv w') = uv_is_closing L g (wuv w))"
  using assms(2-)
proof (induction xs arbitrary: w)
  case (Cons x xs)
  obtain h where h: "sw_wrappers w x = Some h" using Cons.prems(3) by auto
  obtain w1 where w1: "run_calls L app h (ConnectionWrapper_destroy (sw_conns w h))
      (w\<lparr>sw_wrappers := (sw_wrappers w)(x := None)\<rparr>) = Some w1"
    "server_inv L w1" "keeps L w w1" "sw_conns w h \<noteq> None \<longrightarrow> uv_is_closing L h (wuv w1)"
    "sw_wheel w1 = sw_wheel w" "sw_wrappers w1 = (sw_wrappers w)(x := None)"
    "\<forall>g. g \<noteq> h \<longrightarrow> uv_is_closing L g (wuv w1) = uv_is_closing L g (wuv w)"
    using drop_wrapper_inv [OF laws Cons.prems(1) h, of app] Cons.prems(3) by auto
  have "\<forall>y \<in> set xs. sw_wrappers w1 y \<noteq> None \<and> y \<notin> members (sw_wheel w1)"
    using Cons.prems(2,3) w1(5,6) by auto
  then obtain w2 where w2: "drop_wrappers L app xs w1 = Some w2" "server_inv L w2" "keeps L w1 w2"
    "\<forall>y g. y \<in> set xs \<longrightarrow> sw_wrappers w1 y = Some g \<longrightarrow> sw_conns w1 g \<noteq> None \<longrightarrow> uv_is_closing L g (wuv w2)"
    "sw_wheel w2 = sw_wheel w1" "\<forall>y. y \<notin> set xs \<longrightarrow> sw_wrappers w2 y = sw_wrappers w1 y"
    "\<forall>g. (\<forall>y \<in> set xs. sw_wrappers w1 y \<noteq> Some g) \<longrightarrow> uv_is_closing L g (wuv w2) = uv_is_closing L g (wuv w1)"
    using Cons.IH [OF w1(2)] Cons.prems(2) by auto
  have "uv_is_closing L g (wuv w2)"
    if y: "y \<in> set (x # xs)" "sw_wrappers w y = Some g" "sw_conns w g \<noteq> None" for y g
  proof (cases "y = x")
    case True
    then show ?thesis
      using w1(4) w2(3) h y keeps_dom [OF w1(3), of h] by (auto simp: keeps_def)
  next
    case False
    then show ?thesis using w2(4) w1(6) y keeps_dom [OF w1(3), of g] by auto
  qed
  moreover have "uv_is_closing L g (wuv w2) = uv_is_closing L g (wuv w)"
    if g: "\<forall>y \<in> set (x # xs). sw_wrappers w y \<noteq> Some g" for g
  proof -
    have "\<forall>y \<in> set xs. sw_wrappers w1 y \<noteq> Some g" using g w1(6) by auto
    then show ?thesis using w2(7) w1(7) g h by fastforce
  qed
  ultimately show ?case
    using h w1 w2 keeps_trans [OF w1(3) w2(3)] by auto
qed simp

section \<open>Accepting\<close>

lemma map_of_insort:
  "map_of xs k = None \<Longrightarrow> map_of (insort_key fst (k, v) xs) = (map_of xs)(k \<mapsto> v)"
  by (induction xs) (auto simp: fun_eq_iff split: if_splits)

lemma distinct_insort_fst:
  "distinct (map fst xs) \<Longrightarrow> map_of xs k = None \<Longrightarrow> distinct (map fst (insort_key fst (k, v) xs))"
  by (induction xs) (auto simp: set_insort_key map_of_eq_None_iff split: if_splits)

text \<open>Steps that keep what there was and may add a connection.\<close>

definition keeps_old :: "'u libuv \<Rightarrow> ('u, 'w, 'a, 's) world \<Rightarrow> ('u, 'w, 'a, 's) world \<Rightarrow> bool" where
  "keeps_old L w w' \<longleftrightarrow> (\<forall>h. sw_conns w h \<noteq> None \<longrightarrow>
     map_option tc_name (sw_conns w' h) = map_option tc_name (sw_conns w h) \<and>
     (uv_is_closing L h (wuv w) \<longrightarrow> uv_is_closing L h (wuv w')))"

lemma keeps_keeps_old: "keeps L w w' \<Longrightarrow> keeps_old L w w'"
  by (simp add: keeps_def keeps_old_def)

lemma keeps_old_trans: "keeps_old L w w1 \<Longrightarrow> keeps_old L w1 w2 \<Longrightarrow> keeps_old L w w2"
  unfolding keeps_old_def by (metis option.map_disc_iff)

lemma table_inv_add:
  assumes "table_inv L w" "sw_conns w h = None" "map_of (sw_connections w) (tc_name c) = None"
    and "sw_connections w' = insort_key fst (tc_name c, h) (sw_connections w)"
    and "sw_conns w' = (sw_conns w)(h \<mapsto> c)" "conn_inv L (wuv w') h c"
    and "\<And>g. g \<noteq> h \<Longrightarrow> uv_is_closing L g (wuv w') = uv_is_closing L g (wuv w)"
  shows "table_inv L w'"
proof (rule table_invI)
  show "distinct (map fst (sw_connections w'))"
    using table_distinct [OF assms(1)] assms(3,4) by (simp add: distinct_insort_fst)
next
  fix name g assume "map_of (sw_connections w') name = Some g"
  then show "\<exists>d. sw_conns w' g = Some d \<and> tc_name d = name"
    using table_entry [OF assms(1), of name g] assms(2-5)
    by (auto simp: map_of_insort split: if_splits)
next
  fix g d assume d: "sw_conns w' g = Some d"
  show "map_of (sw_connections w') (tc_name d) = Some g \<and> conn_inv L (wuv w') g d"
  proof (cases "g = h")
    case True
    then show ?thesis using d assms(3-6) by (simp add: map_of_insort)
  next
    case False
    then have old: "sw_conns w g = Some d" using d assms(5) by simp
    then show ?thesis
      using table_conn [OF assms(1) old] assms(3,4) assms(7) [OF False]
      by (auto simp: map_of_insort conn_inv_def)
  qed
qed

lemma put_log_sel [simp]:
  "sw_mode (put_log l s w) = sw_mode w" "sw_io (put_log l s w) = sw_io w"
  by (simp_all add: put_log_def)

lemma release_alive: "table_inv L w \<Longrightarrow> sw_conns w h \<noteq> None \<Longrightarrow> release h w = w"
  using table_conn [of L w h] by (force simp: release_def dest: map_of_SomeD)

lemma accept_steps:
  assumes laws: "uv_laws L" and app: "app_ok L V app" and inv: "server_inv L w"
    and new: "sw_conns w h = None" "\<not> uv_is_closing L h (wuv w)" "h < io_next (sw_io w)"
    and key: "SocketAddr_addr_to_str A (uv_getpeername L h (wuv w)) (sw_ipv w) = Some key"
      "map_of (sw_connections w) key = None"
  shows "\<exists>c w3 w4. TcpServer_on_accept L A app h w = Some w4 \<and> server_inv L w4 \<and> keeps_old L w w4 \<and>
    sw_conns w4 h \<noteq> None \<and> app_opt app (sw_onNewConnectCallback w3) (\<lambda>a. AppNewConnect a h) w3 = Some w4 \<and>
    server_inv L w3 \<and> sw_conns w3 h \<noteq> None \<and> tc_wrapper c = None \<and>
    (\<forall>g. uv_is_closing L g (wuv w3) = uv_is_closing L g (wuv w)) \<and>
    (if TimerWheel_get_timeout (sw_wheel w) > 0
     then TimerWheel_insert (Some (io_next (sw_io w))) (sw_wheel w) = Some (sw_wheel w3) \<and>
       sw_wrappers w3 = (sw_wrappers w)(io_next (sw_io w) \<mapsto> h) \<and> io_next (sw_io w3) = Suc (io_next (sw_io w)) \<and>
       sw_conns w3 = (sw_conns w)(h \<mapsto> TcpConnection_set_wrapper (Some (io_next (sw_io w))) c)
     else sw_wheel w3 = sw_wheel w \<and> sw_wrappers w3 = sw_wrappers w \<and> io_next (sw_io w3) = io_next (sw_io w) \<and>
       sw_conns w3 = (sw_conns w)(h \<mapsto> c))"
proof -
  define c :: srv_connection where "c = \<lparr>tc_name = key, tc_connected = True, tc_handle = h, tc_data = [],
     tc_buffer = (if sw_mode w = ListBuffer then Some ListBuffer_init else None), tc_wrapper = None,
     tc_onMessageCallback = Some SrvMessage, tc_onConnectCloseCallback = Some SrvCloseConnection,
     tc_closeCompleteCallback = None\<rparr>"
  let ?u = "uv_do L (UvReadStart h) (wuv w)"
  define w1 where "w1 = TcpServer_add_connection key h
    (put_uv ?u (put_conn h c (put_log Debug (''new connect  '' @ key) w)))"
  have w1: "sw_connections w1 = insort_key fst (key, h) (sw_connections w)"
    "sw_conns w1 = (sw_conns w)(h \<mapsto> c)" "wuv w1 = ?u" "sw_wheel w1 = sw_wheel w"
    "sw_wrappers w1 = sw_wrappers w" "sw_onNewConnectCallback w1 = sw_onNewConnectCallback w"
    "sw_released w1 = sw_released w" "io_next (sw_io w1) = io_next (sw_io w)"
    using key(2) by (simp_all add: w1_def TcpServer_add_connection_def put_uv_def put_conn_def put_log_def)
  have ci: "conn_inv L (wuv w1) h c" "tc_name c = key"
    using new(2) laws by (simp_all add: c_def conn_inv_def w1 uv_simps)
  have cl: "uv_is_closing L g (wuv w1) = uv_is_closing L g (wuv w)" for g
    using laws by (simp add: w1 uv_simps)
  have "heap_inv w1" using inv new(3) by (simp add: server_inv_def heap_inv_def w1)
  then have inv1: "server_inv L w1"
    using table_inv_add [of L w h c w1] inv new(1) key(2) ci w1 cl idle_inv_same [of w w1]
    by (simp add: server_inv_def)
  have old1: "keeps_old L w w1" using new(1) cl by (auto simp: keeps_old_def w1)
  let ?x = "io_next (sw_io w1)"
  let ?w2 = "put_conn h (TcpConnection_set_wrapper (Some ?x) c)
    (w1\<lparr>sw_io := (sw_io w1)\<lparr>io_next := Suc ?x\<rparr>, sw_wrappers := (sw_wrappers w1)(?x \<mapsto> h)\<rparr>)"
  have c1: "sw_conns w1 h = Some c" by (simp add: w1)
  have "table_inv L ?w2"
    using inv1 ci c1 by (intro table_inv_update [of L w1 h c "TcpConnection_set_wrapper (Some ?x) c" ?w2])
      (simp_all add: server_inv_def put_conn_def TcpConnection_set_wrapper_def conn_inv_def)
  moreover have "idle_inv ?w2"
    using inv1 by (auto simp: server_inv_def idle_inv_def put_conn_def)
  moreover have "heap_inv ?w2"
    using inv1 c1 by (auto simp: server_inv_def heap_inv_def put_conn_def less_Suc_eq)
  ultimately have inv2: "server_inv L ?w2" by (simp add: server_inv_def)
  have keep2: "keeps L w1 ?w2"
    using c1 by (auto simp: keeps_def put_conn_def TcpConnection_set_wrapper_def)
  define step where "step = (if TimerWheel_get_timeout (sw_wheel w1) > 0
       then do { wheel \<leftarrow> TimerWheel_insert (Some ?x) (sw_wheel ?w2); Some (?w2\<lparr>sw_wheel := wheel\<rparr>) }
       else Some w1)"
  have "\<exists>w3. step = Some w3 \<and> server_inv L w3 \<and> keeps L w1 w3 \<and> wuv w3 = wuv w1 \<and>
    (if TimerWheel_get_timeout (sw_wheel w) > 0
     then TimerWheel_insert (Some (io_next (sw_io w))) (sw_wheel w) = Some (sw_wheel w3) \<and>
       sw_wrappers w3 = (sw_wrappers w)(io_next (sw_io w) \<mapsto> h) \<and> io_next (sw_io w3) = Suc (io_next (sw_io w)) \<and>
       sw_conns w3 = (sw_conns w)(h \<mapsto> TcpConnection_set_wrapper (Some (io_next (sw_io w))) c)
     else sw_wheel w3 = sw_wheel w \<and> sw_wrappers w3 = sw_wrappers w \<and> io_next (sw_io w3) = io_next (sw_io w) \<and>
       sw_conns w3 = (sw_conns w)(h \<mapsto> c))"
  proof (cases "TimerWheel_get_timeout (sw_wheel w1) > 0")
    case True
    then have t: "TimerWheel_get_timeout (sw_wheel ?w2) > 0" by (simp add: put_conn_def)
    have x: "y = ?x \<Longrightarrow> sw_wrappers ?w2 y \<noteq> None" for y by (simp add: put_conn_def)
    obtain wh where "TimerWheel_insert (Some ?x) (sw_wheel ?w2) = Some wh"
      "server_inv L (?w2\<lparr>sw_wheel := wh\<rparr>)" "keeps L ?w2 (?w2\<lparr>sw_wheel := wh\<rparr>)"
      using wheel_insert_inv [OF inv2 t, of "Some ?x"] x by auto
    then show ?thesis
      using True keeps_trans [OF keep2] unfolding step_def by (auto simp: put_conn_def w1)
  next
    case False
    then show ?thesis using inv1 by (simp add: step_def w1)
  qed
  then obtain w3 where w3: "step = Some w3" "server_inv L w3" "keeps L w1 w3" "wuv w3 = wuv w1"
    "if TimerWheel_get_timeout (sw_wheel w) > 0
     then TimerWheel_insert (Some (io_next (sw_io w))) (sw_wheel w) = Some (sw_wheel w3) \<and>
       sw_wrappers w3 = (sw_wrappers w)(io_next (sw_io w) \<mapsto> h) \<and> io_next (sw_io w3) = Suc (io_next (sw_io w)) \<and>
       sw_conns w3 = (sw_conns w)(h \<mapsto> TcpConnection_set_wrapper (Some (io_next (sw_io w))) c)
     else sw_wheel w3 = sw_wheel w \<and> sw_wrappers w3 = sw_wrappers w \<and> io_next (sw_io w3) = io_next (sw_io w) \<and>
       sw_conns w3 = (sw_conns w)(h \<mapsto> c)" by blast
  obtain w4 where w4: "app_opt app (sw_onNewConnectCallback w3) (\<lambda>a. AppNewConnect a h) w3 = Some w4"
    "server_inv L w4" "keeps L w3 w4"
    using app_opt_ok [OF app w3(2), of "\<lambda>a. AppNewConnect a h"] keeps_dom [OF w3(3), of h] c1 by auto
  have k: "keeps L w1 w4" using keeps_trans [OF w3(3) w4(3)] .
  then have alive: "sw_conns w4 h \<noteq> None" using keeps_dom [OF k, of h] c1 by simp
  have "TcpServer_on_accept L A app h w = Some (release h w4)"
    using key(1) w3(1) w4(1)
    by (cases "TimerWheel_get_timeout (sw_wheel w1) > 0";
        cases "TimerWheel_insert (Some ?x) (sw_wheel ?w2)";
        simp add: TcpServer_on_accept_def TcpConnection_new_def TcpConnection_set_message_callback_def
        TcpConnection_set_connect_close_callback_def c_def [symmetric] w1_def [symmetric] step_def
        Let_def del: append_Cons)
  then have "TcpServer_on_accept L A app h w = Some w4"
    using release_alive [of L w4 h] alive w4(2) by (simp add: server_inv_def)
  moreover have "sw_conns w3 h \<noteq> None" using keeps_dom [OF w3(3), of h] c1 by simp
  moreover have "tc_wrapper c = None" by (simp add: c_def)
  moreover have "uv_is_closing L g (wuv w3) = uv_is_closing L g (wuv w)" for g using cl w3(4) by simp
  ultimately show ?thesis
    using alive w4 w3(2,5) keeps_old_trans [OF old1 keeps_keeps_old [OF k]]
    by (intro exI [of _ c] exI [of _ w3] exI [of _ w4]) (intro conjI; blast)
qed

lemma accept_inv:
  assumes laws: "uv_laws L" and app: "app_ok L V app" and inv: "server_inv L w"
    and new: "sw_conns w h = None" "\<not> uv_is_closing L h (wuv w)" "h < io_next (sw_io w)"
    and key: "SocketAddr_addr_to_str A (uv_getpeername L h (wuv w)) (sw_ipv w) = Some key"
      "map_of (sw_connections w) key = None"
  shows "\<exists>w'. TcpServer_on_accept L A app h w = Some w' \<and> server_inv L w' \<and> keeps_old L w w' \<and>
    sw_conns w' h \<noteq> None"
  using accept_steps [OF assms] by blast

end
