(* ===== verification/Tcp_Server_Props.thy ===== *)
theory Tcp_Server_Props
  imports Tcp_Server_Safety
begin

text \<open>
  The properties of the TCP server over the events libuv delivers: no event makes it use an object
  that has been freed, idle connections are closed and not before, closing a connection and
  the server run to their end. And where the code goes wrong: two accepted clients of one name,
  a connection closed twice.
\<close>

section \<open>Delivered events\<close>

text \<open>The deliveries the safety properties are about: what libuv delivers to handles and requests that
  exist, with two restrictions. A client that is accepted has a peer address whose name is not in the
  table: libuv does accept others, a peer that comes again from the same address while its old
  connection is still in the table, and \<open>duplicate_name_frees\<close> shows what happens then. And the events
  of a handle are those of a connection the server still owns: \<open>double_close_frees\<close> shows how the
  server lets one go too early. The peers send what \<open>V\<close> says.\<close>

definition deliverable :: "addr_lib \<Rightarrow> 'u libuv \<Rightarrow> (byte list \<Rightarrow> bool) \<Rightarrow> srv_event \<Rightarrow>
    ('u, 'w, 'a, 's) world \<Rightarrow> bool" where
  "deliverable A L V e w = (case e of
     Accepted status client \<Rightarrow> sw_acceptor w \<noteq> None \<and> sw_conns w client = None \<and>
       (\<forall>u. \<exists>key. SocketAddr_addr_to_str A (uv_getpeername L client u) (sw_ipv w) = Some key \<and>
          map_of (sw_connections w) key = None)
   | Received h nread buf \<Rightarrow> sw_conns w h \<noteq> None \<and> (0 < nread \<longrightarrow> V (take (nat nread) buf))
   | Closed h \<Rightarrow> sw_conns w h \<noteq> None \<and> uv_is_closing L h (wuv w)
   | ShutdownDone r \<Rightarrow> (\<exists>h. map_of (io_shutdowns (sw_io w)) r = Some h \<and> sw_conns w h \<noteq> None)
   | WriteCompleted r status \<Rightarrow> map_of (io_writes (sw_io w)) r \<noteq> None
   | WheelTurn \<Rightarrow> True
   | AcceptorClosed \<Rightarrow> sw_acceptor w \<noteq> None)"

definition good_step :: "'u libuv \<Rightarrow> ('u, 'w, 'a, 's) world \<Rightarrow> ('u, 'w, 'a, 's) world option \<Rightarrow> bool" where
  "good_step L w r \<longleftrightarrow> (\<exists>w'. r = Some w' \<and> server_inv L w' \<and> keeps_old L w w')"

lemma good_keeps:
  "\<exists>w'. r = Some w' \<and> server_inv L w' \<and> keeps L w w' \<Longrightarrow> good_step L w r"
  using keeps_keeps_old unfolding good_step_def by blast

lemma good_after:
  assumes "keeps L w w1" "good_step L w1 r" shows "good_step L w r"
  using assms keeps_old_trans [OF keeps_keeps_old [OF assms(1)]] unfolding good_step_def by blast

lemma accepted_good:
  assumes laws: "uv_laws L" and app: "app_ok L V app" and inv: "server_inv L w"
    and del: "deliverable A L V (Accepted status client) w"
  shows "good_step L w (TcpServer_event L A app (Accepted status client) w)"
proof -
  obtain acc where acc: "sw_acceptor w = Some acc" using del by (auto simp: deliverable_def)
  obtain cs u' where on: "TcpAcceptor_on_connection L status client acc (wuv w) = (cs, u')" by fastforce
  have free: "sw_conns w client = None" using del by (simp add: deliverable_def)
  let ?w = "put_uv u' (w\<lparr>sw_io := (sw_io w)\<lparr>io_next := max (io_next (sw_io w)) (Suc client)\<rparr>\<rparr>)"
  have same: "server_inv L ?w \<and> keeps L w ?w"
    if others: "\<And>h. h \<noteq> client \<Longrightarrow> uv_is_closing L h u' = uv_is_closing L h (wuv w)"
  proof (rule server_inv_same [OF inv])
    show "uv_is_closing L g (wuv ?w) = uv_is_closing L g (wuv w)" if "sw_conns w g \<noteq> None" for g
    proof -
      have "g \<noteq> client" using free that by auto
      then show ?thesis using others by (simp add: put_uv_def)
    qed
  qed (simp_all add: put_uv_def)
  have ev: "TcpServer_event L A app (Accepted status client) w = accept_calls L A app cs ?w"
    using acc on by (simp add: TcpServer_event_def)
  from laws on show ?thesis
  proof (cases rule: on_connection_cases)
    case (1 s)
    then have w: "server_inv L ?w" "keeps L w ?w" using same by auto
    then show ?thesis
      using put_log_inv [OF w(1), of Error s] 1 unfolding ev
      by (intro good_after [OF w(2)] good_keeps) simp
  next
    case (2 n)
    have w: "server_inv L ?w" "keeps L w ?w" using same 2 by auto
    obtain key where key: "SocketAddr_addr_to_str A (uv_getpeername L client u') (sw_ipv w) = Some key"
      "map_of (sw_connections w) key = None" using del by (auto simp: deliverable_def)
    have "good_step L ?w (TcpServer_on_accept L A app client ?w)"
      using accept_inv [OF laws app w(1), of client A key] key 2 free
      by (auto simp: good_step_def put_uv_def less_max_iff_disj)
    then have "good_step L ?w (accept_calls L A app cs ?w)"
      using 2(2) by (cases n) (auto simp: good_step_def)
    then show ?thesis unfolding ev by (rule good_after [OF w(2)])
  next
    case 3
    then have w: "server_inv L ?w" "keeps L w ?w" using same by auto
    then show ?thesis using 3 w unfolding ev by (intro good_keeps) simp
  qed
qed

text \<open>The connection is marked as lost.\<close>

lemma lost_inv:
  assumes inv: "server_inv L w" and c: "sw_conns w h = Some c"
  shows "server_inv L (put_log l s (put_conn h (c\<lparr>tc_connected := False\<rparr>) w\<lparr>sw_io := sw_io w\<rparr>)) \<and>
    keeps L w (put_log l s (put_conn h (c\<lparr>tc_connected := False\<rparr>) w\<lparr>sw_io := sw_io w\<rparr>))"
proof -
  let ?c = "c\<lparr>tc_connected := False\<rparr>"
  let ?w = "put_log l s (put_conn h ?c w\<lparr>sw_io := sw_io w\<rparr>)"
  have ci: "conn_inv L (wuv w) h c" using table_conn inv c by (auto simp: server_inv_def)
  have "table_inv L ?w"
    using inv c ci by (intro table_inv_update [of L w h c ?c ?w])
      (simp_all add: server_inv_def put_conn_def put_log_def conn_inv_def)
  moreover have "heap_inv ?w"
    using inv c by (auto simp: server_inv_def heap_inv_def put_conn_def put_log_def)
  ultimately show ?thesis
    using inv c by (auto simp: server_inv_def idle_inv_def put_conn_def put_log_def keeps_def)
qed

lemma received_good:
  fixes w :: "('u, 'w, 'a, 's) world"
  assumes laws: "uv_laws L" and app: "app_ok L V app" and inv: "server_inv L w" and c: "sw_conns w h = Some c"
    and V: "0 < nread \<Longrightarrow> V (take (nat nread) buf)"
  shows "good_step L w (TcpServer_event L A app (Received h nread buf) w)"
proof -
  have ci: "conn_inv L (wuv w) h c" using table_conn inv c by (auto simp: server_inv_def)
  have id: "put_conn h c w\<lparr>sw_io := sw_io w\<rparr> = w" using c by (simp add: put_conn_def map_upd_triv)
  consider "nread > 0" | "nread = 0" | "nread < 0" "nread \<noteq> UV_EOF" | "nread = UV_EOF"
    by (metis linorder_neqE_linordered_idom)
  then show ?thesis
  proof cases
    case 1
    then show ?thesis
      using message_call [OF app inv c, of "take (nat nread) buf"] c id V
      by (intro good_keeps) (simp add: TcpServer_event_def TcpConnection_on_mesage_receive_def)
  next
    case 2
    then show ?thesis
      using inv c id by (intro good_keeps) (simp add: TcpServer_event_def TcpConnection_on_mesage_receive_def)
  next
    case 3
    let ?c = "c\<lparr>tc_connected := False\<rparr>"
    let ?w = "put_log Error (uv_err_name L nread) (put_conn h ?c w\<lparr>sw_io := sw_io w\<rparr>)"
    have w: "server_inv L ?w" "keeps L w ?w" "sw_conns ?w h = Some ?c"
      using lost_inv [OF inv c] by (auto simp: put_log_def put_conn_def)
    have "TcpServer_event L A app (Received h nread buf) w =
        run_calls L app h (TcpConnection_on_socket_close ?c) ?w"
      using c 3 by (simp add: TcpServer_event_def TcpConnection_on_mesage_receive_def
          TcpConnection_set_connect_status_def Let_def)
    moreover have "good_step L ?w (run_calls L app h (TcpConnection_on_socket_close ?c) ?w)"
      using close_call [OF laws w(1,3), of app h] by (intro good_keeps) blast
    ultimately show ?thesis using good_after [OF w(2)] by simp
  next
    case 4
    let ?c = "c\<lparr>tc_connected := False\<rparr>"
    obtain rst u where sh: "uv L (UvShutdown (io_next (sw_io w)) (tc_handle c)) (wuv w) = (rst, u)" by fastforce
    obtain c' io' where rec: "TcpConnection_on_mesage_receive L UV_EOF buf c (sw_io w) =
        ((c', io'), [Log Error (uv_err_name L UV_EOF) :: (srv_message, srv_close, srv_done, 'w) conn_call])"
      and c': "c' = ?c" and io': "io_uv io' = uv_do L (UvShutdown (io_next (sw_io w)) (tc_handle c)) (wuv w)"
        "io_next (sw_io w) \<le> io_next io'"
      using sh by (auto simp: TcpConnection_on_mesage_receive_def UV_EOF_def
          TcpConnection_set_connect_status_def Let_def uv_do_def)
    let ?w = "put_conn h c' w\<lparr>sw_io := io'\<rparr>"
    have cl: "uv_is_closing L g (wuv ?w) = uv_is_closing L g (wuv w)" for g
      using laws by (simp add: put_conn_def io'(1) uv_simps)
    have "table_inv L ?w"
      using inv c ci cl by (intro table_inv_update [of L w h c ?c ?w])
        (simp_all add: server_inv_def put_conn_def conn_inv_def c')
    moreover have "heap_inv ?w"
      using inv c io'(2) by (auto simp: server_inv_def heap_inv_def put_conn_def intro: order.strict_trans2)
    ultimately have w: "server_inv L ?w" "keeps L w ?w"
      using inv c cl by (auto simp: server_inv_def idle_inv_def put_conn_def keeps_def c')
    have "TcpServer_event L A app (Received h nread buf) w = Some (put_log Error (uv_err_name L UV_EOF) ?w)"
      using c rec 4 by (simp add: TcpServer_event_def)
    then show ?thesis
      using put_log_inv [OF w(1)] keeps_trans [OF w(2)] by (intro good_keeps) blast
  qed
qed

lemma closed_good:
  assumes "app_ok L V app" "server_inv L w" "sw_conns w h = Some c" "uv_is_closing L h (wuv w)"
  shows "\<exists>w'. TcpServer_event L A app (Closed h) w = Some w' \<and> server_inv L w' \<and>
    (tc_closeCompleteCallback c \<noteq> None \<longrightarrow> sw_conns w' h = None) \<and>
    (\<forall>g. g \<noteq> h \<longrightarrow> sw_conns w g \<noteq> None \<longrightarrow> sw_conns w' g \<noteq> None \<and>
       (uv_is_closing L g (wuv w) \<longrightarrow> uv_is_closing L g (wuv w')))"
proof (cases "tc_closeCompleteCallback c")
  case None
  then show ?thesis
    using assms(2,3) by (simp add: TcpServer_event_def TcpConnection_close_complete_def)
next
  case (Some d)
  then have "tc_closeCompleteCallback c = Some SrvCloseDone" by (cases d) simp
  obtain w1 w' where w1: "keeps L w w1" and
    w': "run_calls L app h (TcpConnection_close_complete c) w = Some w'" "server_inv L w'"
      "w' = w1\<lparr>sw_connections := AList.delete (tc_name c) (sw_connections w1), sw_conns := (sw_conns w1)(h := None),
      sw_released := (sw_released w1)(h := sw_conns w1 h)\<rparr>"
    using close_done [OF assms(1-3) \<open>tc_closeCompleteCallback c = Some SrvCloseDone\<close>, of h] by blast
  have "sw_conns w' g \<noteq> None \<and> (uv_is_closing L g (wuv w) \<longrightarrow> uv_is_closing L g (wuv w'))"
    if "g \<noteq> h" "sw_conns w g \<noteq> None" for g
    using that keeps_dom [OF w1, of g] w1 by (auto simp: w'(3) keeps_def)
  then show ?thesis using assms(3) w' by (intro exI [of _ w']) (simp add: TcpServer_event_def)
qed

lemma shutdown_good:
  assumes laws: "uv_laws L" and inv: "server_inv L w"
    and r: "map_of (io_shutdowns (sw_io w)) r = Some h" "sw_conns w h = Some c"
  shows "good_step L w (TcpServer_event L A app (ShutdownDone r) w)"
proof -
  let ?w = "w\<lparr>sw_io := (sw_io w)\<lparr>io_shutdowns := AList.delete r (io_shutdowns (sw_io w))\<rparr>\<rparr>"
  have w: "server_inv L ?w \<and> keeps L w ?w" using inv by (rule server_inv_same) simp_all
  have "good_step L ?w (run_calls L app h (TcpConnection_on_socket_close c) ?w)"
    using close_call [OF laws conjunct1 [OF w], of h c app h] r(2) by (intro good_keeps) auto
  then show ?thesis
    using r good_after [OF conjunct2 [OF w]] by (simp add: TcpServer_event_def shutdown_done_def)
qed

lemma write_completed_good:
  fixes w :: "('u, 'w, 'a, 's) world"
  assumes app: "app_ok L V app" and inv: "server_inv L w" and r: "map_of (io_writes (sw_io w)) r = Some wr"
  shows "good_step L w (TcpServer_event L A app (WriteCompleted r status) w)"
proof -
  obtain io and cs :: "(srv_message, srv_close, srv_done, 'w) conn_call list" where
    d: "write_done r status (sw_io w) = Some (io, cs)"
    using r by (auto simp: write_done_def)
  let ?w = "w\<lparr>sw_io := io\<rparr>"
  have "io_uv io = wuv w" "io_next io = io_next (sw_io w)" using d by (auto simp: write_done_def split: Option.bind_splits)
  then have w: "server_inv L ?w \<and> keeps L w ?w" using inv by (intro server_inv_same) simp_all
  have "good_step L ?w (run_calls L app 0 cs ?w)"
    using report_calls [OF app conjunct1 [OF w] write_reports(2) [OF d]] by (intro good_keeps) blast
  then show ?thesis
    using d good_after [OF conjunct2 [OF w]] by (simp add: TcpServer_event_def)
qed

section \<open>The wheel\<close>

text \<open>A turn of the wheel, with what it does to each wrapper and each handle.\<close>

lemma wheel_turn_cases:
  assumes laws: "uv_laws L" and inv: "server_inv L w"
  obtains wh w' where "TimerWheel_wheel_callback (sw_wheel w) = Some wh"
    "TcpServer_event L A app WheelTurn w = Some w'" "server_inv L w'" "keeps L w w'" "sw_wheel w' = wh"
    "\<And>x h. x \<in> members (sw_wheel w) - members wh \<Longrightarrow> sw_wrappers w x = Some h \<Longrightarrow>
       sw_conns w h \<noteq> None \<Longrightarrow> uv_is_closing L h (wuv w')"
    "\<And>x. x \<in> members wh \<Longrightarrow> sw_wrappers w' x = sw_wrappers w x"
    "\<And>g. (\<And>x. x \<in> members (sw_wheel w) - members wh \<Longrightarrow> sw_wrappers w x \<noteq> Some g) \<Longrightarrow>
       uv_is_closing L g (wuv w') = uv_is_closing L g (wuv w)"
proof -
  have idle: "idle_inv w" using inv by (simp add: server_inv_def)
  obtain wh where wh: "TimerWheel_wheel_callback (sw_wheel w) = Some wh"
    and ok: "tw_timeoutSec wh = 0 \<or> wheel_ok wh" and sub: "members wh \<subseteq> members (sw_wheel w)"
  proof (cases "tw_timeoutSec (sw_wheel w) = 0")
    case True
    then show ?thesis using that [of "sw_wheel w"] by (simp add: TimerWheel_wheel_callback_def)
  next
    case False
    then have ok: "wheel_ok (sw_wheel w)" using idle by (simp add: idle_inv_def)
    then obtain wh where wh: "TimerWheel_wheel_callback (sw_wheel w) = Some wh"
      using callback_ok by blast
    show ?thesis
      using that [OF wh] callback_keeps_ok [OF ok wh] tick_members [OF ok wh] by blast
  qed
  let ?w = "w\<lparr>sw_wheel := wh\<rparr>"
  let ?xs = "sorted_list_of_set (members (sw_wheel w) - members wh)"
  have fin: "finite (members (sw_wheel w) - members wh)" using idle by (simp add: idle_inv_def)
  have "table_inv L ?w" "heap_inv ?w"
    using inv table_inv_same [of L w ?w] by (simp_all add: server_inv_def heap_inv_def)
  then have inv': "server_inv L ?w"
    using idle ok sub by (auto simp: server_inv_def idle_inv_def intro: finite_subset)
  have "\<forall>x \<in> set ?xs. sw_wrappers ?w x \<noteq> None \<and> x \<notin> members (sw_wheel ?w)"
    using idle fin by (auto simp: idle_inv_def)
  from drop_wrappers_inv [OF laws inv' _ this, of app] obtain w' where
    d: "drop_wrappers L app ?xs ?w = Some w'" "server_inv L w'" "keeps L ?w w'"
    "\<forall>x h. x \<in> set ?xs \<longrightarrow> sw_wrappers ?w x = Some h \<longrightarrow> sw_conns ?w h \<noteq> None \<longrightarrow> uv_is_closing L h (wuv w')"
    "sw_wheel w' = sw_wheel ?w" "\<forall>y. y \<notin> set ?xs \<longrightarrow> sw_wrappers w' y = sw_wrappers ?w y"
    "\<forall>g. (\<forall>x \<in> set ?xs. sw_wrappers ?w x \<noteq> Some g) \<longrightarrow> uv_is_closing L g (wuv w') = uv_is_closing L g (wuv ?w)"
    by auto
  have "keeps L w w'" using d(3) by (simp add: keeps_def)
  moreover have "TcpServer_event L A app WheelTurn w = Some w'"
    using wh d(1) by (simp add: TcpServer_event_def wheel_turn_def)
  ultimately show ?thesis
    using that [OF wh, of w'] d fin by auto
qed

section \<open>Closing the server\<close>

lemma close_all_inv:
  assumes laws: "uv_laws L" and "server_inv L w" and "\<forall>(n, h) \<in> set xs. map_of (sw_connections w) n = Some h"
  shows "\<exists>w'. close_all L app xs w = Some w' \<and> server_inv L w' \<and> keeps L w w' \<and>
    sw_connections w' = sw_connections w \<and> (\<forall>(n, h) \<in> set xs. uv_is_closing L h (wuv w'))"
  using assms(2,3)
proof (induction xs arbitrary: w)
  case (Cons p xs)
  obtain n h where p: "p = (n, h)" by fastforce
  then have m: "map_of (sw_connections w) n = Some h" using Cons.prems(2) by auto
  then obtain c where c: "sw_conns w h = Some c"
    using table_entry Cons.prems(1) by (force simp: server_inv_def)
  obtain w1 where w1: "run_calls L app h (TcpConnection_on_socket_close c) w = Some w1" "server_inv L w1"
    "keeps L w w1" "uv_is_closing L h (wuv w1)" "sw_connections w1 = sw_connections w"
    using close_call [OF laws Cons.prems(1) c, of app h] by blast
  obtain w2 where w2: "close_all L app xs w1 = Some w2" "server_inv L w2" "keeps L w1 w2"
    "sw_connections w2 = sw_connections w1" "\<forall>(n, h) \<in> set xs. uv_is_closing L h (wuv w2)"
    using Cons.IH [OF w1(2)] Cons.prems(2) w1(5) by auto
  have "sw_conns w1 h \<noteq> None" using keeps_dom [OF w1(3), of h] c by simp
  then have "uv_is_closing L h (wuv w2)" using w1(4) w2(3) unfolding keeps_def by blast
  then show ?case
    using p c m w1 w2 keeps_trans [OF w1(3) w2(3)] by simp
qed simp

lemma server_closed_cases:
  assumes laws: "uv_laws L" and inv: "server_inv L w"
  obtains w1 where "close_all L app (sw_connections w) w = Some w1" "server_inv L w1" "keeps L w w1"
    "sw_connections w1 = sw_connections w" "\<And>h. sw_conns w h \<noteq> None \<Longrightarrow> uv_is_closing L h (wuv w1)"
proof -
  have t: "table_inv L w" using inv by (simp add: server_inv_def)
  have "\<forall>(n, h) \<in> set (sw_connections w). map_of (sw_connections w) n = Some h"
    using table_distinct [OF t] by auto
  from close_all_inv [OF laws inv this, of app] obtain w1 where
    w1: "close_all L app (sw_connections w) w = Some w1" "server_inv L w1" "keeps L w w1"
    "sw_connections w1 = sw_connections w" "\<forall>(n, h) \<in> set (sw_connections w). uv_is_closing L h (wuv w1)"
    by blast
  have "uv_is_closing L h (wuv w1)" if h: "sw_conns w h \<noteq> None" for h
  proof -
    obtain c where "sw_conns w h = Some c" using h by auto
    then have "map_of (sw_connections w) (tc_name c) = Some h" using table_conn [OF t] by blast
    then show ?thesis using w1(5) by (auto dest!: map_of_SomeD)
  qed
  then show ?thesis using that w1 by blast
qed

lemma acceptor_closed_good:
  assumes laws: "uv_laws L" and app: "app_ok L V app" and inv: "server_inv L w" and acc: "sw_acceptor w = Some acc"
  shows "good_step L w (TcpServer_event L A app AcceptorClosed w)"
proof (cases "ta_onCloseComplet acc")
  case None
  then show ?thesis
    using inv acc by (intro good_keeps)
      (simp add: TcpServer_event_def TcpAcceptor_on_close_complete_def server_closed_def)
next
  case (Some cb)
  obtain w1 where w1: "close_all L app (sw_connections w) w = Some w1" "server_inv L w1" "keeps L w w1"
    using server_closed_cases [OF laws inv] by metis
  have "good_step L w1 (app (AppServerClosed cb) w1)"
    using app w1(2) by (intro good_keeps) (simp add: app_ok_def)
  then show ?thesis
    using Some acc w1(1) good_after [OF w1(3)]
    by (simp add: TcpServer_event_def TcpAcceptor_on_close_complete_def server_closed_def)
qed

section \<open>Runs of a server\<close>

text \<open>A server that has been built, given a timeout and not started.\<close>

definition unstarted :: "('u, 'w, 'a, 's) world \<Rightarrow> bool" where
  "unstarted w \<longleftrightarrow> sw_connections w = [] \<and> sw_conns w = Map.empty \<and>
     tw_index (sw_wheel w) = 0 \<and> tw_wheel (sw_wheel w) = [] \<and> sw_released w = Map.empty \<and>
     sw_wrappers w = Map.empty"

lemma unstarted_new:
  "unstarted (TcpServer_new L mode junk nd io s)"
  "unstarted w \<Longrightarrow> unstarted (TcpServer_set_timeout T w)"
  by (simp_all add: unstarted_def TcpServer_new_def TcpServer_set_timeout_def TimerWheel_new_def
      TimerWheel_set_timeout_def split_beta Let_def)

lemma listen_inv:
  assumes "unstarted w" "TcpServer_listen L addr w = Some (0, w')"
  shows "server_inv L w'"
proof -
  let ?w0 = "w\<lparr>sw_ipv := SocketAddr_ipv addr\<rparr>"
  obtain u wh u' where start: "TimerWheel_start L (sw_wheel w, u) = Some (wh, u')"
    and w': "sw_wheel w' = wh" "sw_connections w' = sw_connections w" "sw_conns w' = sw_conns w"
      "sw_released w' = sw_released w"
    using assms(2)
    by (auto simp: TcpServer_listen_def put_uv_def Let_def split: Option.bind_splits if_splits prod.splits)
  have "(tw_timeoutSec wh = 0 \<or> wheel_ok wh) \<and> members wh = {}"
  proof (cases "tw_timeoutSec (sw_wheel w) = 0")
    case True
    then show ?thesis
      using start assms(1) by (auto simp: TimerWheel_start_def unstarted_def members_def)
  next
    case False
    then show ?thesis
      using wheel_started [OF False _ _ start] assms(1) members_age [of wh] by (auto simp: unstarted_def)
  qed
  then show ?thesis
    using assms(1) w' by (simp add: server_inv_def idle_inv_def heap_inv_def table_inv_def unstarted_def)
qed

text \<open>The states of a server: it listens, then takes the events libuv delivers.\<close>

inductive srv_reach :: "'u libuv \<Rightarrow> addr_lib \<Rightarrow> (byte list \<Rightarrow> bool) \<Rightarrow> ('u, 'w, 'a, 's) app \<Rightarrow>
    ('u, 'w, 'a, 's) world \<Rightarrow> bool"
  for L A V app where
  listen: "unstarted w \<Longrightarrow> TcpServer_listen L addr w = Some (0, w') \<Longrightarrow> srv_reach L A V app w'"
| event: "srv_reach L A V app w \<Longrightarrow> deliverable A L V e w \<Longrightarrow> TcpServer_event L A app e w = Some w' \<Longrightarrow>
    srv_reach L A V app w'"

lemma event_good:
  assumes "uv_laws L" "app_ok L V app" "server_inv L w" "deliverable A L V e w"
  shows "\<exists>w'. TcpServer_event L A app e w = Some w' \<and> server_inv L w' \<and>
    (\<forall>h. sw_conns w h \<noteq> None \<and> e \<noteq> Closed h \<longrightarrow> sw_conns w' h \<noteq> None)"
proof (cases "\<exists>h. e = Closed h")
  case True
  then obtain h c where h: "e = Closed h" "sw_conns w h = Some c" "uv_is_closing L h (wuv w)"
    using assms(4) by (auto simp: deliverable_def)
  then show ?thesis using closed_good [OF assms(2,3) h(2,3), of A] by auto
next
  case False
  have "good_step L w (TcpServer_event L A app e w)"
  proof (cases e)
    case (Accepted status client)
    then show ?thesis using accepted_good assms by blast
  next
    case (Received h nread buf)
    then obtain c where c: "sw_conns w h = Some c" "0 < nread \<Longrightarrow> V (take (nat nread) buf)"
      using assms(4) by (auto simp: deliverable_def)
    from received_good [OF assms(1-3) c] show ?thesis unfolding Received .
  next
    case (ShutdownDone r)
    then obtain h c where "map_of (io_shutdowns (sw_io w)) r = Some h" "sw_conns w h = Some c"
      using assms(4) by (auto simp: deliverable_def)
    from shutdown_good [OF assms(1,3) this] show ?thesis unfolding ShutdownDone .
  next
    case (WriteCompleted r status)
    then obtain wr where "map_of (io_writes (sw_io w)) r = Some wr"
      using assms(4) by (auto simp: deliverable_def)
    from write_completed_good [OF assms(2,3) this] show ?thesis unfolding WriteCompleted .
  next
    case WheelTurn
    show ?thesis unfolding WheelTurn
      by (rule wheel_turn_cases [OF assms(1,3), of A app]) (rule good_keeps, blast)
  next
    case AcceptorClosed
    then obtain acc where "sw_acceptor w = Some acc" using assms(4) by (auto simp: deliverable_def)
    from acceptor_closed_good [OF assms(1-3) this] show ?thesis unfolding AcceptorClosed .
  qed (use False in blast)
  then show ?thesis
    unfolding good_step_def keeps_old_def by (metis option.map_disc_iff)
qed

lemma srv_reach_inv: "srv_reach L A V app w \<Longrightarrow> uv_laws L \<Longrightarrow> app_ok L V app \<Longrightarrow> server_inv L w"
  by (induction rule: srv_reach.induct) (auto intro: listen_inv dest: event_good)

section \<open>Properties\<close>

text \<open>C1: The server never uses a connection that has been freed, as long as no client is accepted whose
  peer name is that of a connection in the table (that case is C40). From the moment it listens, with
  any application whose callbacks keep to its interface (they may write to connections and close
  them, and leave it to the server to free them), it handles every such accepted client and every
  other event libuv delivers for a connection the server owns, for its requests, its wheel and its
  listening handle; a connection is freed by the event that reports its own handle closed and by no
  other; and the table holds exactly the connections that are alive, under their names.\<close>

theorem server_safe:
  assumes "uv_laws L" and "app_ok L V app" and "srv_reach L A V app w"
  shows "(\<forall>e. deliverable A L V e w \<longrightarrow> (\<exists>w'. TcpServer_event L A app e w = Some w' \<and>
      (\<forall>h. sw_conns w h \<noteq> None \<and> e \<noteq> Closed h \<longrightarrow> sw_conns w' h \<noteq> None))) \<and>
    (\<forall>name h. TcpServer_get_connection name w = Some h \<longleftrightarrow> (\<exists>c. sw_conns w h = Some c \<and> tc_name c = name))"
proof -
  have inv: "server_inv L w" using srv_reach_inv assms by blast
  then have t: "table_inv L w" by (simp add: server_inv_def)
  have "TcpServer_get_connection name w = Some h \<longleftrightarrow> (\<exists>c. sw_conns w h = Some c \<and> tc_name c = name)"
    for name h
    using table_entry [OF t, of name h] table_conn [OF t, of h] by (auto simp: TcpServer_get_connection_def)
  then show ?thesis using event_good [OF assms(1,2) inv] by blast
qed

definition demo_addr :: socket_addr where
  "demo_addr = SocketAddr_of_ip demo_addr_lib ''127.0.0.1'' 80 Ipv4"

definition demo_srv_io :: "(uv_call list, string) io" where
  "demo_srv_io = \<lparr>io_uv = [], io_writes = [], io_shutdowns = [], io_next = 2\<rparr>"

definition demo_server :: "(uv_call list, string, string, unit) world" where
  "demo_server = TcpServer_set_timeout 2 (TcpServer_new trace_uv NoBuffer Ipv6 True demo_srv_io ())"

lemma idle_app_ok: "app_ok L V (\<lambda>x w. Some w)"
  by (simp add: app_ok_def)

lemma demo_listen: "\<exists>w. TcpServer_listen trace_uv demo_addr demo_server = Some (0, w)"
  by (simp add: TcpServer_listen_def demo_addr_def demo_server_def TcpServer_new_def TcpServer_set_timeout_def
      TimerWheel_new_def TimerWheel_set_timeout_def TimerWheel_start_def Timer_defs TcpAcceptor_defs
      SocketAddr_of_ip_def SocketAddr_addr_def SocketAddr_ipv_def trace_uv_def uv_do_def put_uv_def Let_def
      split_beta)

theorem server_safe_witness:
  "\<exists>w w'. TcpServer_listen trace_uv demo_addr demo_server = Some (0, w) \<and>
     TcpServer_event trace_uv demo_addr_lib (\<lambda>x w. Some w) WheelTurn w = Some w'"
proof -
  obtain w where w: "TcpServer_listen trace_uv demo_addr demo_server = Some (0, w)"
    using demo_listen by blast
  have "unstarted demo_server" unfolding demo_server_def by (intro unstarted_new)
  from srv_reach.listen [OF this w]
  have "srv_reach trace_uv demo_addr_lib (\<lambda>buf. True) (\<lambda>x w. Some w) w" .
  from server_safe [OF trace_uv_laws idle_app_ok this] have
    "deliverable demo_addr_lib trace_uv (\<lambda>buf. True) WheelTurn w \<longrightarrow>
      (\<exists>w'. TcpServer_event trace_uv demo_addr_lib (\<lambda>x w. Some w) WheelTurn w = Some w')" by blast
  with w show ?thesis by (auto simp: deliverable_def)
qed

text \<open>C2: A turn of the wheel closes exactly the connections that have been silent for the whole timeout:
  one whose wrapper has an idle time one short of it begins to close, one with a shorter idle
  time ages by a turn, and every handle not behind an expiring wrapper is left alone.\<close>

theorem idle_connection_closed:
  assumes "uv_laws L" and "server_inv L w" and "wheel_age (sw_wheel w) x = Some d"
    and "sw_wrappers w x = Some h" and "sw_conns w h \<noteq> None"
  shows "\<exists>w'. TcpServer_event L A app WheelTurn w = Some w' \<and>
    (if Suc d = slots (sw_wheel w) then uv_is_closing L h (wuv w')
     else wheel_age (sw_wheel w') x = Some (Suc d) \<and> sw_wrappers w' x = Some h) \<and>
    (\<forall>g. (\<forall>y n. sw_wrappers w y = Some g \<longrightarrow> wheel_age (sw_wheel w) y = Some n \<longrightarrow> Suc n < slots (sw_wheel w)) \<longrightarrow>
       uv_is_closing L g (wuv w') = uv_is_closing L g (wuv w))"
proof -
  have pos: "0 < slots (sw_wheel w)" and dT: "d < slots (sw_wheel w)"
    using assms(3) by (auto simp: wheel_age_def dest!: find_SomeD)
  then have ok: "wheel_ok (sw_wheel w)"
    using assms(2) by (auto simp: server_inv_def idle_inv_def)
  show ?thesis
  proof (rule wheel_turn_cases [OF assms(1,2), of A app])
    fix wh w'
    assume wh: "TimerWheel_wheel_callback (sw_wheel w) = Some wh"
      and w': "TcpServer_event L A app WheelTurn w = Some w'" "server_inv L w'" "keeps L w w'" "sw_wheel w' = wh"
      and drop: "\<And>x h. x \<in> members (sw_wheel w) - members wh \<Longrightarrow> sw_wrappers w x = Some h \<Longrightarrow>
         sw_conns w h \<noteq> None \<Longrightarrow> uv_is_closing L h (wuv w')"
      and kept: "\<And>x. x \<in> members wh \<Longrightarrow> sw_wrappers w' x = sw_wrappers w x"
      and same: "\<And>g. (\<And>x. x \<in> members (sw_wheel w) - members wh \<Longrightarrow> sw_wrappers w x \<noteq> Some g) \<Longrightarrow>
         uv_is_closing L g (wuv w') = uv_is_closing L g (wuv w)"
  have ok': "wheel_ok wh" using callback_keeps_ok [OF ok wh] by simp
  note age = wheel_age_tick [OF ok wh]
  have mem: "y \<in> members (sw_wheel w) - members wh \<longleftrightarrow>
      (\<exists>n. wheel_age (sw_wheel w) y = Some n \<and> \<not> Suc n < slots (sw_wheel w))" for y
    using members_age [OF ok, of y] members_age [OF ok', of y] age [of y]
    by (auto split: option.splits if_splits)
  have "if Suc d = slots (sw_wheel w) then uv_is_closing L h (wuv w')
     else wheel_age (sw_wheel w') x = Some (Suc d) \<and> sw_wrappers w' x = Some h"
    using mem [of x] drop [of x h] kept [of x] age [of x] members_age [OF ok', of x] assms(3-5) dT w'(4)
    by auto
  moreover have "uv_is_closing L g (wuv w') = uv_is_closing L g (wuv w)"
    if "\<forall>y n. sw_wrappers w y = Some g \<longrightarrow> wheel_age (sw_wheel w) y = Some n \<longrightarrow> Suc n < slots (sw_wheel w)" for g
    using same [of g] mem that by blast
  ultimately show ?thesis using w'(1) by blast
  qed
qed

text \<open>A server with one connection that has been silent for one of two turns.\<close>

definition demo_peer :: srv_connection where
  "demo_peer = \<lparr>tc_name = ''peer'', tc_connected = True, tc_handle = 1, tc_data = [], tc_buffer = None,
     tc_wrapper = Some 9, tc_onMessageCallback = Some SrvMessage,
     tc_onConnectCloseCallback = Some SrvCloseConnection, tc_closeCompleteCallback = None\<rparr>"

definition demo_world :: "(uv_call list, string, string, unit) world" where
  "demo_world = demo_server\<lparr>sw_connections := [(''peer'', 1)], sw_conns := [1 \<mapsto> demo_peer],
     sw_released := Map.empty, sw_wrappers := [9 \<mapsto> 1], sw_acceptor := Some ((fst (TcpAcceptor_new trace_uv 3 True []))
       \<lparr>ta_onCloseComplet := Some ''closed''\<rparr>),
     sw_wheel := \<lparr>tw_index = 0, tw_timeoutSec = 2, tw_timer = fst (Timer_new trace_uv 2 1000 1000 (Some ()) []),
       tw_wheel = [{}, {9}]\<rparr>, sw_io := demo_srv_io\<rparr>"

lemma demo_world_inv: "server_inv trace_uv demo_world"
  by (simp add: server_inv_def table_inv_def idle_inv_def heap_inv_def demo_world_def demo_peer_def conn_inv_def
      wheel_ok_def members_def trace_uv_def demo_srv_io_def)

lemma demo_world_age: "wheel_age (sw_wheel demo_world) 9 = Some 1"
  by (simp add: demo_world_def wheel_age_def slot_back_def upt_rec)

lemma demo_world_sel:
  "sw_wrappers demo_world 9 = Some 1" "sw_conns demo_world 1 = Some demo_peer"
  "slots (sw_wheel demo_world) = 2" "sw_onConnectCloseCallback demo_world = None"
  "wuv demo_world = []" "sw_connections demo_world = [(''peer'', 1)]"
  "sw_acceptor demo_world = Some ((fst (TcpAcceptor_new trace_uv 3 True []))\<lparr>ta_onCloseComplet := Some ''closed''\<rparr>)"
  by (simp_all add: demo_world_def demo_srv_io_def demo_server_def TcpServer_new_def TcpServer_set_timeout_def
      TimerWheel_new_def split_beta Let_def)

theorem idle_connection_closed_witness:
  "\<exists>w'. TcpServer_event trace_uv demo_addr_lib (\<lambda>x w. Some w) WheelTurn demo_world = Some w' \<and>
     uv_is_closing trace_uv 1 (wuv w')"
  using idle_connection_closed [OF trace_uv_laws demo_world_inv demo_world_age demo_world_sel(1),
      of demo_addr_lib "\<lambda>x w. Some w"] demo_world_sel by auto

text \<open>C5: When libuv reports the handle of a closing connection closed, the application is told once,
  while the connection is still in the table; then the entry is removed and the object freed,
  and no other entry or object changes.\<close>

theorem connection_closed_once:
  assumes "app_ok L V app" and "server_inv L w" and "sw_conns w h = Some c"
    and "tc_closeCompleteCallback c = Some SrvCloseDone"
  shows "\<exists>w1 w'. app_opt app (sw_onConnectCloseCallback w) (\<lambda>a. AppConnectClose a h) w = Some w1 \<and>
    TcpServer_event L A app (Closed h) w = Some w' \<and> sw_conns w' = (sw_conns w1)(h := None) \<and>
    (\<forall>n. TcpServer_get_connection n w' = (if n = tc_name c then None else TcpServer_get_connection n w1)) \<and>
    TcpServer_get_connection (tc_name c) w1 = Some h"
proof -
  obtain w1 w' where w1: "app_opt app (sw_onConnectCloseCallback w) (\<lambda>a. AppConnectClose a h) w = Some w1"
      "keeps L w w1" "server_inv L w1"
    and w': "run_calls L app h (TcpConnection_close_complete c) w = Some w'"
      "w' = w1\<lparr>sw_connections := AList.delete (tc_name c) (sw_connections w1), sw_conns := (sw_conns w1)(h := None),
      sw_released := (sw_released w1)(h := sw_conns w1 h)\<rparr>"
    using close_done [OF assms, of h] by blast
  have "map_option tc_name (sw_conns w1 h) = Some (tc_name c)"
    using w1(2) assms(3) by (simp add: keeps_def)
  then obtain c1 where c1: "sw_conns w1 h = Some c1" "tc_name c1 = tc_name c" by auto
  then have "TcpServer_get_connection (tc_name c) w1 = Some h"
    using table_conn [of L w1 h c1] w1(3) by (simp add: server_inv_def TcpServer_get_connection_def)
  then show ?thesis
    using w1(1) w' assms(3)
    by (simp add: TcpServer_event_def TcpServer_get_connection_def AList.delete_conv)
qed

definition demo_closing :: "(uv_call list, string, string, unit) world" where
  "demo_closing = put_uv [UvClose 1] (put_conn 1 (demo_peer\<lparr>tc_onMessageCallback := None,
     tc_onConnectCloseCallback := None, tc_closeCompleteCallback := Some SrvCloseDone\<rparr>) demo_world)"

theorem connection_closed_once_witness:
  "TcpServer_close_connection trace_uv (\<lambda>x w. Some w) ''peer'' demo_world = Some demo_closing \<and>
   (\<exists>w'. TcpServer_event trace_uv demo_addr_lib (\<lambda>x w. Some w) (Closed 1) demo_closing = Some w' \<and>
     TcpServer_get_connection ''peer'' w' = None)"
proof
  show close: "TcpServer_close_connection trace_uv (\<lambda>x w. Some w) ''peer'' demo_world = Some demo_closing"
    using demo_world_sel
    by (simp add: TcpServer_close_connection_def TcpServer_get_connection_def TcpConnection_close_def
        demo_closing_def demo_peer_def trace_uv_def uv_do_def Let_def)
  have "server_inv trace_uv demo_closing"
    by (simp add: server_inv_def table_inv_def idle_inv_def heap_inv_def demo_closing_def demo_world_def
        demo_peer_def conn_inv_def wheel_ok_def members_def trace_uv_def demo_srv_io_def put_uv_def put_conn_def)
  moreover have "sw_conns demo_closing 1 = Some (demo_peer\<lparr>tc_onMessageCallback := None,
     tc_onConnectCloseCallback := None, tc_closeCompleteCallback := Some SrvCloseDone\<rparr>)"
    by (simp add: demo_closing_def put_uv_def put_conn_def)
  ultimately show "\<exists>w'. TcpServer_event trace_uv demo_addr_lib (\<lambda>x w. Some w) (Closed 1) demo_closing = Some w' \<and>
     TcpServer_get_connection ''peer'' w' = None"
    using connection_closed_once [OF idle_app_ok, of trace_uv demo_closing 1 _ demo_addr_lib]
    by (fastforce simp: demo_peer_def)
qed

text \<open>C4: Closing the server: when the listening handle has been closed, every connection that is alive
  begins to close, one after the other and without the loop over the table ever losing the entry
  it stands at, and only then is the application told that the server is closed.\<close>

theorem server_close_closes_all:
  assumes "uv_laws L" and "server_inv L w" and "sw_acceptor w = Some acc" and "ta_onCloseComplet acc = Some cb"
  shows "\<exists>w1. close_all L app (sw_connections w) w = Some w1 \<and> sw_connections w1 = sw_connections w \<and>
    (\<forall>h. sw_conns w h \<noteq> None \<longrightarrow> uv_is_closing L h (wuv w1)) \<and>
    TcpServer_event L A app AcceptorClosed w = app (AppServerClosed cb) w1"
proof (rule server_closed_cases [OF assms(1,2), of app])
  fix w1 assume w1: "close_all L app (sw_connections w) w = Some w1" "sw_connections w1 = sw_connections w"
    "\<And>h. sw_conns w h \<noteq> None \<Longrightarrow> uv_is_closing L h (wuv w1)"
  have "TcpServer_event L A app AcceptorClosed w = app (AppServerClosed cb) w1"
    using assms(3,4) w1(1)
    by (simp add: TcpServer_event_def TcpAcceptor_on_close_complete_def server_closed_def)
  then show ?thesis using w1 by blast
qed

theorem server_close_closes_all_witness:
  "\<exists>w1. TcpServer_event trace_uv demo_addr_lib (\<lambda>x w. Some w) AcceptorClosed demo_world = Some w1 \<and>
     uv_is_closing trace_uv 1 (wuv w1)"
  using server_close_closes_all [OF trace_uv_laws demo_world_inv demo_world_sel(7),
      of "''closed''" "\<lambda>x w. Some w" demo_addr_lib] demo_world_sel by auto

lemma run_done_nil [simp]: "x \<bind> run_done app [] = x"
  by (cases x) simp_all




text \<open>The new-connect callback, given a weak reference, returns and leaves the table and the state of the
  client's handle as they are; it may write to the client, or post to other threads.\<close>

definition leaves_newcomer :: "'u libuv \<Rightarrow> ('u, 'w, 'a, 's) app \<Rightarrow> hid \<Rightarrow> ('u, 'w, 'a, 's) world \<Rightarrow> bool" where
  "leaves_newcomer L app client w \<longleftrightarrow> (\<forall>v. sw_conns v client \<noteq> None \<longrightarrow> sw_connections v = sw_connections w \<longrightarrow>
     (\<exists>v'. app_opt app (sw_onNewConnectCallback w) (\<lambda>a. AppNewConnect a client) v = Some v' \<and>
        sw_connections v' = sw_connections v \<and> uv_is_closing L client (wuv v') = uv_is_closing L client (wuv v)))"

text \<open>C40: A client whose peer name is still in the table is lost at once, with or without an idle timeout:
  the table keeps the old entry, the server keeps no reference to the new connection, and lets it go
  at the end of the handler while its handle is open and reading. The callback for new connections
  gets a weak reference; when it neither makes a lasting one of it nor changes the table nor closes
  the handle, the object is freed, and the next event of the client uses the freed object.\<close>

theorem duplicate_name_frees:
  assumes "uv_laws L" and "server_inv L w" and "sw_conns w client = None"
    and "\<not> uv_is_closing L client (wuv w)"
    and "SocketAddr_addr_to_str A (uv_getpeername L client (wuv w)) (sw_ipv w) = Some key"
    and "map_of (sw_connections w) key = Some h" and "leaves_newcomer L app client w"
  shows "\<exists>w'. TcpServer_on_accept L A app client w = Some w' \<and> sw_connections w' = sw_connections w \<and>
    sw_conns w' client = None \<and> \<not> uv_is_closing L client (wuv w') \<and>
    TcpServer_event L A app (Received client nread buf) w' = None"
proof -
  have no: "client \<notin> snd ` set (sw_connections w)"
  proof
    assume "client \<in> snd ` set (sw_connections w)"
    then obtain n where "(n, client) \<in> set (sw_connections w)" by auto
    then have "map_of (sw_connections w) n = Some client"
      using assms(2) by (simp add: server_inv_def table_inv_def)
    then show False using table_entry [of L w n client] assms(2,3) by (auto simp: server_inv_def)
  qed
  obtain c0 :: srv_connection
    where new: "TcpConnection_new L (sw_mode w) key client True (wuv w) = (c0, uv_do L (UvReadStart client) (wuv w))"
    by (simp add: TcpConnection_new_def)
  have "\<exists>v. TcpServer_on_accept L A app client w = Option.bind
        (app_opt app (sw_onNewConnectCallback w) (\<lambda>a. AppNewConnect a client) v) (\<lambda>v. Some (release client v)) \<and>
      sw_conns v client \<noteq> None \<and> sw_connections v = sw_connections w \<and>
      wuv v = uv_do L (UvReadStart client) (wuv w)"
  proof (cases "TimerWheel_get_timeout (sw_wheel w) > 0")
    case True
    then have "wheel_ok (sw_wheel w)" using assms(2) timeout_wheel [of w] by (simp add: server_inv_def)
    then show ?thesis
      using True assms(5,6)
      by (simp add: TcpServer_on_accept_def TcpServer_add_connection_def new insert_ok
          put_uv_def put_conn_def put_log_def Let_def) (intro exI conjI, rule refl, simp_all)
  next
    case False
    then show ?thesis
      using assms(5,6)
      by (simp add: TcpServer_on_accept_def TcpServer_add_connection_def new
          put_uv_def put_conn_def put_log_def Let_def) (intro exI conjI, rule refl, simp_all)
  qed
  then obtain v where v: "sw_conns v client \<noteq> None" "sw_connections v = sw_connections w"
    "wuv v = uv_do L (UvReadStart client) (wuv w)" "TcpServer_on_accept L A app client w = Option.bind
      (app_opt app (sw_onNewConnectCallback w) (\<lambda>a. AppNewConnect a client) v) (\<lambda>v. Some (release client v))"
    by blast
  then obtain v' where v': "app_opt app (sw_onNewConnectCallback w) (\<lambda>a. AppNewConnect a client) v = Some v'"
    "sw_connections v' = sw_connections w" "uv_is_closing L client (wuv v') = uv_is_closing L client (wuv v)"
    using assms(7) unfolding leaves_newcomer_def by metis
  have "sw_connections (release client v') = sw_connections w" "sw_conns (release client v') client = None"
    "wuv (release client v') = wuv v'"
    using no v'(2) by (auto simp: release_def split: option.splits)
  then show ?thesis
    using v(3,4) v'(1,3) assms(1,4) by (auto simp: TcpServer_event_def uv_simps)
qed

text \<open>A server with a timeout that has a connection of the peer that comes again.\<close>

definition demo_again :: "(uv_call list, string, string, unit) world" where
  "demo_again = demo_world\<lparr>sw_connections := [(dotted 127 0 0 1 @ '':'' @ u16_string 5, 1)],
     sw_conns := [1 \<mapsto> demo_peer\<lparr>tc_name := dotted 127 0 0 1 @ '':'' @ u16_string 5\<rparr>], sw_ipv := Ipv4,
     sw_onNewConnectCallback := Some ''new''\<rparr>"

theorem duplicate_name_frees_witness:
  "\<exists>w'. TcpServer_on_accept trace_uv demo_addr_lib (\<lambda>x w. Some w) 5 demo_again = Some w' \<and> sw_conns w' 5 = None"
proof -
  let ?key = "dotted 127 0 0 1 @ '':'' @ u16_string 5"
  have inv: "server_inv trace_uv demo_again"
    by (simp add: server_inv_def table_inv_def idle_inv_def heap_inv_def demo_again_def demo_world_def demo_peer_def
        conn_inv_def wheel_ok_def members_def trace_uv_def demo_srv_io_def)
  have sel: "sw_conns demo_again 5 = None" "\<not> uv_is_closing trace_uv 5 (wuv demo_again)"
    "map_of (sw_connections demo_again) ?key = Some 1" "sw_ipv demo_again = Ipv4"
    by (simp_all add: demo_again_def demo_world_def demo_srv_io_def demo_server_def TcpServer_new_def
        TcpServer_set_timeout_def trace_uv_def split_beta Let_def)
  have "SocketAddr_addr_to_str demo_addr_lib (uv_getpeername trace_uv 5 (wuv demo_again)) (sw_ipv demo_again) = Some ?key"
    by (simp add: SocketAddr_addr_to_str_def SocketAddr_get_ip_and_port_def inet_ntoa_def at_def trace_uv_def sel)
  moreover have "leaves_newcomer trace_uv (\<lambda>x w. Some w) 5 demo_again"
    by (simp add: leaves_newcomer_def app_opt_def split: option.split)
  ultimately show ?thesis
    using duplicate_name_frees [OF trace_uv_laws inv sel(1,2) _ sel(3), of demo_addr_lib "\<lambda>x w. Some w"] by blast
qed

end
