(* ===== verification/Tcp_Client.thy ===== *)
theory Tcp_Client
  imports Tcp_Connection
begin

text \<open>
  The TCP client: \<^verbatim>\<open>ae/tcp_client.h\<close>, \<^verbatim>\<open>ae/tcp_client.cpp\<close>. The state is the object together with
  libuv's state and requests (\<open>client_io\<close>). The two shared pointers of the object, \<^verbatim>\<open>socket_\<close> and
  \<^verbatim>\<open>connection_\<close>, own what they point to: the connection is the value of \<open>cl_connection\<close>, and the
  memory of a handle is there while one of the two refers to it. Operations return the callbacks
  they make, in order; each is the last thing the operation does with the object. Freeing what
  libuv still uses, or using what is freed, is \<open>None\<close>.
\<close>

section \<open>State\<close>

datatype connect_status = ConnectSuccess | ConnectFail | ConnectClose

text \<open>What the client binds as callbacks of its connection. The completion callback is \<^verbatim>\<open>on_close\<close> or
  the function \<^verbatim>\<open>close\<close> makes of its argument.\<close>

datatype client_message = ClientMessage
datatype client_close = ClientConnectClose
datatype 'x client_done = OnClose | OnClosed "'x option"

type_synonym 'x client_connection = "(client_message, client_close, 'x client_done) tcp_connection"

record ('s, 'n, 'x) tcp_client =
  cl_connection :: "'x client_connection option"
  cl_connect :: rid
  cl_ipv :: IPV
  cl_socket :: "hid option"
  cl_tcpNoDelay :: bool
  cl_connectCallback :: "'s option"
  cl_onMessageCallback :: "'n option"

text \<open>With the requests of connections: the connect requests libuv holds, the handles it has (from
  their initialisation to their close callback) and those it reads from.\<close>

record ('u, 'w) client_io =
  ci_io :: "('u, 'w) io"
  ci_connects :: "(rid \<times> hid) list"
  ci_open :: "hid list"
  ci_reading :: "hid list"

datatype ('s, 'n, 'x, 'w) client_call =
    CallStatus 's connect_status
  | CallNewMessage 'n "byte list"
  | CallClosed 'x
  | CallAfterWrite 'w write_info
  | ClientLog log_level string

type_synonym ('s, 'n, 'x, 'u, 'w) client_state = "('s, 'n, 'x) tcp_client \<times> ('u, 'w) client_io"

type_synonym ('s, 'n, 'x, 'u, 'w) client_result =
  "('s, 'n, 'x, 'u, 'w) client_state \<times> ('s, 'n, 'x, 'w) client_call list"

abbreviation cuv :: "('u, 'w) client_io \<Rightarrow> 'u" where
  "cuv io \<equiv> io_uv (ci_io io)"

definition with_uv :: "'u \<Rightarrow> ('u, 'w) client_io \<Rightarrow> ('u, 'w) client_io" where
  "with_uv u io = io\<lparr>ci_io := (ci_io io)\<lparr>io_uv := u\<rparr>\<rparr>"

text \<open>The handles the object keeps alive; \<open>settle\<close> is an update of the object that frees the others.\<close>

definition client_handles :: "('s, 'n, 'x) tcp_client \<Rightarrow> hid list" where
  "client_handles cl = calls_of (cl_socket cl) @ map tc_handle (calls_of (cl_connection cl))"

definition settle :: "('s, 'n, 'x) tcp_client \<Rightarrow> ('s, 'n, 'x) tcp_client \<Rightarrow> ('u, 'w) client_io \<Rightarrow>
    ('s, 'n, 'x) tcp_client option" where
  "settle cl cl' io =
     (if list_all (\<lambda>h. h \<in> set (client_handles cl') \<or> h \<notin> set (ci_open io)) (client_handles cl)
      then Some cl' else None)"

text \<open>The connection over a handle, when the object there still is one.\<close>

definition conn_at :: "hid \<Rightarrow> ('s, 'n, 'x) tcp_client \<Rightarrow> 'x client_connection option" where
  "conn_at h cl = (case cl_connection cl of
     Some c \<Rightarrow> if tc_handle c = h then Some c else None | None \<Rightarrow> None)"

section \<open>Operations\<close>

definition TcpClient_new :: "rid \<Rightarrow> bool \<Rightarrow> ('s, 'n, 'x) tcp_client" where
  "TcpClient_new r tcpNoDelay =
     \<lparr>cl_connection = None, cl_connect = r, cl_ipv = Ipv4, cl_socket = None,
      cl_tcpNoDelay = tcpNoDelay, cl_connectCallback = None, cl_onMessageCallback = None\<rparr>"

text \<open>The destructor deletes the request and frees the handles.\<close>

definition TcpClient_destroy :: "('s, 'n, 'x, 'u, 'w) client_state \<Rightarrow> ('u, 'w) client_io option" where
  "TcpClient_destroy = (\<lambda>(cl, io).
     if cl_connect cl \<in> fst ` set (ci_connects io) \<or>
        list_ex (\<lambda>h. h \<in> set (ci_open io)) (client_handles cl) then None else Some io)"

definition TcpClient_is_tcp_no_delay :: "('s, 'n, 'x) tcp_client \<Rightarrow> bool" where
  "TcpClient_is_tcp_no_delay cl = cl_tcpNoDelay cl"

definition TcpClient_set_tcp_no_delay :: "bool \<Rightarrow> ('s, 'n, 'x) tcp_client \<Rightarrow> ('s, 'n, 'x) tcp_client" where
  "TcpClient_set_tcp_no_delay isNoDelay cl = cl\<lparr>cl_tcpNoDelay := isNoDelay\<rparr>"

definition TcpClient_set_connect_status_callback ::
    "'s option \<Rightarrow> ('s, 'n, 'x) tcp_client \<Rightarrow> ('s, 'n, 'x) tcp_client" where
  "TcpClient_set_connect_status_callback callback cl = cl\<lparr>cl_connectCallback := callback\<rparr>"

definition TcpClient_set_message_callback ::
    "'n option \<Rightarrow> ('s, 'n, 'x) tcp_client \<Rightarrow> ('s, 'n, 'x) tcp_client" where
  "TcpClient_set_message_callback callback cl = cl\<lparr>cl_onMessageCallback := callback\<rparr>"

definition TcpClient_get_current_buf :: "('s, 'n, 'x) tcp_client \<Rightarrow> list_buffer option" where
  "TcpClient_get_current_buf cl = do { c \<leftarrow> cl_connection cl; tc_buffer c }"

definition TcpClient_run_connect_callback ::
    "connect_status \<Rightarrow> ('s, 'n, 'x) tcp_client \<Rightarrow> ('s, 'n, 'x, 'w) client_call list" where
  "TcpClient_run_connect_callback status cl =
     map (\<lambda>f. CallStatus f status) (calls_of (cl_connectCallback cl))"

definition TcpClient_on_close :: "('s, 'n, 'x) tcp_client \<Rightarrow> ('s, 'n, 'x, 'w) client_call list" where
  "TcpClient_on_close cl = ClientLog Info ''Close tcp client connection complete.''
     # TcpClient_run_connect_callback ConnectClose cl"

definition TcpClient_after_connect_fail :: "('s, 'n, 'x) tcp_client \<Rightarrow> ('s, 'n, 'x, 'w) client_call list" where
  "TcpClient_after_connect_fail cl = TcpClient_run_connect_callback ConnectFail cl"

definition TcpClient_on_message ::
    "byte list \<Rightarrow> ('s, 'n, 'x) tcp_client \<Rightarrow> ('s, 'n, 'x, 'w) client_call list" where
  "TcpClient_on_message buf cl = map (\<lambda>f. CallNewMessage f buf) (calls_of (cl_onMessageCallback cl))"

text \<open>The new handle takes the next free address.\<close>

definition TcpClient_create_tcp_socket ::
    "'u libuv \<Rightarrow> ('s, 'n, 'x, 'u, 'w) client_state \<Rightarrow> ('s, 'n, 'x, 'u, 'w) client_state option" where
  "TcpClient_create_tcp_socket L = (\<lambda>(cl, io). do {
     let h = io_next (ci_io io);
     cl \<leftarrow> settle cl (cl\<lparr>cl_socket := Some h\<rparr>) io;
     let u = uv_do L (UvTcpInit h) (cuv io);
     let u = (if cl_tcpNoDelay cl then uv_do L (UvTcpNodelay h) u else u);
     Some (cl, io\<lparr>ci_io := (ci_io io)\<lparr>io_uv := u, io_next := Suc h\<rparr>, ci_open := h # ci_open io\<rparr>) })"

text \<open>The code of \<^verbatim>\<open>uv_tcp_connect\<close> is ignored; when it reports an error there is no request.\<close>

definition TcpClient_connect ::
    "'u libuv \<Rightarrow> socket_addr \<Rightarrow> ('s, 'n, 'x, 'u, 'w) client_state \<Rightarrow>
     ('s, 'n, 'x, 'u, 'w) client_state option" where
  "TcpClient_connect L addr s = do {
     (cl, io) \<leftarrow> TcpClient_create_tcp_socket L s;
     let cl = cl\<lparr>cl_ipv := SocketAddr_ipv addr\<rparr>;
     h \<leftarrow> cl_socket cl;
     sa \<leftarrow> SocketAddr_addr addr;
     let (rst, u) = uv L (UvTcpConnect (cl_connect cl) h sa) (cuv io);
     let io = with_uv u io;
     Some (cl, if rst = 0 then io\<lparr>ci_connects := (cl_connect cl, h) # ci_connects io\<rparr> else io) }"

definition TcpClient_on_connect ::
    "'u libuv \<Rightarrow> addr_lib \<Rightarrow> buffer_mode \<Rightarrow> bool \<Rightarrow> ('s, 'n, 'x, 'u, 'w) client_state \<Rightarrow>
     ('s, 'n, 'x, 'u, 'w) client_result option" where
  "TcpClient_on_connect L A mode success = (\<lambda>(cl, io).
     if success then do {
       h \<leftarrow> cl_socket cl;
       name \<leftarrow> SocketAddr_addr_to_str A (uv_getpeername L h (cuv io)) (cl_ipv cl);
       let (c, u) = TcpConnection_new L mode name h True (cuv io);
       cl \<leftarrow> settle cl (cl\<lparr>cl_connection := Some c\<rparr>) io;
       let c = TcpConnection_set_message_callback (Some ClientMessage) c;
       let c = TcpConnection_set_connect_close_callback (Some ClientConnectClose) c;
       let cl = cl\<lparr>cl_connection := Some c\<rparr>;
       Some ((cl, (with_uv u io)\<lparr>ci_reading := h # ci_reading io\<rparr>),
         TcpClient_run_connect_callback ConnectSuccess cl) }
     else do {
       h \<leftarrow> cl_socket cl;
       let u = cuv io;
       let u = (if uv_is_active L h u then uv_do L (UvReadStop h) u else u);
       let u = (if \<not> uv_is_closing L h u then uv_do L (UvClose h) u else u);
       Some ((cl, with_uv u io), []) })"

text \<open>What the calls of the connection lead to, but for \<^verbatim>\<open>on_connect_close\<close>.\<close>

fun client_call_of :: "('s, 'n, 'x) tcp_client \<Rightarrow>
    (client_message, client_close, 'x client_done, 'w) conn_call \<Rightarrow> ('s, 'n, 'x, 'w) client_call list" where
  "client_call_of cl (CallMessage ClientMessage buf) = TcpClient_on_message buf cl"
| "client_call_of cl (CallCloseComplete OnClose name) = TcpClient_on_close cl"
| "client_call_of cl (CallCloseComplete (OnClosed callback) name) = map CallClosed (calls_of callback)"
| "client_call_of cl (CallWrite f info) = [CallAfterWrite f info]"
| "client_call_of cl (Log l s) = [ClientLog l s]"
| "client_call_of cl (CallConnectClose ClientConnectClose name) = []"

definition close_connection :: "'u libuv \<Rightarrow> 'x client_done \<Rightarrow> 'x client_connection \<Rightarrow>
    ('s, 'n, 'x, 'u, 'w) client_state \<Rightarrow> ('s, 'n, 'x, 'u, 'w) client_result" where
  "close_connection L k c = (\<lambda>(cl, io).
     let ((c, u), cs) = TcpConnection_close L (Some k) (c, cuv io);
         cl = cl\<lparr>cl_connection := Some c\<rparr>
     in ((cl, with_uv u io), concat (map (client_call_of cl) cs)))"

definition TcpClient_on_connect_close :: "'u libuv \<Rightarrow> ('s, 'n, 'x, 'u, 'w) client_state \<Rightarrow>
    ('s, 'n, 'x, 'u, 'w) client_result" where
  "TcpClient_on_connect_close L s = (case cl_connection (fst s) of
     Some c \<Rightarrow> close_connection L OnClose c s | None \<Rightarrow> (s, []))"

definition TcpClient_close :: "'u libuv \<Rightarrow> 'x option \<Rightarrow> ('s, 'n, 'x, 'u, 'w) client_state \<Rightarrow>
    ('s, 'n, 'x, 'u, 'w) client_result" where
  "TcpClient_close L callback s = (case cl_connection (fst s) of
     Some c \<Rightarrow> close_connection L (OnClosed callback) c s
   | None \<Rightarrow> (s, map CallClosed (calls_of callback)))"

text \<open>The report of a write without a connection.\<close>

definition not_connected :: "byte list \<Rightarrow> 'w option \<Rightarrow> ('s, 'n, 'x, 'w) client_call list" where
  "not_connected buf callback = (case callback of
     Some f \<Rightarrow> [ClientLog Warn ''try write a disconnect connection.'',
       CallAfterWrite f \<lparr>wi_status = Disconnected, wi_buf = buf, wi_size = of_nat (length buf)\<rparr>]
   | None \<Rightarrow> [])"

text \<open>The writes of a client have an \<^verbatim>\<open>unsigned int\<close> size: what the caller gives is cut to it.\<close>

definition TcpClient_write :: "'u libuv \<Rightarrow> byte list \<Rightarrow> 'w option \<Rightarrow> ('s, 'n, 'x, 'u, 'w) client_state \<Rightarrow>
    int \<times> ('s, 'n, 'x, 'u, 'w) client_result" where
  "TcpClient_write L sbuf callback = (\<lambda>(cl, io). let buf = uv_buf sbuf in case cl_connection cl of
     Some c \<Rightarrow>
       let (rst, i, cs) = TcpConnection_write L buf callback c (ci_io io)
       in (rst, (cl, io\<lparr>ci_io := i\<rparr>), concat (map (client_call_of cl) cs))
   | None \<Rightarrow> (- 1, (cl, io), not_connected buf callback))"

text \<open>The part of \<^verbatim>\<open>write_in_loop\<close> that runs in the calling thread gives the function to post, with the
  connection it refers to weakly, or the report; \<open>run_posted\<close> is the function when the loop runs it.\<close>

definition TcpClient_write_in_loop :: "byte list \<Rightarrow> 'w option \<Rightarrow> ('s, 'n, 'x) tcp_client \<Rightarrow>
    (hid \<times> byte list \<times> 'w option) option \<times> ('s, 'n, 'x, 'w) client_call list" where
  "TcpClient_write_in_loop sbuf callback cl = (let buf = uv_buf sbuf in case cl_connection cl of
     Some c \<Rightarrow> (Some (tc_handle c, buf, callback), [])
   | None \<Rightarrow> (None, not_connected buf callback))"

definition run_posted :: "'u libuv \<Rightarrow> hid \<times> byte list \<times> 'w option \<Rightarrow>
    ('s, 'n, 'x, 'u, 'w) client_state \<Rightarrow> ('s, 'n, 'x, 'u, 'w) client_result option" where
  "run_posted L = (\<lambda>(h, buf, callback) (cl, io). do {
     (i, cs) \<leftarrow> TcpConnection_write_in_loop L buf callback (conn_at h cl) (ci_io io);
     Some ((cl, io\<lparr>ci_io := i\<rparr>), concat (map (client_call_of cl) cs)) })"

section \<open>Events\<close>

text \<open>What libuv reports: the end of a connect request, a receive event, the closing of a handle, the
  end of a shutdown or a write.\<close>

datatype client_event =
    ConnectDone rid int
  | ClientReceived hid int "byte list"
  | ClientHandleClosed hid
  | ClientShutdownDone rid
  | ClientWriteDone rid int

fun client_calls :: "'u libuv \<Rightarrow> (client_message, client_close, 'x client_done, 'w) conn_call list \<Rightarrow>
    ('s, 'n, 'x, 'u, 'w) client_state \<Rightarrow> ('s, 'n, 'x, 'u, 'w) client_result" where
  "client_calls L [] s = (s, [])"
| "client_calls L (c # cs) s =
     (let (s, a) = (case c of
          CallConnectClose ClientConnectClose name \<Rightarrow> TcpClient_on_connect_close L s
        | _ \<Rightarrow> (s, client_call_of (fst s) c));
          (s, b) = client_calls L cs s
      in (s, a @ b))"

text \<open>The close callback of a handle is the one of the connection over it, or the client's own when
  connecting had failed.\<close>

definition TcpClient_event ::
    "'u libuv \<Rightarrow> addr_lib \<Rightarrow> buffer_mode \<Rightarrow> client_event \<Rightarrow> ('s, 'n, 'x, 'u, 'w) client_state \<Rightarrow>
     ('s, 'n, 'x, 'u, 'w) client_result option" where
  "TcpClient_event L A mode e = (\<lambda>(cl, io). case e of
     ConnectDone r status \<Rightarrow>
       TcpClient_on_connect L A mode (status = 0) (cl, io\<lparr>ci_connects := AList.delete r (ci_connects io)\<rparr>)
   | ClientReceived h nread buf \<Rightarrow> do {
       c \<leftarrow> conn_at h cl;
       let ((c, i), cs) = TcpConnection_on_mesage_receive L nread buf c (ci_io io);
       Some (client_calls L cs (cl\<lparr>cl_connection := Some c\<rparr>, io\<lparr>ci_io := i\<rparr>)) }
   | ClientHandleClosed h \<Rightarrow>
       (let io = io\<lparr>ci_open := removeAll h (ci_open io)\<rparr> in
        case conn_at h cl of
          Some c \<Rightarrow> Some (client_calls L (TcpConnection_close_complete c) (cl, io))
        | None \<Rightarrow> if cl_socket cl = Some h then Some ((cl, io), TcpClient_after_connect_fail cl) else None)
   | ClientShutdownDone r \<Rightarrow> do {
       h \<leftarrow> map_of (io_shutdowns (ci_io io)) r;
       cs \<leftarrow> shutdown_done (conn_at h cl);
       let i = (ci_io io)\<lparr>io_shutdowns := AList.delete r (io_shutdowns (ci_io io))\<rparr>;
       Some (client_calls L cs (cl, io\<lparr>ci_io := i\<rparr>)) }
   | ClientWriteDone r status \<Rightarrow> do {
       (i, cs) \<leftarrow> write_done r status (ci_io io);
       Some (client_calls L cs (cl, io\<lparr>ci_io := i\<rparr>)) })"

end
