(* ===== verification/Tcp_Client_Props.thy ===== *)
theory Tcp_Client_Props
  imports Tcp_Client
begin

text \<open>
  The TCP client over any order of its operations and libuv's events. An abstract protocol of
  seven phases says which connection states there are and which status the application is told
  on the way from one to the next; the client implements it, and never uses what is freed, when
  it is asked to connect only at rest. Then where it goes wrong: a connect that libuv refuses,
  and a connect before the last connection is closed.
\<close>

section \<open>The protocol\<close>

datatype phase = Rest | Connecting | Refused | Failing | Live | Lost | Leaving

text \<open>A step is labelled with whether the application connects, and the statuses it is told.
  \<open>Refused\<close> has no way out. Closing a connection that is being closed because it was lost
  replaces the completion callback: the loss is no longer reported.\<close>

inductive phase_step :: "phase \<Rightarrow> bool \<Rightarrow> connect_status list \<Rightarrow> phase \<Rightarrow> bool" where
  stay: "phase_step p False [] p"
| start: "phase_step Rest True [] Connecting"
| refused: "phase_step Rest True [] Refused"
| opened: "phase_step Connecting False [ConnectSuccess] Live"
| failing: "phase_step Connecting False [] Failing"
| failed: "phase_step Failing False [ConnectFail] Rest"
| lost: "phase_step Live False [] Lost"
| leave: "phase_step Live False [] Leaving"
| overridden: "phase_step Lost False [] Leaving"
| closed: "phase_step Lost False [ConnectClose] Rest"
| left: "phase_step Leaving False [] Rest"

declare phase_step.intros [simp, intro]

inductive_simps phase_step_simps:
  "phase_step Rest b xs p" "phase_step Connecting b xs p" "phase_step Refused b xs p" "phase_step Failing b xs p"
  "phase_step Live b xs p" "phase_step Lost b xs p" "phase_step Leaving b xs p"

text \<open>The phase of a client.\<close>

definition phase_of :: "'u libuv \<Rightarrow> ('s, 'n, 'x, 'u, 'w) client_state \<Rightarrow> phase" where
  "phase_of L = (\<lambda>(cl, io). case cl_socket cl of
     None \<Rightarrow> Rest
   | Some h \<Rightarrow>
       if h \<notin> set (ci_open io) then Rest
       else if h \<in> snd ` set (ci_connects io) then Connecting
       else (case conn_at h cl of
           Some c \<Rightarrow> if uv_is_closing L h (cuv io)
             then (case tc_closeCompleteCallback c of Some OnClose \<Rightarrow> Lost | _ \<Rightarrow> Leaving) else Live
         | None \<Rightarrow> if uv_is_closing L h (cuv io) then Failing else Refused))"

definition statuses :: "('s, 'n, 'x, 'w) client_call list \<Rightarrow> connect_status list" where
  "statuses cs = concat (map (\<lambda>c. case c of CallStatus f st \<Rightarrow> [st] | _ \<Rightarrow> []) cs)"

lemma statuses_simps [simp]:
  "statuses [] = []" "statuses (CallStatus f st # cs) = st # statuses cs"
  "statuses (CallNewMessage n b # cs) = statuses cs" "statuses (CallClosed x # cs) = statuses cs"
  "statuses (CallAfterWrite w i # cs) = statuses cs" "statuses (ClientLog l t # cs) = statuses cs"
  "statuses (as @ bs) = statuses as @ statuses bs"
  by (simp_all add: statuses_def)

lemma statuses_maps [simp]:
  "statuses (map CallClosed xs) = []" "statuses (map (\<lambda>f. CallNewMessage f buf) xs) = []"
  "statuses (map (\<lambda>f. CallStatus f st) xs) = map (\<lambda>_. st) xs"
  by (induction xs) simp_all

section \<open>Steps\<close>

datatype ('x, 'w) client_op =
    Connect socket_addr
  | Close "'x option"
  | ClientWrite "byte list" "'w option"
  | RunPosted "hid \<times> byte list \<times> 'w option"
  | Event client_event

definition client_step :: "'u libuv \<Rightarrow> addr_lib \<Rightarrow> buffer_mode \<Rightarrow> ('x, 'w) client_op \<Rightarrow>
    ('s, 'n, 'x, 'u, 'w) client_state \<Rightarrow> ('s, 'n, 'x, 'u, 'w) client_result option" where
  "client_step L A mode a s = (case a of
     Connect addr \<Rightarrow> do { s \<leftarrow> TcpClient_connect L addr s; Some (s, []) }
   | Close callback \<Rightarrow> Some (TcpClient_close L callback s)
   | ClientWrite buf callback \<Rightarrow> Some (snd (TcpClient_write L buf callback s))
   | RunPosted p \<Rightarrow> run_posted L p s
   | Event e \<Rightarrow> TcpClient_event L A mode e s)"

text \<open>The application connects only at rest and posts writes with a callback. libuv reports the end
  of requests it holds, reads from open handles that are not closing, and calls back the closing
  of a handle after the shutdowns of it.\<close>

definition permitted :: "'u libuv \<Rightarrow> addr_lib \<Rightarrow> ('x, 'w) client_op \<Rightarrow>
    ('s, 'n, 'x, 'u, 'w) client_state \<Rightarrow> bool" where
  "permitted L A a = (\<lambda>(cl, io). case a of
     Connect addr \<Rightarrow> phase_of L (cl, io) = Rest \<and> SocketAddr_addr addr \<noteq> None
   | Close callback \<Rightarrow> True
   | ClientWrite buf callback \<Rightarrow> True
   | RunPosted (h, buf, callback) \<Rightarrow> callback \<noteq> None
   | Event (ConnectDone r status) \<Rightarrow> (\<exists>h. (r, h) \<in> set (ci_connects io) \<and>
       (status = 0 \<longrightarrow> SocketAddr_addr_to_str A (uv_getpeername L h (cuv io)) (cl_ipv cl) \<noteq> None))
   | Event (ClientReceived h nread buf) \<Rightarrow>
       h \<in> set (ci_open io) \<and> h \<in> set (ci_reading io) \<and> \<not> uv_is_closing L h (cuv io)
   | Event (ClientHandleClosed h) \<Rightarrow>
       h \<in> set (ci_open io) \<and> uv_is_closing L h (cuv io) \<and> h \<notin> snd ` set (io_shutdowns (ci_io io))
   | Event (ClientShutdownDone r) \<Rightarrow> r \<in> fst ` set (io_shutdowns (ci_io io))
   | Event (ClientWriteDone r status) \<Rightarrow> r \<in> fst ` set (io_writes (ci_io io)))"

section \<open>The invariant\<close>

definition client_conn_inv :: "'u libuv \<Rightarrow> 'u \<Rightarrow> 'x client_connection \<Rightarrow> bool" where
  "client_conn_inv L u c \<longleftrightarrow>
     (if uv_is_closing L (tc_handle c) u
      then tc_onMessageCallback c = None \<and> tc_onConnectCloseCallback c = None
      else tc_onMessageCallback c = Some ClientMessage \<and>
        tc_onConnectCloseCallback c = Some ClientConnectClose)"

definition client_inv :: "'u libuv \<Rightarrow> ('s, 'n, 'x, 'u, 'w) client_state \<Rightarrow> bool" where
  "client_inv L = (\<lambda>(cl, io).
     (\<forall>h \<in> set (ci_open io). cl_socket cl = Some h) \<and>
     (ci_connects io = [] \<or> (\<exists>h. ci_connects io = [(cl_connect cl, h)] \<and> h \<in> set (ci_open io) \<and>
        \<not> uv_is_closing L h (cuv io) \<and> conn_at h cl = None)) \<and>
     (\<forall>h \<in> set (ci_reading io). h \<in> set (ci_open io) \<longrightarrow> conn_at h cl \<noteq> None) \<and>
     (\<forall>r h. (r, h) \<in> set (io_shutdowns (ci_io io)) \<longrightarrow> h \<in> set (ci_open io) \<and> conn_at h cl \<noteq> None) \<and>
     (\<forall>c. cl_connection cl = Some c \<longrightarrow> tc_handle c \<in> set (ci_open io) \<longrightarrow> client_conn_inv L (cuv io) c) \<and>
     (\<forall>h \<in> set (ci_reading io) \<union> set (client_handles cl). h < io_next (ci_io io)))"

lemma client_invI:
  assumes "\<And>h. h \<in> set (ci_open io) \<Longrightarrow> cl_socket cl = Some h"
    and "ci_connects io = [] \<or> (\<exists>h. ci_connects io = [(cl_connect cl, h)] \<and> h \<in> set (ci_open io) \<and>
        \<not> uv_is_closing L h (cuv io) \<and> conn_at h cl = None)"
    and "\<And>h. h \<in> set (ci_reading io) \<Longrightarrow> h \<in> set (ci_open io) \<Longrightarrow> conn_at h cl \<noteq> None"
    and "\<And>r h. (r, h) \<in> set (io_shutdowns (ci_io io)) \<Longrightarrow> h \<in> set (ci_open io) \<and> conn_at h cl \<noteq> None"
    and "\<And>c. cl_connection cl = Some c \<Longrightarrow> tc_handle c \<in> set (ci_open io) \<Longrightarrow> client_conn_inv L (cuv io) c"
    and "\<And>h. h \<in> set (ci_reading io) \<union> set (client_handles cl) \<Longrightarrow> h < io_next (ci_io io)"
  shows "client_inv L (cl, io)"
  using assms unfolding client_inv_def by blast

lemma client_inv_open: "client_inv L (cl, io) \<Longrightarrow> h \<in> set (ci_open io) \<Longrightarrow> cl_socket cl = Some h"
  by (simp add: client_inv_def)

lemma client_inv_connects:
  "client_inv L (cl, io) \<Longrightarrow> (r, h) \<in> set (ci_connects io) \<Longrightarrow>
   ci_connects io = [(cl_connect cl, h)] \<and> r = cl_connect cl \<and> cl_socket cl = Some h \<and>
   h \<in> set (ci_open io) \<and> \<not> uv_is_closing L h (cuv io) \<and> conn_at h cl = None"
  by (auto simp: client_inv_def)

lemma client_inv_reading:
  "client_inv L (cl, io) \<Longrightarrow> h \<in> set (ci_reading io) \<Longrightarrow> h \<in> set (ci_open io) \<Longrightarrow> conn_at h cl \<noteq> None"
  by (simp add: client_inv_def)

lemma client_inv_shutdowns:
  "client_inv L (cl, io) \<Longrightarrow> (r, h) \<in> set (io_shutdowns (ci_io io)) \<Longrightarrow>
   h \<in> set (ci_open io) \<and> conn_at h cl \<noteq> None"
  unfolding client_inv_def by blast

lemma client_inv_conn:
  "client_inv L (cl, io) \<Longrightarrow> cl_connection cl = Some c \<Longrightarrow> tc_handle c \<in> set (ci_open io) \<Longrightarrow>
   client_conn_inv L (cuv io) c"
  by (simp add: client_inv_def)

lemma client_inv_less:
  "client_inv L (cl, io) \<Longrightarrow> h \<in> set (ci_reading io) \<union> set (client_handles cl) \<Longrightarrow> h < io_next (ci_io io)"
  by (simp add: client_inv_def)

lemma conn_at_iff: "conn_at h cl = Some c \<longleftrightarrow> cl_connection cl = Some c \<and> tc_handle c = h"
  by (auto simp: conn_at_def split: option.splits)

lemma conn_at_simps [simp]:
  "cl_connection cl = None \<Longrightarrow> conn_at h cl = None"
  "cl_connection cl = Some c \<Longrightarrow> conn_at h cl = (if tc_handle c = h then Some c else None)"
  by (simp_all add: conn_at_def)

lemma cuv_with_uv [simp]: "cuv (with_uv u io) = u" "ci_open (with_uv u io) = ci_open io"
  "ci_connects (with_uv u io) = ci_connects io" "ci_reading (with_uv u io) = ci_reading io"
  "io_shutdowns (ci_io (with_uv u io)) = io_shutdowns (ci_io io)"
  "io_next (ci_io (with_uv u io)) = io_next (ci_io io)"
  by (simp_all add: with_uv_def)

text \<open>An update of the connection object and of libuv's state that touches no other handle.\<close>

lemma client_inv_update:
  assumes inv: "client_inv L (cl, io)" and c: "cl_connection cl = Some c" and h: "tc_handle c' = tc_handle c"
    and cc: "tc_handle c \<in> set (ci_open io) \<Longrightarrow> client_conn_inv L (cuv io') c'"
    and same: "ci_open io' = ci_open io" "ci_connects io' = ci_connects io" "ci_reading io' = ci_reading io"
      "io_next (ci_io io) \<le> io_next (ci_io io')"
    and sh: "\<And>r g. (r, g) \<in> set (io_shutdowns (ci_io io')) \<Longrightarrow>
      (r, g) \<in> set (io_shutdowns (ci_io io)) \<or> g = tc_handle c \<and> g \<in> set (ci_open io)"
    and others: "\<And>g. g \<noteq> tc_handle c \<Longrightarrow> uv_is_closing L g (cuv io') = uv_is_closing L g (cuv io)"
  shows "client_inv L (cl\<lparr>cl_connection := Some c'\<rparr>, io')"
proof (rule client_invI)
  show "ci_connects io' = [] \<or> (\<exists>g. ci_connects io' = [(cl_connect (cl\<lparr>cl_connection := Some c'\<rparr>), g)] \<and>
      g \<in> set (ci_open io') \<and> \<not> uv_is_closing L g (cuv io') \<and> conn_at g (cl\<lparr>cl_connection := Some c'\<rparr>) = None)"
  proof (cases "ci_connects io")
    case (Cons p ps)
    obtain r g where p: "p = (r, g)" by fastforce
    have "tc_handle c \<noteq> g \<and> ci_connects io = [(cl_connect cl, g)] \<and> g \<in> set (ci_open io) \<and>
        \<not> uv_is_closing L g (cuv io)"
      using client_inv_connects [OF inv, of r g] Cons p c by (auto split: if_splits)
    then show ?thesis using others [of g] same h by auto
  qed (simp add: same)
next
  fix g assume "g \<in> set (ci_reading io') \<union> set (client_handles (cl\<lparr>cl_connection := Some c'\<rparr>))"
  then have "g \<in> set (ci_reading io) \<union> set (client_handles cl)"
    using c h by (auto simp: same client_handles_def)
  then show "g < io_next (ci_io io')" using client_inv_less [OF inv] same(4) by fastforce
qed (use client_inv_open [OF inv] client_inv_reading [OF inv] client_inv_shutdowns [OF inv] sh c h cc in
    \<open>force simp: same split: if_splits\<close>)+

text \<open>Nothing but requests changes.\<close>

lemma client_inv_frame:
  assumes inv: "client_inv L (cl, io)"
    and same: "ci_open io' = ci_open io" "ci_connects io' = ci_connects io" "ci_reading io' = ci_reading io"
      "io_next (ci_io io) \<le> io_next (ci_io io')"
    and sh: "set (io_shutdowns (ci_io io')) \<subseteq> set (io_shutdowns (ci_io io))"
    and closing: "\<And>g. uv_is_closing L g (cuv io') = uv_is_closing L g (cuv io)"
  shows "client_inv L (cl, io') \<and> phase_of L (cl, io') = phase_of L (cl, io)"
proof
  show "client_inv L (cl, io')"
    using inv same(4) sh unfolding client_inv_def client_conn_inv_def
    by (auto simp: same(1-3) closing dest: order.strict_trans2)
  show "phase_of L (cl, io') = phase_of L (cl, io)"
    unfolding phase_of_def by (simp add: same closing split: option.splits)
qed

text \<open>A client that has a connection over an open handle.\<close>

lemma phase_conn:
  assumes inv: "client_inv L (cl, io)" and c: "cl_connection cl = Some c" and o: "tc_handle c \<in> set (ci_open io)"
  shows "phase_of L (cl, io) = (if uv_is_closing L (tc_handle c) (cuv io)
     then (case tc_closeCompleteCallback c of Some OnClose \<Rightarrow> Lost | _ \<Rightarrow> Leaving) else Live)"
proof -
  have "tc_handle c \<notin> snd ` set (ci_connects io)"
    using client_inv_connects [OF inv, of _ "tc_handle c"] c by force
  then show ?thesis
    using client_inv_open [OF inv o] o c by (simp add: phase_of_def)
qed

lemma phase_closed:
  assumes inv: "client_inv L (cl, io)" and c: "cl_connection cl = Some c"
    and o: "tc_handle c \<notin> set (ci_open io)"
    and u: "\<And>g. g \<noteq> tc_handle c \<Longrightarrow> uv_is_closing L g (cuv io') = uv_is_closing L g (cuv io)"
    and same: "ci_open io' = ci_open io" "ci_connects io' = ci_connects io" and h: "tc_handle c' = tc_handle c"
  shows "phase_of L (cl\<lparr>cl_connection := Some c'\<rparr>, io') = phase_of L (cl, io)"
  using o c u by (cases "cl_socket cl") (auto simp: phase_of_def same h)

section \<open>Every step\<close>

text \<open>A step that keeps the invariant, the status callback and follows the protocol.\<close>

definition good_result :: "'u libuv \<Rightarrow> bool \<Rightarrow> ('s, 'n, 'x, 'u, 'w) client_state \<Rightarrow>
    ('s, 'n, 'x, 'u, 'w) client_result \<Rightarrow> bool" where
  "good_result L b s r \<longleftrightarrow> client_inv L (fst r) \<and> cl_connectCallback (fst (fst r)) = cl_connectCallback (fst s) \<and>
     (cl_connectCallback (fst s) \<noteq> None \<longrightarrow> phase_step (phase_of L s) b (statuses (snd r)) (phase_of L (fst r)))"

lemma good_resultI:
  assumes "client_inv L s'" "cl_connectCallback (fst s') = cl_connectCallback (fst s)"
    and "cl_connectCallback (fst s) \<noteq> None \<Longrightarrow> phase_step (phase_of L s) b (statuses cs) (phase_of L s')"
  shows "good_result L b s (s', cs)"
  using assms by (simp add: good_result_def)

lemma close_good:
  fixes cl :: "('s, 'n, 'x) tcp_client" and io :: "('u, 'w) client_io"
  assumes laws: "uv_laws L" and inv: "client_inv L (cl, io)" and c: "cl_connection cl = Some c"
    and k: "k = OnClose \<Longrightarrow> tc_handle c \<in> set (ci_open io) \<and> \<not> uv_is_closing L (tc_handle c) (cuv io)"
  shows "good_result L False (cl, io) (close_connection L k c (cl, io))"
proof -
  obtain c' u' and cs :: "(client_message, client_close, 'x client_done, 'w) conn_call list"
    where cl: "TcpConnection_close L (Some k) (c, cuv io) = ((c', u'), cs)"
    by (metis surj_pair)
  let ?cl = "cl\<lparr>cl_connection := Some c'\<rparr>" and ?io = "with_uv u' io"
  have c': "c' = c\<lparr>tc_onMessageCallback := None, tc_onConnectCloseCallback := None,
      tc_closeCompleteCallback := Some k\<rparr>"
    by (rule close_object [OF cl])
  have others: "uv_is_closing L g u' = uv_is_closing L g (cuv io)" if "g \<noteq> tc_handle c" for g
    using close_open [OF laws _ cl] close_closing [OF laws _ cl] that by blast
  have closing: "uv_is_closing L (tc_handle c) u'"
    using close_open [OF laws _ cl] close_closing [OF laws _ cl] by blast
  have inv': "client_inv L (?cl, ?io)"
    using inv c closing others by (intro client_inv_update) (auto simp: c' client_conn_inv_def)
  have st: "statuses (concat (map (client_call_of ?cl) cs)) = []"
  proof (cases "uv_is_closing L (tc_handle c) (cuv io)")
    case True
    then show ?thesis using close_closing [OF laws True cl] k by (cases k) auto
  qed (use close_open [OF laws _ cl] in auto)
  have "phase_step (phase_of L (cl, io)) False [] (phase_of L (?cl, ?io))"
  proof (cases "tc_handle c \<in> set (ci_open io)")
    case True
    then show ?thesis
      using phase_conn [OF inv c True] phase_conn [OF inv', of c'] closing k
      by (cases k) (auto simp: c' phase_step_simps split: option.splits client_done.splits)
  next
    case False
    have "phase_of L (?cl, ?io) = phase_of L (cl, io)"
      using others by (intro phase_closed [OF inv c False]) (auto simp: c')
    then show ?thesis by simp
  qed
  then show ?thesis
    using inv' st unfolding good_result_def close_connection_def by (simp add: cl Let_def)
qed

lemma settle_rest:
  assumes "client_inv L (cl, io)" "phase_of L (cl, io) = Rest"
  shows "ci_open io = [] \<and> ci_connects io = [] \<and> io_shutdowns (ci_io io) = []"
proof -
  have o: "ci_open io = []"
  proof (rule ccontr)
    assume "ci_open io \<noteq> []"
    then obtain h where h: "h \<in> set (ci_open io)" by (meson list.set_sel(1))
    with client_inv_open [OF assms(1) h] show False
      using assms(2) by (simp add: phase_of_def split: option.splits if_splits client_done.splits)
  qed
  then have "ci_connects io = []" using assms(1) by (auto simp: client_inv_def)
  moreover have "io_shutdowns (ci_io io) = []"
    using client_inv_shutdowns [OF assms(1)] o
    by (metis empty_iff empty_set list.set_intros(1) neq_Nil_conv surj_pair)
  ultimately show ?thesis using o by simp
qed

text \<open>Connecting at rest gives the client a handle of its own.\<close>

lemma connect_good:
  fixes cl :: "('s, 'n, 'x) tcp_client" and io :: "('u, 'w) client_io"
  assumes laws: "uv_laws L" and inv: "client_inv L (cl, io)" and rest: "phase_of L (cl, io) = Rest"
    and sa: "SocketAddr_addr addr = Some sa"
  shows "\<exists>s'. TcpClient_connect L addr (cl, io) = Some s' \<and> good_result L True (cl, io) (s', [])"
proof -
  note empty = settle_rest [OF inv rest]
  let ?h = "io_next (ci_io io)"
  define u2 where "u2 = (if cl_tcpNoDelay cl then uv_do L (UvTcpNodelay ?h) (uv_do L (UvTcpInit ?h) (cuv io))
    else uv_do L (UvTcpInit ?h) (cuv io))"
  obtain rst u3 where con: "uv L (UvTcpConnect (cl_connect cl) ?h sa) u2 = (rst, u3)" by fastforce
  have closing: "\<not> uv_is_closing L ?h u3"
  proof -
    have "u3 = uv_do L (UvTcpConnect (cl_connect cl) ?h sa) u2" by (simp add: uv_do_def con)
    then show ?thesis using laws by (simp add: u2_def uv_simps)
  qed
  have none: "conn_at ?h cl = None"
  proof (cases "cl_connection cl")
    case (Some c)
    then have "tc_handle c < ?h" using client_inv_less [OF inv] by (simp add: client_handles_def)
    then show ?thesis using Some by simp
  qed simp
  define cl' where "cl' = cl\<lparr>cl_socket := Some ?h, cl_ipv := SocketAddr_ipv addr\<rparr>"
  define io' where "io' = io\<lparr>ci_io := (ci_io io)\<lparr>io_uv := u3, io_next := Suc ?h\<rparr>, ci_open := [?h],
      ci_connects := (if rst = 0 then [(cl_connect cl, ?h)] else [])\<rparr>"
  have "TcpClient_create_tcp_socket L (cl, io) = Some (cl\<lparr>cl_socket := Some ?h\<rparr>,
      io\<lparr>ci_io := (ci_io io)\<lparr>io_uv := u2, io_next := Suc ?h\<rparr>, ci_open := [?h]\<rparr>)"
    using empty by (simp add: TcpClient_create_tcp_socket_def settle_def list_all_iff Let_def u2_def)
  then have conn: "TcpClient_connect L addr (cl, io) = Some (cl', io')"
    using empty sa con by (simp add: TcpClient_connect_def cl'_def io'_def with_uv_def Let_def)
  have conn_at': "conn_at g cl' = conn_at g cl" for g by (simp add: conn_at_def cl'_def)
  have inv': "client_inv L (cl', io')"
  proof (rule client_invI)
    fix g assume "g \<in> set (ci_reading io')" "g \<in> set (ci_open io')"
    then have False using client_inv_less [OF inv, of g] by (simp add: io'_def)
    then show "conn_at g cl' \<noteq> None" ..
  next
    fix c assume "cl_connection cl' = Some c" "tc_handle c \<in> set (ci_open io')"
    then have False using none by (simp add: cl'_def io'_def)
    then show "client_conn_inv L (cuv io') c" ..
  next
    fix g assume "g \<in> set (ci_reading io') \<union> set (client_handles cl')"
    then have "g \<in> set (ci_reading io) \<union> set (client_handles cl) \<or> g = ?h"
      by (auto simp: cl'_def io'_def client_handles_def)
    then show "g < io_next (ci_io io')" using client_inv_less [OF inv, of g] by (auto simp: io'_def)
  qed (use closing none conn_at' empty in \<open>auto simp: cl'_def io'_def\<close>)
  have "phase_of L (cl', io') = (if rst = 0 then Connecting else Refused)"
    using none conn_at' closing by (simp add: phase_of_def) (simp add: cl'_def io'_def)
  then show ?thesis
    using conn inv' rest by (auto intro!: good_resultI simp: cl'_def)
qed
lemma connect_done_good:
  fixes cl :: "('s, 'n, 'x) tcp_client" and io :: "('u, 'w) client_io"
  assumes laws: "uv_laws L" and inv: "client_inv L (cl, io)" and r: "(r, h) \<in> set (ci_connects io)"
    and name: "status = 0 \<Longrightarrow> SocketAddr_addr_to_str A (uv_getpeername L h (cuv io)) (cl_ipv cl) = Some name"
  shows "\<exists>x. TcpClient_event L A mode (ConnectDone r status) (cl, io) = Some x \<and> good_result L False (cl, io) x"
proof -
  note con = client_inv_connects [OF inv r]
  have ph: "phase_of L (cl, io) = Connecting" using con by (simp add: phase_of_def)
  have sh: "io_shutdowns (ci_io io) = []"
    using client_inv_shutdowns [OF inv] client_inv_open [OF inv] con
    by (metis list.set_intros(1) neq_Nil_conv option.inject surj_pair)
  let ?io = "io\<lparr>ci_connects := []\<rparr>"
  have less: "g < io_next (ci_io io)" if "g \<in> set (ci_reading io) \<union> set (client_handles cl)" for g
    using client_inv_less [OF inv that] .
  have ev: "TcpClient_event L A mode (ConnectDone r status) (cl, io) =
      TcpClient_on_connect L A mode (status = 0) (cl, ?io)"
    using con by (simp add: TcpClient_event_def)
  show ?thesis
  proof (cases "status = 0")
    case True
    define c :: "'x client_connection" where "c = TcpConnection_set_connect_close_callback (Some ClientConnectClose)
      (TcpConnection_set_message_callback (Some ClientMessage) (fst (TcpConnection_new L mode name h True (cuv io))))"
    have c: "tc_handle c = h" "client_conn_inv L u c" if "\<not> uv_is_closing L h u" for u
      using that by (simp_all add: c_def TcpConnection_defs client_conn_inv_def)
    let ?u = "uv_do L (UvReadStart h) (cuv io)"
    let ?cl = "cl\<lparr>cl_connection := Some c\<rparr>" and ?io' = "(with_uv ?u ?io)\<lparr>ci_reading := h # ci_reading io\<rparr>"
    have closing: "\<not> uv_is_closing L h ?u" using laws con by (simp add: uv_simps)
    have "g \<notin> set (ci_open io) \<or> g = h" for g using client_inv_open [OF inv, of g] con by auto
    then have "settle cl (cl\<lparr>cl_connection := Some (fst (TcpConnection_new L mode name h True (cuv io)))\<rparr>) ?io =
        Some (cl\<lparr>cl_connection := Some (fst (TcpConnection_new L mode name h True (cuv io)))\<rparr>)"
      using con by (auto simp: settle_def list_all_iff client_handles_def)
    then have "TcpClient_on_connect L A mode True (cl, ?io) =
        Some ((?cl, ?io'), TcpClient_run_connect_callback ConnectSuccess ?cl)"
      using con name True
      by (simp add: TcpClient_on_connect_def c_def Let_def split_beta with_uv_def TcpConnection_new_def)
    moreover have inv': "client_inv L (?cl, ?io')"
    proof (rule client_invI)
      fix g assume "g \<in> set (ci_reading ?io') \<union> set (client_handles ?cl)"
      then have "g \<in> set (ci_reading io) \<or> g = h" using c(1) [OF closing] con by (auto simp: client_handles_def)
      then show "g < io_next (ci_io ?io')" using less [of g] less [of h] con by (auto simp: client_handles_def)
    qed (use c [OF closing] con sh client_inv_open [OF inv] in auto)
    moreover have "phase_of L (?cl, ?io') = Live"
      using phase_conn [OF inv', of c] c(1) [OF closing] closing con by simp
    ultimately show ?thesis
      using True ph unfolding ev
      by (auto simp: TcpClient_run_connect_callback_def intro!: good_resultI)
  next
    case False
    define u where "u = (if uv_is_active L h (cuv io) then uv_do L (UvReadStop h) (cuv io) else cuv io)"
    let ?u = "uv_do L (UvClose h) u" and ?io' = "with_uv (uv_do L (UvClose h) u) ?io"
    have "\<not> uv_is_closing L h u" using laws con by (simp add: u_def uv_simps)
    then have "TcpClient_on_connect L A mode False (cl, ?io) = Some ((cl, ?io'), [])"
      using con by (simp add: TcpClient_on_connect_def u_def [symmetric] with_uv_def)
    moreover have "client_inv L (cl, ?io')"
    proof (rule client_invI)
      fix c assume "cl_connection cl = Some c" "tc_handle c \<in> set (ci_open ?io')"
      then have False using con client_inv_open [OF inv, of "tc_handle c"] by auto
      then show "client_conn_inv L (cuv ?io') c" ..
    qed (use less sh client_inv_open [OF inv] client_inv_reading [OF inv] in auto)
    moreover have "phase_of L (cl, ?io') = Failing"
      using con laws by (simp add: phase_of_def uv_simps)
    ultimately show ?thesis
      using False ph unfolding ev by (auto intro!: good_resultI)
  qed
qed
lemma phase_update:
  assumes "client_inv L (cl, io)" "client_inv L (cl\<lparr>cl_connection := Some c'\<rparr>, io')"
    and "cl_connection cl = Some c" "tc_handle c \<in> set (ci_open io)" "tc_handle c' = tc_handle c"
    and "tc_closeCompleteCallback c' = tc_closeCompleteCallback c" "ci_open io' = ci_open io"
    and "uv_is_closing L (tc_handle c) (cuv io') = uv_is_closing L (tc_handle c) (cuv io)"
  shows "phase_of L (cl\<lparr>cl_connection := Some c'\<rparr>, io') = phase_of L (cl, io)"
  using phase_conn [OF assms(1,3,4)] phase_conn [OF assms(2), of c'] assms(4-) by simp

lemma good_result_after:
  assumes "good_result L b (cl', io') r" "phase_of L (cl', io') = phase_of L (cl, io)"
    "cl_connectCallback cl' = cl_connectCallback cl" "statuses a = []"
  shows "good_result L b (cl, io) (fst r, a @ snd r)"
  using assms by (simp add: good_result_def)

lemma client_received_good:
  fixes cl :: "('s, 'n, 'x) tcp_client" and io :: "('u, 'w) client_io"
  assumes laws: "uv_laws L" and inv: "client_inv L (cl, io)"
    and h: "h \<in> set (ci_open io)" "h \<in> set (ci_reading io)" "\<not> uv_is_closing L h (cuv io)"
  shows "\<exists>x. TcpClient_event L A mode (ClientReceived h nread buf) (cl, io) = Some x \<and> good_result L False (cl, io) x"
proof -
  obtain c where at: "conn_at h cl = Some c" using client_inv_reading [OF inv h(2,1)] by auto
  then have c: "cl_connection cl = Some c" and hc: "tc_handle c = h" by (simp_all add: conn_at_iff)
  have o: "tc_handle c \<in> set (ci_open io)" using h hc by simp
  have cc: "client_conn_inv L (cuv io) c" using client_inv_conn [OF inv c] hc h by simp
  then have cb: "tc_onConnectCloseCallback c = Some ClientConnectClose"
    using h hc by (simp add: client_conn_inv_def)
  let ?c = "c\<lparr>tc_connected := False\<rparr>"
  have id: "cl\<lparr>cl_connection := Some c\<rparr> = cl" using c by simp
  have step: "client_inv L (cl\<lparr>cl_connection := Some ?c\<rparr>, io') \<and>
      phase_of L (cl\<lparr>cl_connection := Some ?c\<rparr>, io') = phase_of L (cl, io)"
    if "ci_open io' = ci_open io" "ci_connects io' = ci_connects io" "ci_reading io' = ci_reading io"
      "io_next (ci_io io) \<le> io_next (ci_io io')" "\<And>g. uv_is_closing L g (cuv io') = uv_is_closing L g (cuv io)"
      "\<And>r g. (r, g) \<in> set (io_shutdowns (ci_io io')) \<Longrightarrow>
        (r, g) \<in> set (io_shutdowns (ci_io io)) \<or> g = tc_handle c \<and> g \<in> set (ci_open io)" for io' :: "('u, 'w) client_io"
  proof
    show 1: "client_inv L (cl\<lparr>cl_connection := Some ?c\<rparr>, io')"
      using cc that by (intro client_inv_update [OF inv c]) (auto simp: client_conn_inv_def)
    show "phase_of L (cl\<lparr>cl_connection := Some ?c\<rparr>, io') = phase_of L (cl, io)"
      by (rule phase_update [OF inv 1 c o]) (simp_all add: that)
  qed
  consider "nread > 0" | "nread = 0" | "nread < 0" "nread \<noteq> UV_EOF" | "nread = UV_EOF"
    by (metis linorder_neqE_linordered_idom)
  then show ?thesis
  proof cases
    case 1
    then show ?thesis
      using at inv cc h hc id
      by (auto simp: TcpClient_event_def TcpConnection_on_mesage_receive_def TcpConnection_on_message_def
          client_conn_inv_def TcpClient_on_message_def intro!: good_resultI)
  next
    case 2
    then show ?thesis
      using at inv id
      by (auto simp: TcpClient_event_def TcpConnection_on_mesage_receive_def intro!: good_resultI)
  next
    case 3
    have st: "client_inv L (cl\<lparr>cl_connection := Some ?c\<rparr>, io)"
      "phase_of L (cl\<lparr>cl_connection := Some ?c\<rparr>, io) = phase_of L (cl, io)" using step [of io] by auto
    have "good_result L False (cl\<lparr>cl_connection := Some ?c\<rparr>, io)
        (close_connection L OnClose ?c (cl\<lparr>cl_connection := Some ?c\<rparr>, io))"
      using h hc by (intro close_good [OF laws st(1)]) simp_all
    from good_result_after [OF this st(2), of "[ClientLog Error (uv_err_name L nread)]"] show ?thesis
      using at 3 cb
      by (simp add: TcpClient_event_def TcpConnection_on_mesage_receive_def TcpConnection_on_socket_close_def
          TcpConnection_set_connect_status_def TcpClient_on_connect_close_def Let_def split_beta)
  next
    case 4
    obtain rst u where sh: "uv L (UvShutdown (io_next (ci_io io)) h) (cuv io) = (rst, u)" by fastforce
    then have u: "u = uv_do L (UvShutdown (io_next (ci_io io)) h) (cuv io)" by (simp add: uv_do_def)
    define i where "i = (ci_io io)\<lparr>io_uv := u, io_next := Suc (io_next (ci_io io))\<rparr>"
    define i' where "i' = (if rst = 0 then i\<lparr>io_shutdowns := (io_next (ci_io io), h) # io_shutdowns i\<rparr> else i)"
    have "TcpClient_event L A mode (ClientReceived h nread buf) (cl, io) =
        Some ((cl\<lparr>cl_connection := Some ?c\<rparr>, io\<lparr>ci_io := i'\<rparr>), [ClientLog Error (uv_err_name L nread)])"
      using at 4 sh hc
      by (simp add: TcpClient_event_def TcpConnection_on_mesage_receive_def UV_EOF_def i_def i'_def
          TcpConnection_set_connect_status_def Let_def)
    moreover have "client_inv L (cl\<lparr>cl_connection := Some ?c\<rparr>, io\<lparr>ci_io := i'\<rparr>) \<and>
        phase_of L (cl\<lparr>cl_connection := Some ?c\<rparr>, io\<lparr>ci_io := i'\<rparr>) = phase_of L (cl, io)"
      using laws h hc by (intro step) (auto simp: i'_def i_def u uv_simps split: if_splits)
    ultimately show ?thesis by (auto intro!: good_resultI)
  qed
qed
lemma handle_closed_good:
  fixes cl :: "('s, 'n, 'x) tcp_client" and io :: "('u, 'w) client_io"
  assumes inv: "client_inv L (cl, io)" and h: "h \<in> set (ci_open io)" "uv_is_closing L h (cuv io)"
    and sh: "h \<notin> snd ` set (io_shutdowns (ci_io io))"
  shows "\<exists>x. TcpClient_event L A mode (ClientHandleClosed h) (cl, io) = Some x \<and> good_result L False (cl, io) x"
proof -
  let ?io = "io\<lparr>ci_open := removeAll h (ci_open io)\<rparr>"
  have s: "cl_socket cl = Some h" by (rule client_inv_open [OF inv h(1)])
  have only: "g \<notin> set (ci_open ?io)" for g using client_inv_open [OF inv, of g] s by auto
  have con: "ci_connects io = []" using client_inv_connects [OF inv] h(2) s
    by (metis list.set_intros(1) neq_Nil_conv option.inject surj_pair)
  have shut: "io_shutdowns (ci_io io) = []"
    using client_inv_shutdowns [OF inv] client_inv_open [OF inv] s sh
    by (metis image_eqI list.set_intros(1) neq_Nil_conv option.inject snd_conv surj_pair)
  have inv': "client_inv L (cl, ?io)"
    using only con shut client_inv_less [OF inv] by (intro client_invI) auto
  have ph': "phase_of L (cl, ?io) = Rest" using s by (simp add: phase_of_def)
  show ?thesis
  proof (cases "conn_at h cl")
    case None
    then have "phase_of L (cl, io) = Failing" using s h con by (simp add: phase_of_def)
    then show ?thesis
      using None s inv' ph'
      by (auto simp: TcpClient_event_def TcpClient_after_connect_fail_def TcpClient_run_connect_callback_def
          intro!: good_resultI)
  next
    case (Some c)
    then have c: "cl_connection cl = Some c" "tc_handle c = h" by (simp_all add: conn_at_iff)
    have ph: "phase_of L (cl, io) = (case tc_closeCompleteCallback c of Some OnClose \<Rightarrow> Lost | _ \<Rightarrow> Leaving)"
      using phase_conn [OF inv c(1)] c(2) h by simp
    have "TcpClient_event L A mode (ClientHandleClosed h) (cl, io) = Some ((cl, ?io),
        concat (map (client_call_of cl) (TcpConnection_close_complete c)))"
      using Some by (cases "tc_closeCompleteCallback c")
        (simp_all add: TcpClient_event_def TcpConnection_close_complete_def Let_def split: client_done.splits)
    then show ?thesis
      using inv' ph ph'
      by (cases "tc_closeCompleteCallback c")
        (auto simp: TcpConnection_close_complete_def TcpClient_on_close_def TcpClient_run_connect_callback_def
          intro!: good_resultI split: client_done.splits)
  qed
qed

lemma shutdown_done_good:
  fixes cl :: "('s, 'n, 'x) tcp_client" and io :: "('u, 'w) client_io"
  assumes laws: "uv_laws L" and inv: "client_inv L (cl, io)" and r: "r \<in> fst ` set (io_shutdowns (ci_io io))"
  shows "\<exists>x. TcpClient_event L A mode (ClientShutdownDone r) (cl, io) = Some x \<and> good_result L False (cl, io) x"
proof -
  obtain h where m: "map_of (io_shutdowns (ci_io io)) r = Some h"
    using r by (metis map_of_eq_None_iff option.exhaust)
  then have o: "h \<in> set (ci_open io)" "conn_at h cl \<noteq> None"
    using client_inv_shutdowns [OF inv] map_of_SomeD by fast+
  then obtain c where at: "conn_at h cl = Some c" by auto
  then have c: "cl_connection cl = Some c" "tc_handle c = h" by (simp_all add: conn_at_iff)
  let ?io = "io\<lparr>ci_io := (ci_io io)\<lparr>io_shutdowns := AList.delete r (io_shutdowns (ci_io io))\<rparr>\<rparr>"
  have fr: "client_inv L (cl, ?io) \<and> phase_of L (cl, ?io) = phase_of L (cl, io)"
    by (intro client_inv_frame [OF inv]) (auto simp: AList.delete_eq)
  have cc: "client_conn_inv L (cuv io) c" using client_inv_conn [OF inv c(1)] c(2) o by simp
  show ?thesis
  proof (cases "uv_is_closing L h (cuv io)")
    case True
    then have "tc_onConnectCloseCallback c = None" using cc c by (simp add: client_conn_inv_def)
    then show ?thesis
      using m at fr
      by (auto simp: TcpClient_event_def shutdown_done_def TcpConnection_on_socket_close_def Let_def
          intro!: good_resultI)
  next
    case False
    then have "tc_onConnectCloseCallback c = Some ClientConnectClose" using cc c by (simp add: client_conn_inv_def)
    moreover have "good_result L False (cl, ?io) (close_connection L OnClose c (cl, ?io))"
      using False o c by (intro close_good [OF laws]) (simp_all add: fr)
    from good_result_after [OF this, of cl io "[]"] fr
    have "good_result L False (cl, io) (close_connection L OnClose c (cl, ?io))" by simp
    ultimately show ?thesis
      using m at c
      by (simp add: TcpClient_event_def shutdown_done_def TcpConnection_on_socket_close_def Let_def
          TcpClient_on_connect_close_def split_beta)
  qed
qed

text \<open>Writing changes requests only.\<close>

lemma write_frame:
  assumes laws: "uv_laws L" and w: "TcpConnection_write L buf callback c i = (rst, i', cs)"
  shows "(\<forall>g. uv_is_closing L g (io_uv i') = uv_is_closing L g (io_uv i)) \<and>
    io_shutdowns i' = io_shutdowns i \<and> io_next i \<le> io_next i' \<and>
    statuses (concat (map (client_call_of cl) cs)) = []"
proof (cases "tc_connected c")
  case True
  obtain rst' u where uv: "uv L (UvWrite (io_next i) (tc_handle c) (uv_buf buf)) (io_uv i) = (rst', u)" by fastforce
  then have "u = uv_do L (UvWrite (io_next i) (tc_handle c) (uv_buf buf)) (io_uv i)" by (simp add: uv_do_def)
  then show ?thesis
    using w laws True uv
    by (cases callback) (auto simp: TcpConnection_write_def Let_def uv_simps split: if_splits)
next
  case False
  then show ?thesis using w by (cases callback) (auto simp: TcpConnection_write_def)
qed

lemma frame_good:
  assumes "client_inv L (cl, io)" and "\<And>g. uv_is_closing L g (io_uv i) = uv_is_closing L g (cuv io)"
    and "set (io_shutdowns i) \<subseteq> set (io_shutdowns (ci_io io))" "io_next (ci_io io) \<le> io_next i" "statuses cs = []"
  shows "good_result L False (cl, io) ((cl, io\<lparr>ci_io := i\<rparr>), cs)"
  using client_inv_frame [OF assms(1), of "io\<lparr>ci_io := i\<rparr>"] assms(2-)
  by (intro good_resultI) simp_all

lemma not_connected_statuses [simp]: "statuses (not_connected buf callback) = []"
  by (cases callback) (simp_all add: not_connected_def)

lemma write_good:
  fixes cl :: "('s, 'n, 'x) tcp_client" and io :: "('u, 'w) client_io"
  assumes "uv_laws L" "client_inv L (cl, io)"
  shows "good_result L False (cl, io) (snd (TcpClient_write L buf callback (cl, io)))"
proof (cases "cl_connection cl")
  case None
  then show ?thesis using assms by (auto simp: TcpClient_write_def intro!: good_resultI)
next
  case (Some c)
  obtain rst i cs where w: "TcpConnection_write L (uv_buf buf) callback c (ci_io io) = (rst, i,
    cs :: (client_message, client_close, 'x client_done, 'w) conn_call list)" by (metis surj_pair)
  show ?thesis
    using write_frame [OF assms(1) w, of cl] assms(2) w Some
    by (auto simp: TcpClient_write_def intro!: frame_good)
qed

lemma posted_good:
  fixes cl :: "('s, 'n, 'x) tcp_client" and io :: "('u, 'w) client_io"
  assumes "uv_laws L" "client_inv L (cl, io)"
  shows "\<exists>x. run_posted L (h, buf, Some f) (cl, io) = Some x \<and> good_result L False (cl, io) x"
proof (cases "conn_at h cl")
  case None
  then show ?thesis
    using assms by (auto simp: run_posted_def TcpConnection_write_in_loop_def intro!: good_resultI)
next
  case (Some c)
  obtain rst i cs where w: "TcpConnection_write L buf (Some f) c (ci_io io) = (rst, i,
    cs :: (client_message, client_close, 'x client_done, 'w) conn_call list)" by (metis surj_pair)
  show ?thesis
    using write_frame [OF assms(1) w, of cl] assms(2) w Some
    by (auto simp: run_posted_def TcpConnection_write_in_loop_def intro!: frame_good)
qed

lemma write_done_good:
  fixes cl :: "('s, 'n, 'x) tcp_client" and io :: "('u, 'w) client_io"
  assumes "client_inv L (cl, io)" "r \<in> fst ` set (io_writes (ci_io io))"
  shows "\<exists>x. TcpClient_event L A mode (ClientWriteDone r status) (cl, io) = Some x \<and> good_result L False (cl, io) x"
proof -
  obtain wr where "map_of (io_writes (ci_io io)) r = Some wr"
    using assms(2) by (metis map_of_eq_None_iff option.exhaust)
  then show ?thesis
    using assms(1)
    by (cases "wr_callback wr") (auto simp: TcpClient_event_def write_done_def intro!: frame_good)
qed

lemma client_step_good:
  assumes "uv_laws L" and "client_inv L s" and "permitted L A a s" and "cl_connectCallback (fst s) = Some f"
  shows "\<exists>s' cs. client_step L A mode a s = Some (s', cs) \<and> client_inv L s' \<and>
    cl_connectCallback (fst s') = Some f \<and> phase_step (phase_of L s) (\<exists>addr. a = Connect addr) (statuses cs) (phase_of L s')"
proof -
  obtain cl io where s: "s = (cl, io)" by fastforce
  note p = assms(3) [unfolded s permitted_def prod.case]
  note inv = assms(2) [unfolded s]
  have "\<exists>x. client_step L A mode a (cl, io) = Some x \<and> good_result L (\<exists>addr. a = Connect addr) (cl, io) x"
  proof (cases a)
    case (Connect addr)
    then obtain sa where "phase_of L (cl, io) = Rest" "SocketAddr_addr addr = Some sa" using p by auto
    from connect_good [OF assms(1) inv this] show ?thesis using Connect by (auto simp: client_step_def)
  next
    case (Close callback)
    from Close show ?thesis
      using close_good [OF assms(1) inv, of _ "OnClosed callback"] inv
      by (cases "cl_connection cl") (auto simp: client_step_def TcpClient_close_def intro!: good_resultI)
  next
    case (ClientWrite buf callback)
    then show ?thesis using write_good [OF assms(1) inv] by (simp add: client_step_def)
  next
    case (RunPosted q)
    then show ?thesis using posted_good [OF assms(1) inv] p by (cases q) (auto simp: client_step_def)
  next
    case (Event e)
    show ?thesis
    proof (cases e)
      case (ConnectDone r status)
      then show ?thesis using connect_done_good [OF assms(1) inv] p Event by (fastforce simp: client_step_def)
    next
      case (ClientReceived h nread buf)
      then show ?thesis using client_received_good [OF assms(1) inv] p Event by (simp add: client_step_def)
    next
      case (ClientHandleClosed h)
      then show ?thesis using handle_closed_good [OF inv] p Event by (simp add: client_step_def)
    next
      case (ClientShutdownDone r)
      then show ?thesis using shutdown_done_good [OF assms(1) inv] p Event by (simp add: client_step_def)
    next
      case (ClientWriteDone r status)
      then show ?thesis using write_done_good [OF inv] p Event by (simp add: client_step_def)
    qed
  qed
  then show ?thesis using assms(4) unfolding s good_result_def by fastforce
qed

section \<open>A demonstration\<close>

text \<open>The client of a library that accepts every call, its requests and connection.\<close>

definition demo_server_addr :: socket_addr where
  "demo_server_addr = SocketAddr_of_ip demo_addr_lib ''127.0.0.1'' 80 Ipv4"

definition demo_client :: "(string, string, string, uv_call list, string) client_state" where
  "demo_client = (TcpClient_set_connect_status_callback (Some ''status'') (TcpClient_new 0 False),
     \<lparr>ci_io = \<lparr>io_uv = [], io_writes = [], io_shutdowns = [], io_next = 1\<rparr>, ci_connects = [],
      ci_open = [], ci_reading = []\<rparr>)"

definition demo_connecting :: "(string, string, string, uv_call list, string) client_state" where
  "demo_connecting = the (TcpClient_connect trace_uv demo_server_addr demo_client)"

definition demo_peer :: string where
  "demo_peer = the (SocketAddr_addr_to_str demo_addr_lib
     \<lparr>sa_family = 2, sa_port = htons 1, sa_bytes = [127, 0, 0, 1]\<rparr> Ipv4)"

lemma demo_addr_of: "\<exists>sa. SocketAddr_addr demo_server_addr = Some sa"
  by (simp add: demo_server_addr_def SocketAddr_addr_def SocketAddr_of_ip_def)

lemma demo_connecting_eq:
  "\<exists>sa. TcpClient_connect trace_uv demo_server_addr demo_client = Some demo_connecting \<and>
     demo_connecting = (\<lparr>cl_connection = None, cl_connect = 0, cl_ipv = Ipv4, cl_socket = Some 1,
       cl_tcpNoDelay = False, cl_connectCallback = Some ''status'', cl_onMessageCallback = None\<rparr>,
       \<lparr>ci_io = \<lparr>io_uv = [UvTcpConnect 0 1 sa, UvTcpInit 1], io_writes = [], io_shutdowns = [], io_next = 2\<rparr>,
        ci_connects = [(0, 1)], ci_open = [1], ci_reading = []\<rparr>)"
proof -
  obtain sa where "SocketAddr_addr demo_server_addr = Some sa" using demo_addr_of by blast
  then show ?thesis
    by (simp add: demo_connecting_def demo_client_def TcpClient_connect_def TcpClient_create_tcp_socket_def
        settle_def TcpClient_set_connect_status_callback_def TcpClient_new_def client_handles_def Let_def
        trace_uv_def uv_do_def with_uv_def demo_server_addr_def SocketAddr_of_ip_def SocketAddr_ipv_def)
qed

lemma demo_client_inv: "client_inv L demo_client" "phase_of L demo_client = Rest"
  by (simp_all add: demo_client_def client_inv_def phase_of_def TcpClient_set_connect_status_callback_def
      TcpClient_new_def client_handles_def)

section \<open>Properties\<close>

text \<open>C13: The client implements the protocol. From every well-formed state, every operation the
  application may make and every event libuv may deliver is carried out without using an object
  that is freed, and is a step of the protocol with the statuses of that step: success or failure
  once for a connect, the loss of a connection once when its handle is closed.\<close>

theorem client_refines_protocol:
  assumes "uv_laws L" and "client_inv L s" and "permitted L A a s" and "cl_connectCallback (fst s) = Some f"
  shows "\<exists>s' cs. client_step L A mode a s = Some (s', cs) \<and> client_inv L s' \<and>
    cl_connectCallback (fst s') = Some f \<and> phase_step (phase_of L s) (\<exists>addr. a = Connect addr) (statuses cs) (phase_of L s')"
  using assms by (rule client_step_good)

theorem client_refines_protocol_witness:
  "\<exists>s' cs. client_step trace_uv demo_addr_lib NoBuffer (Connect demo_server_addr) demo_client = Some (s', cs) \<and>
     phase_step Rest True (statuses cs) (phase_of trace_uv s')"
proof -
  have "permitted trace_uv demo_addr_lib (Connect demo_server_addr) demo_client"
    "cl_connectCallback (fst demo_client) = Some ''status''"
    using demo_client_inv demo_addr_of
    by (auto simp: permitted_def demo_client_def TcpClient_set_connect_status_callback_def)
  from client_refines_protocol [OF trace_uv_laws demo_client_inv(1) this] demo_client_inv(2) show ?thesis
    by fastforce
qed

section \<open>Runs\<close>

text \<open>The runs of a client from its making, with the number of its connects and the statuses it has
  told the application.\<close>

inductive client_run :: "'u libuv \<Rightarrow> addr_lib \<Rightarrow> buffer_mode \<Rightarrow> ('s, 'n, 'x, 'u, 'w) client_state \<Rightarrow>
    nat \<Rightarrow> connect_status list \<Rightarrow> bool"
  for L A mode where
  begun: "io_shutdowns i = [] \<Longrightarrow> client_run L A mode
      (TcpClient_set_connect_status_callback (Some f) (TcpClient_new r noDelay),
       \<lparr>ci_io = i, ci_connects = [], ci_open = [], ci_reading = []\<rparr>) 0 []"
| stepped: "client_run L A mode s n xs \<Longrightarrow> permitted L A a s \<Longrightarrow> client_step L A mode a s = Some (s', cs) \<Longrightarrow>
    client_run L A mode s' (if \<exists>addr. a = Connect addr then Suc n else n) (xs @ statuses cs)"

text \<open>Every report of a lost connection follows the report of its opening.\<close>

definition follows :: "connect_status list \<Rightarrow> bool" where
  "follows xs \<longleftrightarrow> (\<forall>i < length xs. xs ! i = ConnectClose \<longrightarrow> 0 < i \<and> xs ! (i - 1) = ConnectSuccess)"

definition outcomes :: "connect_status list \<Rightarrow> nat" where
  "outcomes xs = length (filter (\<lambda>x. x \<noteq> ConnectClose) xs)"

lemma follows_Nil [simp]: "follows []"
  by (simp add: follows_def)

lemma follows_append [simp]:
  "follows (xs @ [x]) \<longleftrightarrow> follows xs \<and> (x = ConnectClose \<longrightarrow> xs \<noteq> [] \<and> last xs = ConnectSuccess)"
proof -
  have "(xs @ [x]) ! i = xs ! i \<and> (xs @ [x]) ! (i - 1) = xs ! (i - 1)" if "i < length xs" for i
    using that less_imp_diff_less [OF that, of 1] by (simp add: nth_append)
  then have "follows (xs @ [x]) \<longleftrightarrow> follows xs \<and>
      (x = ConnectClose \<longrightarrow> 0 < length xs \<and> (xs @ [x]) ! (length xs - 1) = ConnectSuccess)"
    unfolding follows_def by (simp add: All_less_Suc conj_commute)
  then show ?thesis by (cases "xs = []") (simp_all add: nth_append last_conv_nth)
qed

text \<open>A connect that is under way or was refused has no outcome yet; the last status of a client that
  is live or lost is the success of its connect.\<close>

definition history :: "phase \<Rightarrow> nat \<Rightarrow> connect_status list \<Rightarrow> bool" where
  "history p n xs \<longleftrightarrow> follows xs \<and>
     outcomes xs + (if p \<in> {Connecting, Refused, Failing} then 1 else 0) = n \<and>
     (p \<in> {Live, Lost} \<longrightarrow> xs \<noteq> [] \<and> last xs = ConnectSuccess)"

lemma history_step:
  assumes "history p n xs" "phase_step p b ys q"
  shows "history q (if b then Suc n else n) (xs @ ys)"
  using assms(2,1) by cases (auto simp: history_def outcomes_def)

lemma client_run_history:
  assumes "client_run L A mode s n xs" "uv_laws L"
  shows "client_inv L s \<and> cl_connectCallback (fst s) \<noteq> None \<and> history (phase_of L s) n xs"
  using assms
proof (induction rule: client_run.induct)
  case (begun i f r noDelay)
  then show ?case
    by (auto simp: client_inv_def phase_of_def TcpClient_set_connect_status_callback_def TcpClient_new_def
        client_handles_def history_def outcomes_def)
next
  case (stepped s n xs a s' cs)
  then obtain f where s: "client_inv L s" "cl_connectCallback (fst s) = Some f"
    and h: "history (phase_of L s) n xs" by auto
  obtain "client_inv L s'" "cl_connectCallback (fst s') = Some f"
    "phase_step (phase_of L s) (\<exists>addr. a = Connect addr) (statuses cs) (phase_of L s')"
    using client_step_good [OF stepped.prems s(1) stepped.hyps(2) s(2), of mode] stepped.hyps(3) by auto
  with history_step [OF h] show ?case by simp
qed

text \<open>C14: In every run of a client the statuses told are the outcomes of its connects, one for each but
  the one under way (or refused), and the loss of a connection is told only right after its
  opening. So no connect is answered twice and no loss is told twice or of a connect that failed.\<close>

theorem client_status_protocol:
  assumes "client_run L A mode s n xs" and "uv_laws L"
  shows "follows xs \<and> outcomes xs \<le> n \<and> n \<le> Suc (outcomes xs) \<and>
    (phase_of L s \<in> {Rest, Live, Lost, Leaving} \<longrightarrow> outcomes xs = n)"
  using client_run_history [OF assms] by (auto simp: history_def)

lemma demo_name:
  "SocketAddr_addr_to_str demo_addr_lib (uv_getpeername trace_uv 1 u) Ipv4 = Some demo_peer"
  by (simp add: demo_peer_def SocketAddr_addr_to_str_def SocketAddr_get_ip_and_port_def inet_ntoa_def trace_uv_def)

theorem client_status_protocol_witness:
  "\<exists>s :: (string, string, string, uv_call list, string) client_state.
     client_run trace_uv demo_addr_lib NoBuffer s 1 [ConnectSuccess, ConnectClose] \<and>
     follows [ConnectSuccess, ConnectClose] \<and> outcomes [ConnectSuccess, ConnectClose] \<le> 1"
proof -
  let ?run = "client_run trace_uv demo_addr_lib NoBuffer"
  obtain sa where con: "TcpClient_connect trace_uv demo_server_addr demo_client = Some demo_connecting"
    and d: "demo_connecting = (\<lparr>cl_connection = None, cl_connect = 0, cl_ipv = Ipv4, cl_socket = Some 1,
       cl_tcpNoDelay = False, cl_connectCallback = Some ''status'', cl_onMessageCallback = None\<rparr>,
       \<lparr>ci_io = \<lparr>io_uv = [UvTcpConnect 0 1 sa, UvTcpInit 1], io_writes = [], io_shutdowns = [], io_next = 2\<rparr>,
        ci_connects = [(0, 1)], ci_open = [1], ci_reading = []\<rparr>)"
    using demo_connecting_eq by blast
  define op :: "client_event \<Rightarrow> (string, string) client_op" where "op = Event"
  have 0: "?run demo_client 0 []" unfolding demo_client_def by (rule client_run.begun) simp
  have "permitted trace_uv demo_addr_lib (Connect demo_server_addr :: (string, string) client_op) demo_client"
    using demo_client_inv(2) demo_addr_of by (auto simp: permitted_def demo_client_def)
  then have 1: "?run demo_connecting 1 []"
    using client_run.stepped [OF 0, of "Connect demo_server_addr" demo_connecting "[]"] con
    by (auto simp: client_step_def)
  let ?step = "client_step trace_uv demo_addr_lib NoBuffer"
  let ?permitted = "permitted trace_uv demo_addr_lib"
  have "?permitted (op (ConnectDone 0 0)) demo_connecting \<and>
    (\<exists>s2 cs2. ?step (op (ConnectDone 0 0)) demo_connecting = Some (s2, cs2) \<and> statuses cs2 = [ConnectSuccess] \<and>
       ?permitted (op (ClientReceived 1 (- 104) [])) s2 \<and>
    (\<exists>s3 cs3. ?step (op (ClientReceived 1 (- 104) [])) s2 = Some (s3, cs3) \<and> statuses cs3 = [] \<and>
       ?permitted (op (ClientHandleClosed 1)) s3 \<and>
    (\<exists>s4 cs4. ?step (op (ClientHandleClosed 1)) s3 = Some (s4, cs4) \<and> statuses cs4 = [ConnectClose])))"
    using demo_name
    by (simp add: op_def permitted_def client_step_def TcpClient_event_def TcpClient_on_connect_def d
        settle_def client_handles_def Let_def TcpConnection_defs trace_uv_def uv_do_def with_uv_def
        TcpClient_run_connect_callback_def TcpConnection_on_mesage_receive_def UV_EOF_def
        TcpClient_on_connect_close_def close_connection_def TcpClient_on_close_def)
  then obtain s2 s3 s4 cs2 cs3 cs4 where
    2: "?permitted (op (ConnectDone 0 0)) demo_connecting"
      "?step (op (ConnectDone 0 0)) demo_connecting = Some (s2, cs2)" "statuses cs2 = [ConnectSuccess]"
    and 3: "?permitted (op (ClientReceived 1 (- 104) [])) s2"
      "?step (op (ClientReceived 1 (- 104) [])) s2 = Some (s3, cs3)" "statuses cs3 = []"
    and 4: "?permitted (op (ClientHandleClosed 1)) s3"
      "?step (op (ClientHandleClosed 1)) s3 = Some (s4, cs4)" "statuses cs4 = [ConnectClose]"
    by blast
  note r2 = client_run.stepped [OF 1 2(1,2)]
  note r3 = client_run.stepped [OF r2 3(1,2)]
  note r4 = client_run.stepped [OF r3 4(1,2)]
  then have run: "?run s4 1 [ConnectSuccess, ConnectClose]" by (simp add: 2 3 4 op_def)
  then show ?thesis using client_status_protocol [OF run trace_uv_laws] by blast
qed

lemma connect_cases:
  assumes "SocketAddr_addr addr = Some sa"
    and st: "settle cl (cl\<lparr>cl_socket := Some (io_next (ci_io io))\<rparr>) io \<noteq> None"
  obtains u rst io' where
    "TcpClient_connect L addr (cl, io) =
       Some (cl\<lparr>cl_socket := Some (io_next (ci_io io)), cl_ipv := SocketAddr_ipv addr\<rparr>, io')"
    "fst (uv L (UvTcpConnect (cl_connect cl) (io_next (ci_io io)) sa) u) = rst"
    "ci_open io' = io_next (ci_io io) # ci_open io"
    "ci_connects io' = (if rst = 0 then (cl_connect cl, io_next (ci_io io)) # ci_connects io else ci_connects io)"
proof -
  let ?h = "io_next (ci_io io)"
  define u where "u = (if cl_tcpNoDelay cl then uv_do L (UvTcpNodelay ?h) (uv_do L (UvTcpInit ?h) (cuv io))
    else uv_do L (UvTcpInit ?h) (cuv io))"
  let ?io = "io\<lparr>ci_io := (ci_io io)\<lparr>io_uv := u, io_next := Suc ?h\<rparr>, ci_open := ?h # ci_open io\<rparr>"
  obtain rst u' where con: "uv L (UvTcpConnect (cl_connect cl) ?h sa) u = (rst, u')" by fastforce
  have "settle cl (cl\<lparr>cl_socket := Some ?h\<rparr>) io = Some (cl\<lparr>cl_socket := Some ?h\<rparr>)"
    using st by (auto simp: settle_def split: if_splits)
  then have "TcpClient_create_tcp_socket L (cl, io) = Some (cl\<lparr>cl_socket := Some ?h\<rparr>, ?io)"
    by (simp add: TcpClient_create_tcp_socket_def Let_def u_def)
  then show ?thesis
    using assms(1) con that [of "if rst = 0 then (with_uv u' ?io)\<lparr>ci_connects := (cl_connect cl, ?h) # ci_connects io\<rparr>
      else with_uv u' ?io" u rst]
    by (simp add: TcpClient_connect_def Let_def)
qed

lemma phase_open:
  assumes "client_inv L (cl, io)" "phase_of L (cl, io) \<noteq> Rest"
  shows "\<exists>h. cl_socket cl = Some h \<and> h \<in> set (ci_open io) \<and> h < io_next (ci_io io) \<and>
    (phase_of L (cl, io) \<in> {Live, Lost, Leaving} \<longleftrightarrow> (\<exists>c. conn_at h cl = Some c))"
proof -
  obtain h where h: "cl_socket cl = Some h" "h \<in> set (ci_open io)"
    using assms(2) by (auto simp: phase_of_def split: option.splits if_splits)
  have "h < io_next (ci_io io)" using client_inv_less [OF assms(1), of h] h by (simp add: client_handles_def)
  moreover have "conn_at h cl = None" if "h \<in> snd ` set (ci_connects io)"
    using client_inv_connects [OF assms(1), of _ h] that by force
  ultimately show ?thesis
    using h by (cases "conn_at h cl") (auto simp: phase_of_def split: option.splits client_done.splits)
qed

lemma busy_connect:
  assumes inv: "client_inv L (cl, io)" and ph: "phase_of L (cl, io) \<in> {Connecting, Refused, Failing}"
  shows "TcpClient_connect L addr (cl, io) = None"
proof -
  obtain h where h: "cl_socket cl = Some h" "h \<in> set (ci_open io)" "h < io_next (ci_io io)"
    and none: "conn_at h cl = None"
    using phase_open [OF inv] ph by fastforce
  then have "h \<notin> set (client_handles (cl\<lparr>cl_socket := Some (io_next (ci_io io))\<rparr>))"
    by (cases "cl_connection cl") (auto simp: client_handles_def split: if_splits)
  then have "settle cl (cl\<lparr>cl_socket := Some (io_next (ci_io io))\<rparr>) io = None"
    using h by (auto simp: settle_def client_handles_def list_all_iff)
  then show ?thesis by (simp add: TcpClient_connect_def TcpClient_create_tcp_socket_def)
qed

text \<open>Connecting before the last handle is closed goes wrong. While a connect is under way, or was
  refused, or its failed handle is being closed, a further connect releases the memory of a handle
  libuv still has. While a connection is open, or being closed, the connect goes ahead, and its
  success releases the connection with its open handle.\<close>

theorem early_connect:
  fixes s :: "('s, 'n, 'x, 'u, 'w) client_state"
  assumes "client_inv L s" and "SocketAddr_addr addr = Some sa"
  shows "(phase_of L s \<in> {Connecting, Refused, Failing} \<longrightarrow> TcpClient_connect L addr s = None) \<and>
    (phase_of L s \<in> {Live, Lost, Leaving} \<longrightarrow>
       (\<exists>s'. TcpClient_connect L addr s = Some s' \<and>
          TcpClient_event L A mode (ConnectDone (cl_connect (fst s)) 0) s' = None))"
proof -
  obtain cl io where s: "s = (cl, io)" by fastforce
  note inv = assms(1) [unfolded s]
  show ?thesis
  proof (cases "phase_of L (cl, io) = Rest")
    case False
    obtain h where h: "cl_socket cl = Some h" "h \<in> set (ci_open io)" "h < io_next (ci_io io)"
      and c: "phase_of L (cl, io) \<in> {Live, Lost, Leaving} \<longleftrightarrow> (\<exists>c. conn_at h cl = Some c)"
      using phase_open [OF inv False] by blast
    show ?thesis
    proof (cases "conn_at h cl")
      case None
      then have "phase_of L (cl, io) \<in> {Connecting, Refused, Failing}"
        using c False by (cases "phase_of L (cl, io)") auto
      then show ?thesis using busy_connect [OF inv] s by auto
    next
      case (Some c)
      then have cc: "cl_connection cl = Some c" "tc_handle c = h" by (simp_all add: conn_at_iff)
      let ?n = "io_next (ci_io io)"
      have st: "settle cl (cl\<lparr>cl_socket := Some ?n\<rparr>) io = Some (cl\<lparr>cl_socket := Some ?n\<rparr>)"
        using cc h by (simp add: settle_def client_handles_def)
      obtain cl' io' where con: "TcpClient_connect L addr (cl, io) = Some (cl', io')"
        and cl': "cl_socket cl' = Some ?n" "cl_connection cl' = Some c" and o: "h \<in> set (ci_open io')"
      proof (rule connect_cases [OF assms(2), of cl io L])
        show "settle cl (cl\<lparr>cl_socket := Some ?n\<rparr>) io \<noteq> None" using st by simp
      qed (use h(2) cc in \<open>auto intro: that\<close>)
      have "settle cl' (cl'\<lparr>cl_connection := Some d\<rparr>) (io'\<lparr>ci_connects := x\<rparr>) = None"
        if "tc_handle d = ?n" for d :: "'x client_connection" and x
        using cl' o cc(2) h(3) that by (simp add: settle_def client_handles_def)
      then have "TcpClient_event L A mode (ConnectDone r 0) (cl', io') = None" for r
        using cl' by (cases "SocketAddr_addr_to_str A (uv_getpeername L ?n (cuv io')) (cl_ipv cl')")
          (simp_all add: TcpClient_event_def TcpClient_on_connect_def TcpConnection_new_def Let_def)
      then show ?thesis using con c Some s by auto
    qed
  qed (simp add: s)
qed

theorem early_connect_witness:
  "TcpClient_connect trace_uv demo_server_addr demo_connecting = None"
proof -
  obtain sa where sa: "SocketAddr_addr demo_server_addr = Some sa" using demo_addr_of by blast
  obtain sb where d: "demo_connecting = (\<lparr>cl_connection = None, cl_connect = 0, cl_ipv = Ipv4, cl_socket = Some 1,
       cl_tcpNoDelay = False, cl_connectCallback = Some ''status'', cl_onMessageCallback = None\<rparr>,
       \<lparr>ci_io = \<lparr>io_uv = [UvTcpConnect 0 1 sb, UvTcpInit 1], io_writes = [], io_shutdowns = [], io_next = 2\<rparr>,
        ci_connects = [(0, 1)], ci_open = [1], ci_reading = []\<rparr>)"
    using demo_connecting_eq by blast
  have inv: "client_inv trace_uv demo_connecting \<and> phase_of trace_uv demo_connecting = Connecting"
    by (simp add: d client_inv_def phase_of_def client_handles_def trace_uv_def)
  from early_connect [OF _ sa] inv show ?thesis by blast
qed

text \<open>A connect that libuv refuses at once is lost: the code of \<^verbatim>\<open>uv_tcp_connect\<close> is ignored, no
  status is ever told, whatever happens afterwards the client stays as it is, and a further
  connect releases the memory of the handle that is still open.\<close>

theorem refused_connect_lost:
  assumes "uv_laws L" and "client_inv L s" and "phase_of L s = Rest"
    and "cl_connectCallback (fst s) = Some f" and "SocketAddr_addr addr = Some sa"
    and "\<And>h u. fst (uv L (UvTcpConnect (cl_connect (fst s)) h sa) u) \<noteq> 0"
  shows "\<exists>s'. TcpClient_connect L addr s = Some s' \<and> phase_of L s' = Refused \<and>
    TcpClient_connect L addr s' = None \<and>
    (\<forall>a. permitted L A a s' \<longrightarrow> (\<exists>s'' cs. client_step L A mode a s' = Some (s'', cs) \<and>
       statuses cs = [] \<and> phase_of L s'' = Refused))"
proof -
  have p: "permitted L A (Connect addr) s" using assms(3,5) by (cases s) (simp add: permitted_def)
  obtain s' where con: "TcpClient_connect L addr s = Some s'" and inv: "client_inv L s'"
    and f: "cl_connectCallback (fst s') = Some f" and ph: "phase_step Rest True [] (phase_of L s')"
    using client_step_good [OF assms(1,2) p assms(4), of NoBuffer] assms(3)
    by (cases "TcpClient_connect L addr s") (auto simp: client_step_def)
  have rest: "ci_open (snd s) = []" "ci_connects (snd s) = []"
    using settle_rest [of L "fst s" "snd s"] assms(2,3) by auto
  have "ci_connects (snd s') = []"
  proof (rule connect_cases [OF assms(5), of "fst s" "snd s" L])
    show "settle (fst s) (fst s\<lparr>cl_socket := Some (io_next (ci_io (snd s)))\<rparr>) (snd s) \<noteq> None"
      using rest by (simp add: settle_def list_all_iff)
  qed (use con rest assms(6) in auto)
  then have "phase_of L s' \<noteq> Connecting"
    by (cases s') (auto simp: phase_of_def split: option.splits client_done.splits)
  then have R: "phase_of L s' = Refused" using ph by (simp add: phase_step_simps)
  have "\<exists>s'' cs. client_step L A mode a s' = Some (s'', cs) \<and> statuses cs = [] \<and> phase_of L s'' = Refused"
    if "permitted L A a s'" for a
    using client_step_good [OF assms(1) inv that f, of mode] R by (auto simp: phase_step_simps)
  moreover have "TcpClient_connect L addr s' = None"
    using busy_connect [of L "fst s'" "snd s'"] inv R by simp
  ultimately show ?thesis using con R by blast
qed

definition refusing_uv :: "uv_call list libuv" where
  "refusing_uv = trace_uv\<lparr>uv := \<lambda>c tr. (case c of UvTcpConnect r h sa \<Rightarrow> (- 101, c # tr) | _ \<Rightarrow> (0, c # tr))\<rparr>"

lemma refusing_uv_laws: "uv_laws refusing_uv"
  using trace_uv_laws
  by (auto simp: uv_laws_def uv_do_def refusing_uv_def trace_uv_def split: uv_call.splits)

theorem refused_connect_lost_witness:
  "\<exists>s'. TcpClient_connect refusing_uv demo_server_addr demo_client = Some s' \<and>
     phase_of refusing_uv s' = Refused \<and> TcpClient_connect refusing_uv demo_server_addr s' = None"
proof -
  obtain sa where sa: "SocketAddr_addr demo_server_addr = Some sa" using demo_addr_of by blast
  have f: "cl_connectCallback (fst demo_client) = Some ''status''"
    by (simp add: demo_client_def TcpClient_set_connect_status_callback_def)
  have "fst (uv refusing_uv (UvTcpConnect (cl_connect (fst demo_client)) h sa) u) \<noteq> 0" for h u
    by (simp add: refusing_uv_def)
  from refused_connect_lost [OF refusing_uv_laws demo_client_inv f sa this, of demo_addr_lib NoBuffer]
  show ?thesis by blast
qed

text \<open>A client may be destroyed exactly at rest. In every other phase its destructor frees the memory
  of a handle that libuv still has, also after \<^verbatim>\<open>close\<close> until its callback has run.\<close>

theorem destroy_at_rest:
  assumes "client_inv L s"
  shows "TcpClient_destroy s \<noteq> None \<longleftrightarrow> phase_of L s = Rest"
proof -
  obtain cl io where s: "s = (cl, io)" by fastforce
  note inv = assms [unfolded s]
  show ?thesis
  proof (cases "phase_of L (cl, io) = Rest")
    case True
    then show ?thesis using settle_rest [OF inv True] by (simp add: s TcpClient_destroy_def list_ex_iff)
  next
    case False
    then obtain h where "cl_socket cl = Some h" "h \<in> set (ci_open io)" using phase_open [OF inv] by blast
    then show ?thesis using False by (simp add: s TcpClient_destroy_def client_handles_def)
  qed
qed

theorem destroy_at_rest_witness: "TcpClient_destroy demo_client \<noteq> None"
  using destroy_at_rest [OF demo_client_inv(1), of trace_uv] demo_client_inv(2) by blast

end
