(* ===== verification/Tcp_Proxy.thy ===== *)
theory Tcp_Proxy
  imports Tcp_Server Tcp_Client Udp_Proxy
begin

text \<open>
  The TCP proxy: \<^verbatim>\<open>app/tcp_agent.h/.cpp\<close>, \<^verbatim>\<open>app/tcp_proxy.h/.cpp\<close>. The proxy is the application
  of a TCP server: its state is the \<open>sw_app\<close> of the server's world, its message callback a value
  of the type \<open>app\<close>. An agent is a TCP client that connects to the real server a message names;
  agents live on the heap and are never deleted. The status callback of an agent holds the
  client's connection by a shared pointer, so that object lives on when the server has let it go.
  Texts printed for information are left out.
\<close>

section \<open>Agents\<close>

text \<open>The status callback of an agent with what it captures: the agent, the client's connection and the
  message.\<close>

datatype agent_status = AgentStatus nat hid "byte list"

record tcp_agent =
  ag_client :: "(agent_status, unit, unit) tcp_client"
  ag_sa :: socket_addr
  ag_client_address :: string
  ag_server_address :: string

text \<open>The request of the client is \<open>r\<close>; the delay is switched off by default.\<close>

definition TcpAgent_new :: "addr_lib \<Rightarrow> string \<Rightarrow> string \<Rightarrow> int \<Rightarrow> rid \<Rightarrow> tcp_agent" where
  "TcpAgent_new A client_address sip sport r =
     \<lparr>ag_client = TcpClient_new r True, ag_sa = SocketAddr_of_ip A sip (of_int sport) Ipv4,
      ag_client_address = client_address, ag_server_address = sip @ '':'' @ to_string sport\<rparr>"

definition TcpAgent_client_address :: "tcp_agent \<Rightarrow> string" where
  "TcpAgent_client_address a = c_str (ag_client_address a)"

definition TcpAgent_server_address :: "tcp_agent \<Rightarrow> string" where
  "TcpAgent_server_address a = c_str (ag_server_address a)"

section \<open>The proxy\<close>

text \<open>With the fields of the object: the heap of agents and what libuv holds for them.\<close>

record tcp_proxy = proxy +
  tp_session :: "string \<rightharpoonup> nat"
  tp_agents :: "nat \<rightharpoonup> tcp_agent"
  tp_connects :: "(rid \<times> hid) list"
  tp_open :: "hid list"
  tp_reading :: "hid list"

datatype proxy_cb = ProxyMessage

type_synonym ('u, 'w) proxy_world = "('u, 'w, proxy_cb, tcp_proxy) world"

definition TcpProxy_new :: "addr_lib \<Rightarrow> string \<Rightarrow> int \<Rightarrow> tcp_proxy" where
  "TcpProxy_new A ip port = proxy.extend (Proxy_new A ip port)
     \<lparr>tp_session = Map.empty, tp_agents = Map.empty, tp_connects = [], tp_open = [], tp_reading = []\<rparr>"

text \<open>The server is made and listens; its result is not looked at.\<close>

definition TcpProxy_start ::
    "'u libuv \<Rightarrow> buffer_mode \<Rightarrow> IPV \<Rightarrow> ('u, 'w) io \<Rightarrow> tcp_proxy \<Rightarrow> (int \<times> ('u, 'w) proxy_world) option" where
  "TcpProxy_start L mode junk io p = do {
     let w = TcpServer_set_message_callback (Some ProxyMessage) (TcpServer_new L mode junk True io p);
     (rst, w) \<leftarrow> TcpServer_listen L (px_addr p) w;
     Some (0, w) }"

text \<open>The switch over the objects of a message. The command and the port are \<^verbatim>\<open>int\<close>, uninitialised when
  the message has no such object.\<close>

fun TcpProxy_assign :: "nat \<Rightarrow> msgobj \<Rightarrow> 32 word \<times> string \<times> 32 word \<times> byte list \<Rightarrow>
    (32 word \<times> string \<times> 32 word \<times> byte list) option" where
  "TcpProxy_assign i obj (command, ip, port, message) =
     (if i = 0 then do { n \<leftarrow> via_i64 obj; Some (ucast n, ip, port, message) }
      else if i = 1 then do { s \<leftarrow> via_str obj; Some (command, chars s, port, message) }
      else if i = 2 then do { n \<leftarrow> via_i64 obj; Some (command, ip, ucast n, message) }
      else if i = 3 then do { s \<leftarrow> via_str obj; Some (command, ip, port, s) }
      else Some (command, ip, port, message))"

definition TcpProxy_unpack :: "decoder \<Rightarrow> 32 word \<Rightarrow> 32 word \<Rightarrow> byte list \<Rightarrow>
    (32 word \<times> string \<times> 32 word \<times> byte list) option option" where
  "TcpProxy_unpack dec junk_command junk_port buffer =
     unpack_loop dec TcpProxy_assign buffer 0 0 (junk_command, '''', junk_port, [])"

text \<open>An agent as a client: its object with what libuv holds, and back.\<close>

definition agent_io :: "('u, 'w) proxy_world \<Rightarrow> ('u, 'w) client_io" where
  "agent_io w = \<lparr>ci_io = sw_io w, ci_connects = tp_connects (sw_app w), ci_open = tp_open (sw_app w),
     ci_reading = tp_reading (sw_app w)\<rparr>"

definition put_agent :: "nat \<Rightarrow> tcp_agent \<Rightarrow> ('u, 'w) client_io \<Rightarrow> ('u, 'w) proxy_world \<Rightarrow>
    ('u, 'w) proxy_world" where
  "put_agent n a io w = w\<lparr>sw_io := ci_io io, sw_app := (sw_app w)\<lparr>
     tp_agents := (tp_agents (sw_app w))(n \<mapsto> a), tp_connects := ci_connects io,
     tp_open := ci_open io, tp_reading := ci_reading io\<rparr>\<rparr>"

text \<open>The agent and its request take the next two addresses.\<close>

definition TcpProxy_connect_real_server ::
    "'u libuv \<Rightarrow> addr_lib \<Rightarrow> hid \<Rightarrow> string \<Rightarrow> int \<Rightarrow> byte list \<Rightarrow> ('u, 'w) proxy_world \<Rightarrow>
     ('u, 'w) proxy_world option" where
  "TcpProxy_connect_real_server L A client ip port message w = do {
     c \<leftarrow> held client w;
     let n = io_next (sw_io w);
     let a = TcpAgent_new A (c_str (tc_name c)) ip port (Suc n);
     let w = w\<lparr>sw_io := (sw_io w)\<lparr>io_next := n + 2\<rparr>\<rparr>;
     let addr = SocketAddr_of_ip A ip (of_int port) Ipv4;
     let cl = TcpClient_set_connect_status_callback (Some (AgentStatus n client message)) (ag_client a);
     (cl, io) \<leftarrow> TcpClient_connect L addr (cl, agent_io w);
     Some (put_agent n (a\<lparr>ag_client := cl\<rparr>) io w) }"

definition TcpProxy_on_message ::
    "'u libuv \<Rightarrow> addr_lib \<Rightarrow> decoder \<Rightarrow> 32 word \<Rightarrow> 32 word \<Rightarrow> hid \<Rightarrow> byte list \<Rightarrow> ('u, 'w) proxy_world \<Rightarrow>
     ('u, 'w) proxy_world option" where
  "TcpProxy_on_message L A dec jc jp client data w = (case TcpProxy_unpack dec jc jp data of
     Some (Some (command, sip, sport, message)) \<Rightarrow>
       if command = 0x00
       then TcpProxy_connect_real_server L A client (c_str sip) (sint sport) message w
       else Some w
   | _ \<Rightarrow> None)"

text \<open>The proxy as the application of its server: only the message callback is set.\<close>

definition TcpProxy_app ::
    "'u libuv \<Rightarrow> addr_lib \<Rightarrow> decoder \<Rightarrow> 32 word \<Rightarrow> 32 word \<Rightarrow> ('u, 'w, proxy_cb, tcp_proxy) app" where
  "TcpProxy_app L A dec jc jp x w = (case x of
     AppMessage ProxyMessage client data \<Rightarrow> TcpProxy_on_message L A dec jc jp client data w
   | _ \<Rightarrow> Some w)"

text \<open>The status callback. On success the session is entered and the message written to the client's
  connection; otherwise that connection is closed without a completion callback.\<close>

definition TcpProxy_on_status ::
    "'u libuv \<Rightarrow> agent_status \<Rightarrow> connect_status \<Rightarrow> ('u, 'w) proxy_world \<Rightarrow> ('u, 'w) proxy_world option" where
  "TcpProxy_on_status L s status w = (case s of AgentStatus n client message \<Rightarrow> do {
     c \<leftarrow> held client w;
     if status = ConnectSuccess then do {
       let w = w\<lparr>sw_app := (sw_app w)\<lparr>tp_session := (tp_session (sw_app w))(tc_name c \<mapsto> n)\<rparr>\<rparr>;
       let (rst, io, cs) = TcpConnection_write L message None c (sw_io w);
       Some (log_calls cs (w\<lparr>sw_io := io\<rparr>)) }
     else do {
       let ((c, u), cs) = TcpConnection_close L None (c, wuv w);
       Some (log_calls cs (put_uv u (put_held client c w))) } })"

fun agent_calls :: "'u libuv \<Rightarrow> (agent_status, unit, unit, 'w) client_call list \<Rightarrow> ('u, 'w) proxy_world \<Rightarrow>
    ('u, 'w) proxy_world option" where
  "agent_calls L [] w = Some w"
| "agent_calls L (c # cs) w = do {
     w \<leftarrow> (case c of
        CallStatus s status \<Rightarrow> TcpProxy_on_status L s status w
      | ClientLog l t \<Rightarrow> Some (put_log l t w)
      | _ \<Rightarrow> Some w);
     agent_calls L cs w }"

text \<open>An event of the server's handles or of an agent's.\<close>

datatype proxy_event = ServerEvent srv_event | AgentEvent nat client_event

definition TcpProxy_event ::
    "'u libuv \<Rightarrow> addr_lib \<Rightarrow> decoder \<Rightarrow> 32 word \<Rightarrow> 32 word \<Rightarrow> proxy_event \<Rightarrow> ('u, 'w) proxy_world \<Rightarrow>
     ('u, 'w) proxy_world option" where
  "TcpProxy_event L A dec jc jp e w = (case e of
     ServerEvent x \<Rightarrow> TcpServer_event L A (TcpProxy_app L A dec jc jp) x w
   | AgentEvent n x \<Rightarrow> do {
       a \<leftarrow> tp_agents (sw_app w) n;
       ((cl, io), cs) \<leftarrow> TcpClient_event L A (sw_mode w) x (ag_client a, agent_io w);
       agent_calls L cs (put_agent n (a\<lparr>ag_client := cl\<rparr>) io w) })"

end
