(* ===== verification/Tcp_Proxy_Props.thy ===== *)
theory Tcp_Proxy_Props
  imports Tcp_Proxy
begin

text \<open>
  The properties of the TCP proxy: what a message is read as, what a bind command does, and what
  follows the outcome of an agent's connect. The last two are not what a proxy is for: the message
  goes back to the client, and a failure leaves the client's entry in the server's table.
\<close>

section \<open>Reading a message\<close>

text \<open>The reference: the fields by position, \<open>None\<close> when an object has not the kind of its place.\<close>

fun tcp_fields :: "32 word \<Rightarrow> 32 word \<Rightarrow> msgobj list \<Rightarrow> (32 word \<times> string \<times> 32 word \<times> byte list) option" where
  "tcp_fields jc jp [] = Some (jc, '''', jp, [])"
| "tcp_fields jc jp [MInt c] = Some (ucast c, '''', jp, [])"
| "tcp_fields jc jp [MInt c, MStr s] = Some (ucast c, chars s, jp, [])"
| "tcp_fields jc jp [MInt c, MStr s, MInt p] = Some (ucast c, chars s, ucast p, [])"
| "tcp_fields jc jp (MInt c # MStr s # MInt p # MStr m # _) = Some (ucast c, chars s, ucast p, m)"
| "tcp_fields jc jp _ = None"

lemma assigns_rest: "4 \<le> i \<Longrightarrow> assigns TcpProxy_assign i objs r = Some r"
  by (induction objs arbitrary: i) (cases r; simp)+

lemma assigns_fields: "assigns TcpProxy_assign 0 objs (jc, '''', jp, []) = tcp_fields jc jp objs"
  by (induction jc jp objs rule: tcp_fields.induct) (simp_all add: assigns_rest)

lemma unpack_fields:
  "decoder_law dec \<Longrightarrow> TcpProxy_unpack dec jc jp buffer = Some (tcp_fields jc jp (objects dec buffer))"
  by (simp add: TcpProxy_unpack_def unpack_loop_objects assigns_fields)

section \<open>Commands\<close>

text \<open>Connecting an agent: the client of an agent is new, so nothing is freed.\<close>

lemma fresh_connect:
  fixes io :: "('u, 'w) client_io" and cl :: "('s, 'n, 'x) tcp_client"
  assumes "SocketAddr_addr addr = Some sa" "cl_socket cl = None" "cl_connection cl = None" "cl_tcpNoDelay cl"
  shows "\<exists>io' rst. let h = io_next (ci_io io);
       u = uv_do L (UvTcpNodelay h) (uv_do L (UvTcpInit h) (cuv io)) in
     TcpClient_connect L addr (cl, io) =
       Some (cl\<lparr>cl_socket := Some h, cl_ipv := SocketAddr_ipv addr\<rparr>, io') \<and>
     uv L (UvTcpConnect (cl_connect cl) h sa) u = (rst, cuv io') \<and> ci_open io' = h # ci_open io \<and>
     ci_connects io' = (if rst = 0 then (cl_connect cl, h) # ci_connects io else ci_connects io) \<and>
     io_writes (ci_io io') = io_writes (ci_io io) \<and> io_next (ci_io io') = Suc h \<and>
     ci_reading io' = ci_reading io \<and> io_shutdowns (ci_io io') = io_shutdowns (ci_io io)"
proof -
  let ?h = "io_next (ci_io io)"
  let ?u = "uv_do L (UvTcpNodelay ?h) (uv_do L (UvTcpInit ?h) (cuv io))"
  let ?io = "io\<lparr>ci_io := (ci_io io)\<lparr>io_uv := ?u, io_next := Suc ?h\<rparr>, ci_open := ?h # ci_open io\<rparr>"
  obtain rst u' where con: "uv L (UvTcpConnect (cl_connect cl) ?h sa) ?u = (rst, u')" by fastforce
  have "TcpClient_create_tcp_socket L (cl, io) = Some (cl\<lparr>cl_socket := Some ?h\<rparr>, ?io)"
    using assms(2-4) by (simp add: TcpClient_create_tcp_socket_def settle_def client_handles_def Let_def)
  then show ?thesis
    using assms(1) con
    by (intro exI [of _ "if rst = 0 then (with_uv u' ?io)\<lparr>ci_connects := (cl_connect cl, ?h) # ci_connects io\<rparr>
        else with_uv u' ?io"] exI [of _ rst])
      (simp add: TcpClient_connect_def Let_def with_uv_def)
qed

section \<open>Properties\<close>

text \<open>C19: Unpacking a TCP message comes to an end for every buffer and every decoder whose objects end
  after they begin and inside the buffer, and is equal to reading off the message's first four objects
  by position, whatever follows them: command, address, port and message, the numbers cut to 32
  bits; a field with no object keeps its initial value, which for the command and the port is
  whatever the uninitialised variable holds. Both are undefined (the inner \<open>None\<close>) for the same
  buffers: those in which an object is not of the kind its position is read as, where the code
  reads the wrong member of a union.\<close>

theorem tcp_unpack_reference:
  assumes "decoder_law dec"
  shows "TcpProxy_unpack dec jc jp buffer = Some (tcp_fields jc jp (objects dec buffer))"
  using assms by (rule unpack_fields)

text \<open>A bind command with an empty address and message: \<^verbatim>\<open>00 a0 05 a1 78\<close> (port 5, message \<^verbatim>\<open>x\<close>).\<close>

definition demo_bind :: "byte list" where
  "demo_bind = [0x00, 0xa0, 0x05, 0xa1, 0x78]"

lemma demo_bind_objects: "objects small_decoder demo_bind = [MInt 0, MStr [], MInt 5, MStr [0x78]]"
  by (simp add: objects_def small_decoder_def demo_bind_def Let_def)

theorem tcp_unpack_reference_witness:
  "TcpProxy_unpack small_decoder 7 9 demo_bind = Some (Some (0, '''', 5, [0x78]))"
  using tcp_unpack_reference [OF small_decoder_law, of 7 9 demo_bind]
  by (simp add: demo_bind_objects chars_def)

text \<open>What a bind command does: the agent's client is new, its handle is the third of the new addresses.\<close>

lemma bind_connects:
  fixes w :: "('u, 'w) proxy_world"
  defines "n \<equiv> io_next (sw_io w)"
  assumes un: "TcpProxy_unpack dec jc jp data = Some (Some (0, ip, p, m))" and "held client w = Some c"
  shows "\<exists>w' a rst. TcpProxy_on_message L A dec jc jp client data w = Some w' \<and>
    tp_agents (sw_app w') = (tp_agents (sw_app w))(n \<mapsto> a) \<and>
    cl_connectCallback (ag_client a) = Some (AgentStatus n client m) \<and>
    cl_socket (ag_client a) = Some (n + 2) \<and> cl_connection (ag_client a) = None \<and>
    cl_ipv (ag_client a) = Ipv4 \<and>
    uv L (UvTcpConnect (Suc n) (n + 2) (uv_ip4_addr A (c_str ip) (of_int (sint p))))
        (uv_do L (UvTcpNodelay (n + 2)) (uv_do L (UvTcpInit (n + 2)) (wuv w))) = (rst, wuv w') \<and>
    (rst = 0 \<longrightarrow> (Suc n, n + 2) \<in> set (tp_connects (sw_app w'))) \<and>
    sw_connections w' = sw_connections w \<and> sw_conns w' = sw_conns w \<and>
    io_writes (sw_io w') = io_writes (sw_io w) \<and> sw_wheel w' = sw_wheel w"
proof -
  define port where "port = sint p"
  define addr where "addr = SocketAddr_of_ip A (c_str ip) (of_int port) Ipv4"
  define a where "a = TcpAgent_new A (c_str (tc_name c)) (c_str ip) port (Suc n)"
  define cl where "cl = TcpClient_set_connect_status_callback (Some (AgentStatus n client m)) (ag_client a)"
  define w0 where "w0 = w\<lparr>sw_io := (sw_io w)\<lparr>io_next := n + 2\<rparr>\<rparr>"
  have cl: "cl_socket cl = None" "cl_connection cl = None" "cl_tcpNoDelay cl" "cl_connect cl = Suc n"
    "cl_connectCallback cl = Some (AgentStatus n client m)"
    by (simp_all add: cl_def a_def TcpClient_set_connect_status_callback_def TcpAgent_new_def TcpClient_new_def)
  have sa: "SocketAddr_addr addr = Some (uv_ip4_addr A (c_str ip) (of_int port))"
    by (simp add: addr_def SocketAddr_addr_def SocketAddr_of_ip_def)
  obtain io' rst where con: "TcpClient_connect L addr (cl, agent_io w0) =
      Some (cl\<lparr>cl_socket := Some (n + 2), cl_ipv := SocketAddr_ipv addr\<rparr>, io')"
    and uv: "uv L (UvTcpConnect (Suc n) (n + 2) (uv_ip4_addr A (c_str ip) (of_int port)))
        (uv_do L (UvTcpNodelay (n + 2)) (uv_do L (UvTcpInit (n + 2)) (wuv w))) = (rst, cuv io')"
    and cs: "rst = 0 \<longrightarrow> (Suc n, n + 2) \<in> set (ci_connects io')"
    and wr: "io_writes (ci_io io') = io_writes (sw_io w)"
    using fresh_connect [where L = L and io = "agent_io w0", OF sa cl(1-3)] cl(4)
    by (auto simp: agent_io_def w0_def Let_def)
  define b where "b = a\<lparr>ag_client := cl\<lparr>cl_socket := Some (n + 2), cl_ipv := SocketAddr_ipv addr\<rparr>\<rparr>"
  define w' where "w' = put_agent n b io' w0"
  have b: "cl_connectCallback (ag_client b) = Some (AgentStatus n client m)"
    "cl_socket (ag_client b) = Some (n + 2)" "cl_connection (ag_client b) = None" "cl_ipv (ag_client b) = Ipv4"
    using cl by (simp_all add: b_def addr_def SocketAddr_ipv_def SocketAddr_of_ip_def)
  have w': "tp_agents (sw_app w') = (tp_agents (sw_app w))(n \<mapsto> b)" "wuv w' = cuv io'"
    "tp_connects (sw_app w') = ci_connects io'" "sw_connections w' = sw_connections w"
    "sw_conns w' = sw_conns w" "io_writes (sw_io w') = io_writes (sw_io w)" "sw_wheel w' = sw_wheel w"
    by (simp_all add: w'_def put_agent_def w0_def wr)
  have "TcpProxy_connect_real_server L A client (c_str ip) port m w = do {
      (cl, io) \<leftarrow> TcpClient_connect L addr (cl, agent_io w0); Some (put_agent n (a\<lparr>ag_client := cl\<rparr>) io w0) }"
    unfolding TcpProxy_connect_real_server_def assms(3) Option.bind_lunit Let_def n_def [symmetric]
      w0_def [symmetric] a_def [symmetric] cl_def [symmetric] addr_def [symmetric] by (rule refl)
  then have "TcpProxy_connect_real_server L A client (c_str ip) port m w = Some w'"
    using con by (simp add: w'_def b_def)
  then have "TcpProxy_on_message L A dec jc jp client data w = Some w'"
    using un by (simp add: TcpProxy_on_message_def port_def)
  then show ?thesis
    using b uv cs unfolding port_def
    by (intro exI [of _ w'] exI [of _ b] exI [of _ rst] conjI) (simp_all only: w' simp_thms)
qed

text \<open>C18: A message whose command is 0x00 makes an agent for the client: libuv is asked to connect a new
  handle to the address and port of the message, the agent holds the client's connection and the
  message for the outcome, and nothing is written yet. Every other command does nothing.\<close>

theorem tcp_command_dispatch:
  fixes w :: "('u, 'w) proxy_world" and command :: "64 word"
  defines "n \<equiv> io_next (sw_io w)"
  assumes "decoder_law dec" and "held client w = Some c"
    and objs: "objects dec data = MInt command # MStr ip # MInt p # MStr m # others"
  shows "(ucast command = (0 :: 32 word) \<longrightarrow>
      (\<exists>w' a rst. TcpProxy_on_message L A dec jc jp client data w = Some w' \<and>
        tp_agents (sw_app w') = (tp_agents (sw_app w))(n \<mapsto> a) \<and>
        cl_connectCallback (ag_client a) = Some (AgentStatus n client m) \<and>
        cl_socket (ag_client a) = Some (n + 2) \<and> cl_connection (ag_client a) = None \<and>
        uv L (UvTcpConnect (Suc n) (n + 2) (uv_ip4_addr A (c_str (chars ip)) (of_int (sint (ucast p :: 32 word)))))
            (uv_do L (UvTcpNodelay (n + 2)) (uv_do L (UvTcpInit (n + 2)) (wuv w))) = (rst, wuv w') \<and>
        (rst = 0 \<longrightarrow> (Suc n, n + 2) \<in> set (tp_connects (sw_app w'))) \<and>
        sw_connections w' = sw_connections w \<and> sw_conns w' = sw_conns w \<and>
        io_writes (sw_io w') = io_writes (sw_io w))) \<and>
    (ucast command \<noteq> (0 :: 32 word) \<longrightarrow> TcpProxy_on_message L A dec jc jp client data w = Some w)"
proof -
  have un: "TcpProxy_unpack dec jc jp data = Some (Some (ucast command, chars ip, ucast p, m))"
    using unpack_fields [OF assms(2), of jc jp data] objs by simp
  then have "TcpProxy_on_message L A dec jc jp client data w = Some w" if "ucast command \<noteq> (0 :: 32 word)"
    using that by (simp add: TcpProxy_on_message_def)
  with bind_connects [OF _ assms(3), of dec jc jp data "chars ip" "ucast p" m L A] un show ?thesis
    unfolding n_def by simp blast
qed

text \<open>A proxy with one client, the connection over handle 1.\<close>

definition demo_proxy :: "(uv_call list, string) proxy_world" where
  "demo_proxy =
     (TcpServer_new trace_uv NoBuffer Ipv4 True
        \<lparr>io_uv = [], io_writes = [], io_shutdowns = [], io_next = 5\<rparr> (TcpProxy_new demo_addr_lib ''127.0.0.1'' 80))
     \<lparr>sw_connections := [(''peer'', 1)],
      sw_conns := [1 \<mapsto> \<lparr>tc_name = ''peer'', tc_connected = True, tc_handle = 1, tc_data = [], tc_buffer = None,
        tc_wrapper = None, tc_onMessageCallback = Some SrvMessage,
        tc_onConnectCloseCallback = Some SrvCloseConnection, tc_closeCompleteCallback = None\<rparr>]\<rparr>"

definition demo_client_conn :: srv_connection where
  "demo_client_conn = the (sw_conns demo_proxy 1)"

lemma demo_proxy_sel:
  "sw_conns demo_proxy 1 = Some demo_client_conn" "held 1 demo_proxy = Some demo_client_conn"
  "tc_connected demo_client_conn" "tc_handle demo_client_conn = 1" "tc_name demo_client_conn = ''peer''"
  "map_of (sw_connections demo_proxy) ''peer'' = Some 1" "io_next (sw_io demo_proxy) = 6"
  "\<not> uv_is_closing trace_uv 1 (wuv demo_proxy)"
  by (simp_all add: demo_client_conn_def demo_proxy_def held_def TcpServer_new_def TimerWheel_new_def Timer_new_def
      Let_def trace_uv_def uv_do_def split_beta)

theorem tcp_command_dispatch_witness:
  "\<exists>w' a. TcpProxy_on_message trace_uv demo_addr_lib small_decoder 7 9 1 demo_bind demo_proxy = Some w' \<and>
     tp_agents (sw_app w') 6 = Some a \<and> cl_connectCallback (ag_client a) = Some (AgentStatus 6 1 [0x78])"
proof -
  have "objects small_decoder demo_bind = MInt 0 # MStr [] # MInt 5 # MStr [0x78] # []"
    by (rule demo_bind_objects)
  from tcp_command_dispatch [OF small_decoder_law demo_proxy_sel(2) this, of trace_uv demo_addr_lib 7 9]
  show ?thesis by (simp add: demo_proxy_sel) (metis fun_upd_same)
qed

text \<open>A message that arrives in two reads is not put together. The first part of a bind command is
  carried out at once, with an empty address and whatever the port variable holds; the second part
  reads the wrong member of an object's union. A read without a complete object is taken for
  whatever the command variable holds.\<close>

theorem tcp_split_message:
  "TcpProxy_unpack small_decoder jc jp ([0x00, 0xa2, 0x68] @ [0x69, 0x05, 0xa1, 0x78]) =
     Some (Some (0, ''hi'', 5, [0x78])) \<and>
   TcpProxy_unpack small_decoder jc jp [0x00, 0xa2, 0x68] = Some (Some (0, '''', jp, [])) \<and>
   TcpProxy_unpack small_decoder jc jp [0x69, 0x05, 0xa1, 0x78] = Some None \<and>
   TcpProxy_unpack small_decoder jc jp [0xa2, 0x68] = Some (Some (jc, '''', jp, []))"
  by (simp add: unpack_fields [OF small_decoder_law] objects_def small_decoder_def Let_def chars_hi)

section \<open>Outcomes\<close>

lemma put_agent_sel [simp]:
  "sw_conns (put_agent n a io w) = sw_conns w" "sw_connections (put_agent n a io w) = sw_connections w"
  "sw_released (put_agent n a io w) = sw_released w" "sw_io (put_agent n a io w) = ci_io io"
  "tp_session (sw_app (put_agent n a io w)) = tp_session (sw_app w)"
  by (simp_all add: put_agent_def)

lemma held_put_agent [simp]: "held h (put_agent n a io w) = held h w"
  by (rule held_same) simp_all

text \<open>The demonstration with an agent whose client has the handle 3.\<close>

definition demo_agent :: tcp_agent where
  "demo_agent = (TcpAgent_new demo_addr_lib ''peer'' ''127.0.0.1'' 80 2)
     \<lparr>ag_client := (TcpClient_new 2 True)
        \<lparr>cl_socket := Some 3, cl_connectCallback := Some (AgentStatus 1 1 [0x78])\<rparr>\<rparr>"

definition demo_linking :: "(uv_call list, string) proxy_world" where
  "demo_linking = put_agent 1 demo_agent
     \<lparr>ci_io = sw_io demo_proxy, ci_connects = [(2, 3)], ci_open = [3], ci_reading = []\<rparr> demo_proxy"

lemma demo_linking_sel:
  "tp_agents (sw_app demo_linking) 1 = Some demo_agent"
  "cl_connectCallback (ag_client demo_agent) = Some (AgentStatus 1 1 [0x78])"
  "cl_socket (ag_client demo_agent) = Some 3" "cl_connection (ag_client demo_agent) = None"
  "cl_ipv (ag_client demo_agent) = Ipv4" "sw_conns demo_linking 1 = Some demo_client_conn"
  "held 1 demo_linking = Some demo_client_conn" "sw_connections demo_linking = [(''peer'', 1)]"
  "\<not> uv_is_closing trace_uv 1 (wuv demo_linking)"
  using demo_proxy_sel
  by (simp_all add: demo_linking_def demo_agent_def TcpClient_new_def)
    (simp_all add: put_agent_def demo_proxy_def)

text \<open>The success of an agent's connect.\<close>

lemma linked_writes_back:
  fixes w :: "('u, 'w) proxy_world"
  assumes "tp_agents (sw_app w) n = Some a" and "cl_connectCallback (ag_client a) = Some (AgentStatus n client m)"
    and "cl_socket (ag_client a) = Some h" and "cl_connection (ag_client a) = None"
    and "SocketAddr_addr_to_str A (uv_getpeername L h (wuv w)) (cl_ipv (ag_client a)) = Some name"
    and "held client w = Some c" and "tc_connected c"
  shows "\<exists>w' q. TcpProxy_event L A dec jc jp (AgentEvent n (ConnectDone r 0)) w = Some w' \<and>
    tp_session (sw_app w') = (tp_session (sw_app w))(tc_name c \<mapsto> n) \<and>
    wuv w' = uv_do L (UvWrite q (tc_handle c) (uv_buf m)) (uv_do L (UvReadStart h) (wuv w))"
proof -
  define io where "io = (agent_io w)\<lparr>ci_connects := AList.delete r (tp_connects (sw_app w))\<rparr>"
  obtain cl' where ev: "TcpClient_event L A (sw_mode w) (ConnectDone r 0) (ag_client a, agent_io w) =
      Some ((cl', (with_uv (uv_do L (UvReadStart h) (wuv w)) io)\<lparr>ci_reading := h # ci_reading io\<rparr>),
        [CallStatus (AgentStatus n client m) ConnectSuccess])"
    using assms(2-5)
    by (simp add: TcpClient_event_def TcpClient_on_connect_def io_def agent_io_def settle_def client_handles_def
        TcpConnection_defs TcpClient_run_connect_callback_def Let_def with_uv_def)
  define w1 where "w1 = put_agent n (a\<lparr>ag_client := cl'\<rparr>)
    ((with_uv (uv_do L (UvReadStart h) (wuv w)) io)\<lparr>ci_reading := h # ci_reading io\<rparr>) w"
  have w1: "wuv w1 = uv_do L (UvReadStart h) (wuv w)" "held client w1 = Some c"
    "tp_session (sw_app w1) = tp_session (sw_app w)"
    using assms(6) by (simp_all add: w1_def with_uv_def)
  obtain rst io' and cs :: "(srv_message, srv_close, srv_done, 'w) conn_call list"
    where wr: "TcpConnection_write L m None c (sw_io w1) = (rst, io', cs)"
    by (metis surj_pair)
  obtain q where q: "io_uv io' = uv_do L (UvWrite q (tc_handle c) (uv_buf m)) (wuv w1)"
    using write_back [OF wr assms(7)] by blast
  have "\<exists>w'. TcpProxy_on_status L (AgentStatus n client m) ConnectSuccess w1 = Some w' \<and>
      tp_session (sw_app w') = (tp_session (sw_app w1))(tc_name c \<mapsto> n) \<and> sw_io w' = io'"
    using w1(2) wr by (simp add: TcpProxy_on_status_def Let_def)
  then show ?thesis
    using ev q w1 assms(1) by (auto simp: TcpProxy_event_def w1_def [symmetric])
qed

text \<open>When an agent has connected, the session of the client is entered, and the message, which was
  for the real server, is written to the connection of the client it came from. Nothing is
  written to the agent's handle: libuv is asked for two things, to read from that handle and to
  write to the client's.\<close>

theorem tcp_message_echoed:
  fixes w :: "('u, 'w) proxy_world"
  assumes "tp_agents (sw_app w) n = Some a" and "cl_connectCallback (ag_client a) = Some (AgentStatus n client m)"
    and "cl_socket (ag_client a) = Some h" and "cl_connection (ag_client a) = None"
    and "SocketAddr_addr_to_str A (uv_getpeername L h (wuv w)) (cl_ipv (ag_client a)) = Some name"
    and "held client w = Some c" and "tc_connected c"
  shows "\<exists>w' q. TcpProxy_event L A dec jc jp (AgentEvent n (ConnectDone r 0)) w = Some w' \<and>
    tp_session (sw_app w') = (tp_session (sw_app w))(tc_name c \<mapsto> n) \<and>
    wuv w' = uv_do L (UvWrite q (tc_handle c) (uv_buf m)) (uv_do L (UvReadStart h) (wuv w))"
  using linked_writes_back [OF assms] .

theorem tcp_message_echoed_witness:
  "\<exists>w' q. TcpProxy_event trace_uv demo_addr_lib small_decoder 7 9 (AgentEvent 1 (ConnectDone 2 0)) demo_linking = Some w' \<and>
     tp_session (sw_app w') ''peer'' = Some 1 \<and>
     wuv w' = UvWrite q 1 [0x78] # UvReadStart 3 # wuv demo_linking"
proof -
  obtain name where "SocketAddr_addr_to_str demo_addr_lib (uv_getpeername trace_uv 3 (wuv demo_linking)) Ipv4 = Some name"
    by (simp add: SocketAddr_addr_to_str_def SocketAddr_get_ip_and_port_def inet_ntoa_def trace_uv_def)
  from tcp_message_echoed [OF demo_linking_sel(1-4) this [folded demo_linking_sel(5)] demo_linking_sel(7)
      demo_proxy_sel(3), of small_decoder 7 9 2]
  show ?thesis by (auto simp: demo_proxy_sel trace_uv_def uv_do_def)
qed

text \<open>When an agent's connect has failed, the client's connection is closed without a completion
  callback: when libuv has closed the handle, nothing happens at all.\<close>

lemma failed_link:
  fixes w :: "('u, 'w) proxy_world"
  assumes "uv_laws L"
    and "tp_agents (sw_app w) n = Some a" and "cl_connectCallback (ag_client a) = Some (AgentStatus n client m)"
    and "cl_socket (ag_client a) = Some h" and "cl_connection (ag_client a) = None"
    and "sw_conns w client = Some c" and "tc_handle c = client" and "\<not> uv_is_closing L client (wuv w)"
  shows "\<exists>w1. TcpProxy_event L A dec jc jp (AgentEvent n (ClientHandleClosed h)) w = Some w1 \<and>
    uv_is_closing L client (wuv w1) \<and> (\<forall>app. TcpServer_event L A app (Closed client) w1 = Some w1) \<and>
    sw_connections w1 = sw_connections w \<and> sw_conns w1 client \<noteq> None \<and>
    tp_session (sw_app w1) = tp_session (sw_app w)"
proof -
  define io where "io = (agent_io w)\<lparr>ci_open := removeAll h (tp_open (sw_app w))\<rparr>"
  have ev: "TcpClient_event L A (sw_mode w) (ClientHandleClosed h) (ag_client a, agent_io w) =
      Some ((ag_client a, io), [CallStatus (AgentStatus n client m) ConnectFail])"
    using assms(3-5)
    by (simp add: TcpClient_event_def io_def agent_io_def conn_at_def TcpClient_after_connect_fail_def
        TcpClient_run_connect_callback_def Let_def)
  define w0 where "w0 = put_agent n (a\<lparr>ag_client := ag_client a\<rparr>) io w"
  have w0: "sw_conns w0 = sw_conns w" "sw_connections w0 = sw_connections w" "wuv w0 = wuv w"
    "tp_session (sw_app w0) = tp_session (sw_app w)" "held client w0 = Some c"
    using assms(6) by (simp_all add: w0_def io_def agent_io_def held_def)
  obtain c' u' and cs :: "(srv_message, srv_close, srv_done, 'w) conn_call list"
    where cl: "TcpConnection_close L None (c, wuv w) = ((c', u'), cs)" by (metis surj_pair)
  have c': "tc_closeCompleteCallback c' = None" by (simp add: close_object [OF cl])
  have closing: "uv_is_closing L client u'" using close_open [OF assms(1) _ cl] assms(7,8) by simp
  let ?w1 = "log_calls cs (put_uv u' (put_held client c' w0))"
  have st: "TcpProxy_on_status L (AgentStatus n client m) ConnectFail w0 = Some ?w1"
    using w0 cl by (simp add: TcpProxy_on_status_def)
  have w1: "sw_conns ?w1 client = Some c'" "sw_connections ?w1 = sw_connections w" "wuv ?w1 = u'"
    "tp_session (sw_app ?w1) = tp_session (sw_app w)"
    using w0 assms(6) by (simp_all add: put_uv_def put_held_def put_conn_def)
  have "TcpProxy_event L A dec jc jp (AgentEvent n (ClientHandleClosed h)) w = Some ?w1"
    using ev st assms(2) by (simp add: TcpProxy_event_def w0_def)
  moreover have "TcpServer_event L A app (Closed client) ?w1 = Some ?w1" for app
    using w1(1) c' by (simp add: TcpServer_event_def TcpConnection_close_complete_def)
  ultimately show ?thesis using w1 closing by (intro exI [of _ ?w1]) simp
qed

end
