(* ===== verification/Tcp_Server_Moves.thy ===== *)
theory Tcp_Server_Moves
  imports Tcp_Server_Safety
begin

text \<open>
  What an application can rely on across the events of its server: a relation between worlds that
  the server's own steps and the application's callbacks are in holds between the worlds before and
  after every event. The locale \<open>server_moves\<close> is this contract; an application interprets it
  with the relation that keeps its invariant. The server's own steps are \<open>moves\<close>: they lose no
  object that is referred to and do not touch a handle the server has nothing of.
\<close>

section \<open>What a step leaves of the rest\<close>

text \<open>The addresses of objects and requests are taken, and requests have addresses of their own.\<close>

definition taken :: "('u, 'w, 'a, 's) world \<Rightarrow> bool" where
  "taken w \<longleftrightarrow> distinct (map fst (io_shutdowns (sw_io w))) \<and>
     (\<forall>(r, h) \<in> set (io_shutdowns (sw_io w)). r < io_next (sw_io w) \<and> h < io_next (sw_io w)) \<and>
     (\<forall>h. sw_conns w h \<noteq> None \<or> sw_released w h \<noteq> None \<longrightarrow> h < io_next (sw_io w)) \<and>
     (\<forall>h c. sw_conns w h = Some c \<longrightarrow> tc_handle c < io_next (sw_io w))"

text \<open>A handle of which the server has nothing.\<close>

definition alien :: "('u, 'w, 'a, 's) world \<Rightarrow> hid \<Rightarrow> bool" where
  "alien w g \<longleftrightarrow> sw_conns w g = None \<and> sw_released w g = None \<and> (\<forall>h c. sw_conns w h = Some c \<longrightarrow> tc_handle c \<noteq> g)"

definition shuts :: "hid \<Rightarrow> ('u, 'w, 'a, 's) world \<Rightarrow> (rid \<times> hid) list" where
  "shuts g w = filter (\<lambda>p. snd p = g) (io_shutdowns (sw_io w))"

text \<open>Addresses are only taken, no connection appears but one over the handle \<open>X\<close>, an object that is
  referred to stays, and nothing happens to a handle the server has nothing of.\<close>

definition moves :: "'u libuv \<Rightarrow> hid option \<Rightarrow> ('u, 'w, 'a, 's) world \<Rightarrow> ('u, 'w, 'a, 's) world \<Rightarrow> bool" where
  "moves L X w w' \<longleftrightarrow> io_next (sw_io w) \<le> io_next (sw_io w') \<and>
     (\<forall>h. sw_conns w h \<noteq> None \<or> sw_released w h \<noteq> None \<longrightarrow> sw_conns w' h \<noteq> None \<or> sw_released w' h \<noteq> None) \<and>
     (uv_laws L \<longrightarrow> taken w \<longrightarrow> (\<forall>x. X = Some x \<longrightarrow> x < io_next (sw_io w)) \<longrightarrow> taken w' \<and>
        (\<forall>g. X \<noteq> Some g \<longrightarrow> alien w g \<longrightarrow> alien w' g \<and> shuts g w' = shuts g w \<and>
           uv_is_closing L g (wuv w') = uv_is_closing L g (wuv w)))"

lemma moves_next: "moves L X w w' \<Longrightarrow> io_next (sw_io w) \<le> io_next (sw_io w')"
  by (simp add: moves_def)

lemma moves_refl [simp]: "moves L X w w"
  by (simp add: moves_def)

lemma moves_trans:
  assumes "moves L X w w1" "moves L X w1 w2" shows "moves L X w w2"
proof -
  have n: "io_next (sw_io w) \<le> io_next (sw_io w1)" "io_next (sw_io w1) \<le> io_next (sw_io w2)"
    using assms by (simp_all add: moves_def)
  have X: "\<forall>x. X = Some x \<longrightarrow> x < io_next (sw_io w1)" if "\<forall>x. X = Some x \<longrightarrow> x < io_next (sw_io w)"
    using that n(1) by force
  show ?thesis
    unfolding moves_def
  proof (intro conjI impI)
    show "io_next (sw_io w) \<le> io_next (sw_io w2)" using n by simp
    show "\<forall>h. sw_conns w h \<noteq> None \<or> sw_released w h \<noteq> None \<longrightarrow> sw_conns w2 h \<noteq> None \<or> sw_released w2 h \<noteq> None"
      using assms unfolding moves_def by blast
  next
    assume a: "uv_laws L" "taken w" "\<forall>x. X = Some x \<longrightarrow> x < io_next (sw_io w)"
    then have 1: "taken w1" "\<forall>g. X \<noteq> Some g \<longrightarrow> alien w g \<longrightarrow> alien w1 g \<and> shuts g w1 = shuts g w \<and>
           uv_is_closing L g (wuv w1) = uv_is_closing L g (wuv w)"
      using assms(1) unfolding moves_def by blast+
    have 2: "taken w2" "\<forall>g. X \<noteq> Some g \<longrightarrow> alien w1 g \<longrightarrow> alien w2 g \<and> shuts g w2 = shuts g w1 \<and>
           uv_is_closing L g (wuv w2) = uv_is_closing L g (wuv w1)"
      using assms(2) a(1) 1(1) X [OF a(3)] unfolding moves_def by blast+
    show "taken w2" by (rule 2(1))
    show "\<forall>g. X \<noteq> Some g \<longrightarrow> alien w g \<longrightarrow> alien w2 g \<and> shuts g w2 = shuts g w \<and>
           uv_is_closing L g (wuv w2) = uv_is_closing L g (wuv w)"
      using 1(2) 2(2) by simp
  qed
qed

text \<open>Steps that bring no new object: every connection there is was there, over the same handle.\<close>

definition no_new :: "('u, 'w, 'a, 's) world \<Rightarrow> ('u, 'w, 'a, 's) world \<Rightarrow> bool" where
  "no_new w w' \<longleftrightarrow> (\<forall>h c. sw_conns w' h = Some c \<longrightarrow> (\<exists>c0. sw_conns w h = Some c0 \<and> tc_handle c = tc_handle c0)) \<and>
     (\<forall>h. sw_released w' h \<noteq> None \<longrightarrow> sw_conns w h \<noteq> None \<or> sw_released w h \<noteq> None) \<and>
     (\<forall>h. sw_conns w h \<noteq> None \<or> sw_released w h \<noteq> None \<longrightarrow> sw_conns w' h \<noteq> None \<or> sw_released w' h \<noteq> None)"

lemma no_new_alien:
  assumes "no_new w w'" "alien w g" shows "alien w' g"
proof -
  have "sw_conns w' g = None"
  proof (rule ccontr)
    assume "sw_conns w' g \<noteq> None"
    then show False using assms unfolding no_new_def alien_def by fastforce
  qed
  moreover have "sw_released w' g = None"
  proof (rule ccontr)
    assume "sw_released w' g \<noteq> None"
    then show False using assms unfolding no_new_def alien_def by blast
  qed
  moreover have "tc_handle c \<noteq> g" if "sw_conns w' h = Some c" for h c
    using assms that unfolding no_new_def alien_def by metis
  ultimately show ?thesis by (simp add: alien_def)
qed

lemma no_new_taken:
  assumes "no_new w w'" "taken w" "io_next (sw_io w) \<le> io_next (sw_io w')"
    and "distinct (map fst (io_shutdowns (sw_io w')))"
    and "\<And>r h. (r, h) \<in> set (io_shutdowns (sw_io w')) \<Longrightarrow> r < io_next (sw_io w') \<and> h < io_next (sw_io w')"
  shows "taken w'"
proof -
  have "h < io_next (sw_io w')" if "sw_conns w' h \<noteq> None \<or> sw_released w' h \<noteq> None" for h
  proof -
    have "sw_conns w h \<noteq> None \<or> sw_released w h \<noteq> None"
      using that assms(1) unfolding no_new_def by blast
    then have "h < io_next (sw_io w)" using assms(2) unfolding taken_def by blast
    then show ?thesis using assms(3) by simp
  qed
  moreover have "tc_handle c < io_next (sw_io w')" if c: "sw_conns w' h = Some c" for h c
  proof -
    obtain c0 where "sw_conns w h = Some c0" "tc_handle c = tc_handle c0"
      using c assms(1) unfolding no_new_def by blast
    then have "tc_handle c < io_next (sw_io w)" using assms(2) unfolding taken_def by fastforce
    then show ?thesis using assms(3) by simp
  qed
  ultimately show ?thesis using assms(4,5) unfolding taken_def by blast
qed

lemma movesI:
  assumes "no_new w w'" "io_next (sw_io w) \<le> io_next (sw_io w')"
    and "taken w \<Longrightarrow> distinct (map fst (io_shutdowns (sw_io w')))"
    and "\<And>r h. taken w \<Longrightarrow> (r, h) \<in> set (io_shutdowns (sw_io w')) \<Longrightarrow> r < io_next (sw_io w') \<and> h < io_next (sw_io w')"
    and "\<And>g. taken w \<Longrightarrow> alien w g \<Longrightarrow> shuts g w' = shuts g w"
    and "\<And>g. uv_laws L \<Longrightarrow> X \<noteq> Some g \<Longrightarrow> alien w g \<Longrightarrow> uv_is_closing L g (wuv w') = uv_is_closing L g (wuv w)"
  shows "moves L X w w'"
  using assms no_new_alien [OF assms(1)] no_new_taken [OF assms(1) _ assms(2)]
  unfolding moves_def by (simp add: no_new_def)

text \<open>The shutdown requests stay.\<close>

lemma moves_same:
  assumes "no_new w w'" "io_next (sw_io w) \<le> io_next (sw_io w')"
    and "io_shutdowns (sw_io w') = io_shutdowns (sw_io w)"
    and "\<And>g. uv_laws L \<Longrightarrow> X \<noteq> Some g \<Longrightarrow> alien w g \<Longrightarrow> uv_is_closing L g (wuv w') = uv_is_closing L g (wuv w)"
  shows "moves L X w w'"
proof (rule movesI [OF assms(1,2)])
  show "taken w \<Longrightarrow> distinct (map fst (io_shutdowns (sw_io w')))" by (simp add: assms(3) taken_def)
  show "r < io_next (sw_io w') \<and> h < io_next (sw_io w')"
    if "taken w" "(r, h) \<in> set (io_shutdowns (sw_io w'))" for r h
    using that assms(2,3) by (force simp: taken_def)
qed (simp_all add: shuts_def assms(3,4))

lemma no_new_same: "sw_conns w' = sw_conns w \<Longrightarrow> sw_released w' = sw_released w \<Longrightarrow> no_new w w'"
  by (simp add: no_new_def)

lemma no_new_conn:
  "sw_conns w h = Some c0 \<Longrightarrow> tc_handle c = tc_handle c0 \<Longrightarrow> sw_conns w' = (sw_conns w)(h \<mapsto> c) \<Longrightarrow>
   sw_released w' = sw_released w \<Longrightarrow> no_new w w'"
  by (auto simp: no_new_def)

lemma alien_handle: "sw_conns w h = Some c \<Longrightarrow> alien w g \<Longrightarrow> tc_handle c \<noteq> g \<and> h \<noteq> g"
  by (auto simp: alien_def)

text \<open>A receive event: the handle stays, at most a shutdown is requested.\<close>

lemma receive_io:
  assumes r: "TcpConnection_on_mesage_receive L nread buf c io = ((c', io'), cs)"
  shows "tc_handle c' = tc_handle c \<and> io_next io \<le> io_next io' \<and>
    (io_shutdowns io' = io_shutdowns io \<or>
     io_shutdowns io' = (io_next io, tc_handle c) # io_shutdowns io \<and> io_next io < io_next io') \<and>
    (uv_laws L \<longrightarrow> (\<forall>g. uv_is_closing L g (io_uv io') = uv_is_closing L g (io_uv io)))"
proof -
  obtain rst u where u: "uv L (UvShutdown (io_next io) (tc_handle c)) (io_uv io) = (rst, u)" by fastforce
  have same: "uv_is_closing L g u = uv_is_closing L g (io_uv io)" if "uv_laws L" for g
    using closing_other [OF that, of "UvShutdown (io_next io) (tc_handle c)" g "io_uv io"] u
    by (simp add: uv_do_def)
  consider "nread > 0 \<or> nread = 0" | "nread < 0" "nread \<noteq> UV_EOF" | "nread < 0" "nread = UV_EOF"
    by linarith
  then show ?thesis
  proof cases
    case 1
    then show ?thesis using r by (auto simp: TcpConnection_on_mesage_receive_def)
  next
    case 2
    then have "c' = c\<lparr>tc_connected := False\<rparr>" "io' = io"
      using r by (simp_all add: TcpConnection_on_mesage_receive_def TcpConnection_set_connect_status_def Let_def)
    then show ?thesis by simp
  next
    case 3
    then have "c' = c\<lparr>tc_connected := False\<rparr>" "io_uv io' = u" "io_next io' = Suc (io_next io)"
      "io_shutdowns io' = (if rst = 0 then (io_next io, tc_handle c) # io_shutdowns io else io_shutdowns io)"
      using r u by (auto simp: TcpConnection_on_mesage_receive_def TcpConnection_set_connect_status_def Let_def)
    then show ?thesis using same by simp
  qed
qed

lemma new_connection:
  "TcpConnection_new L mode name h b u = (c, u') \<Longrightarrow> tc_handle c = h \<and> u' = uv_do L (UvReadStart h) u"
  by (auto simp: TcpConnection_new_def Let_def)

text \<open>The calls of libuv in the operations: none of them writes.\<close>

lemma close_calls: "TcpConnection_close L k (c, u) = ((c', u'), cs) \<Longrightarrow> calls_by L silent u u'"
  by (auto simp: TcpConnection_close_def Let_def split: if_splits intro!: calls_by_step)

lemma receive_calls:
  "TcpConnection_on_mesage_receive L nread buf c io = ((c', io'), cs) \<Longrightarrow> calls_by L silent (io_uv io) (io_uv io')"
  by (auto simp: TcpConnection_on_mesage_receive_def Let_def split: if_splits prod.splits elim!: calls_by_uv)

lemma on_connection_calls:
  "TcpAcceptor_on_connection L status x acc u = (cs, u') \<Longrightarrow> calls_by L silent u u'"
  by (auto simp: TcpAcceptor_on_connection_def Let_def split: if_splits prod.splits
      intro!: calls_by_step elim!: calls_by_uv)

text \<open>A step of the server's own; it leaves the application's state and message callback.\<close>

definition own_step :: "'u libuv \<Rightarrow> hid option \<Rightarrow> ('u, 'w, 'a, 's) world \<Rightarrow> ('u, 'w, 'a, 's) world \<Rightarrow> bool" where
  "own_step L X w w' \<longleftrightarrow> moves L X w w' \<and> calls_by L silent (wuv w) (wuv w') \<and> sw_app w' = sw_app w \<and>
     sw_onMessageCallback w' = sw_onMessageCallback w"

lemma own_same: "moves L X w w' \<Longrightarrow> wuv w' = wuv w \<Longrightarrow> sw_app w' = sw_app w \<Longrightarrow>
    sw_onMessageCallback w' = sw_onMessageCallback w \<Longrightarrow> own_step L X w w'"
  by (simp add: own_step_def)

text \<open>A relation between worlds that the server's own steps and the application's callbacks are in is
  kept by every event.\<close>

locale server_moves =
  fixes L :: "'u libuv" and app :: "('u, 'w, 'a, 's) app" and X :: "hid option"
    and R :: "('u, 'w, 'a, 's) world \<Rightarrow> ('u, 'w, 'a, 's) world \<Rightarrow> bool"
  assumes R_trans: "R w w1 \<Longrightarrow> R w1 w2 \<Longrightarrow> R w w2"
    and R_own: "own_step L X w w' \<Longrightarrow> R w w'"
    and R_app: "app x w = Some w' \<Longrightarrow> R w w'"
begin

lemma R_refl: "R w w"
  by (intro R_own own_same) simp_all

lemma R_log: "R w (put_log l s w)"
  by (intro R_own own_same moves_same no_new_same) (simp_all add: put_log_def)

lemma R_wheel: "R w (w\<lparr>sw_wheel := wh\<rparr>)" "R w (w\<lparr>sw_wrappers := xs\<rparr>)"
  by (intro R_own own_same moves_same no_new_same, simp_all)+

lemma R_release: "R w (release h w)"
  by (intro R_own own_same moves_same) (auto simp: no_new_def release_def split: option.splits)

lemma R_remove: "R w (TcpServer_remove_connection name w)"
proof (cases "map_of (sw_connections w) name")
  case (Some h)
  have "R w (w\<lparr>sw_connections := AList.delete name (sw_connections w)\<rparr>)"
    by (intro R_own own_same moves_same no_new_same) simp_all
  then show ?thesis using Some R_trans [OF _ R_release] by (simp add: TcpServer_remove_connection_def)
qed (simp add: TcpServer_remove_connection_def R_refl)

lemma R_opt: "app_opt app cb mk w = Some w' \<Longrightarrow> R w w'"
  by (cases cb) (auto simp: app_opt_def R_refl intro: R_app)

lemma R_done: "TcpServer_close_done app name w = Some w' \<Longrightarrow> R w w'"
  by (auto simp: TcpServer_close_done_def R_refl split: option.splits Option.bind_splits
      intro: R_trans [OF R_opt R_remove])

lemma R_run_done: "run_done app cs w = Some w' \<Longrightarrow> R w w'"
proof (induction cs arbitrary: w)
  case (Cons c cs)
  show ?case
  proof (cases c)
    case (CallCloseComplete k name)
    then obtain w1 where "TcpServer_close_done app name w = Some w1" "run_done app cs w1 = Some w'"
      using Cons.prems by (cases k) (auto split: Option.bind_splits)
    then show ?thesis using R_trans [OF R_done Cons.IH] by blast
  qed (use Cons in simp_all)
qed (simp add: R_refl)

lemma R_close: "TcpServer_close_connection L app name w = Some w' \<Longrightarrow> R w w'"
proof -
  assume close: "TcpServer_close_connection L app name w = Some w'"
  show ?thesis
  proof (cases "TcpServer_get_connection name w")
    case None
    then show ?thesis using close by (simp add: TcpServer_close_connection_def R_refl)
  next
    case (Some h)
    then obtain c c' u cs where c: "sw_conns w h = Some c"
      and cl: "TcpConnection_close L (Some SrvCloseDone) (c, wuv w) = ((c', u), cs)"
      and run: "run_done app cs (put_uv u (put_conn h c' w)) = Some w'"
      using close by (auto simp: TcpServer_close_connection_def split: Option.bind_splits prod.splits)
    have "moves L X w (put_uv u (put_conn h c' w))"
    proof (rule moves_same)
      show "no_new w (put_uv u (put_conn h c' w))"
        using c by (intro no_new_conn [OF c]) (simp_all add: close_object [OF cl] put_uv_def put_conn_def)
      show "uv_is_closing L g (wuv (put_uv u (put_conn h c' w))) = uv_is_closing L g (wuv w)"
        if "uv_laws L" "alien w g" for g
        using alien_handle [OF c that(2)] close_open [OF that(1) _ cl] close_closing [OF that(1) _ cl]
        by (cases "uv_is_closing L (tc_handle c) (wuv w)") (auto simp: put_uv_def)
    qed (simp_all add: put_uv_def put_conn_def)
    then have "R w (put_uv u (put_conn h c' w))"
      using close_calls [OF cl] by (intro R_own) (simp add: own_step_def put_uv_def put_conn_def)
    then show ?thesis using R_trans R_run_done [OF run] by blast
  qed
qed

lemma R_message: "TcpServer_on_message app h buf w = Some w' \<Longrightarrow> R w w'"
  by (auto simp: TcpServer_on_message_def Let_def split: Option.bind_splits if_splits
      intro: R_opt R_trans [OF R_opt R_wheel(1)])

lemma R_calls: "run_calls L app h cs w = Some w' \<Longrightarrow> R w w'"
proof (induction cs arbitrary: w)
  case (Cons c cs)
  obtain w1 where w1: "run_calls L app h [c] w = Some w1" "run_calls L app h cs w1 = Some w'"
    using Cons.prems by (auto split: Option.bind_splits)
  have "R w w1"
  proof (cases c)
    case (CallMessage m buf)
    then show ?thesis using w1(1) by (cases m) (auto intro: R_message)
  next
    case (CallConnectClose k name)
    then show ?thesis using w1(1) by (cases k) (auto intro: R_close)
  next
    case (CallCloseComplete k name)
    then show ?thesis using w1(1) by (cases k) (auto intro: R_done)
  qed (use w1(1) in \<open>auto intro: R_app R_log\<close>)
  then show ?case using R_trans Cons.IH [OF w1(2)] by blast
qed (simp add: R_refl)


lemma R_accept_calls:
  assumes "\<And>w w'. TcpServer_on_accept L A app x w = Some w' \<Longrightarrow> R w w'"
    and "\<And>n g. CallNewConnection n g \<in> set cs \<Longrightarrow> g = x"
  shows "accept_calls L A app cs w = Some w' \<Longrightarrow> R w w'"
  using assms(2)
proof (induction cs arbitrary: w)
  case (Cons c cs)
  obtain w1 where w1: "accept_calls L A app [c] w = Some w1" "accept_calls L A app cs w1 = Some w'"
    using Cons.prems(1) by (auto split: Option.bind_splits)
  have "R w w1"
  proof (cases c)
    case (CallNewConnection n g)
    then show ?thesis
      using w1(1) Cons.prems(2) [of n g] assms(1) [of w w1]
      by (cases n) (auto split: Option.bind_splits)
  qed (use w1(1) in \<open>auto intro: R_refl R_log\<close>)
  then show ?case using R_trans Cons.IH [OF w1(2)] Cons.prems(2) by (meson list.set_intros(2))
qed (simp add: R_refl)

lemma R_accept:
  assumes "TcpServer_on_accept L A app x w = Some w'" and X: "X = Some x"
  shows "R w w'"
proof -
  obtain key where key: "SocketAddr_addr_to_str A (uv_getpeername L x (wuv w)) (sw_ipv w) = Some key"
    using assms(1) by (cases "SocketAddr_addr_to_str A (uv_getpeername L x (wuv w)) (sw_ipv w)")
      (simp_all add: TcpServer_on_accept_def)
  obtain c0 :: srv_connection and u where new: "TcpConnection_new L (sw_mode w) key x True (wuv w) = (c0, u)"
    by fastforce
  define c where "c = TcpConnection_set_connect_close_callback (Some SrvCloseConnection)
    (TcpConnection_set_message_callback (Some SrvMessage) c0)"
  define w2 where "w2 = TcpServer_add_connection key x
    (put_uv u (put_conn x c (put_log Debug (''new connect  '' @ key) w)))"
  define y where "y = io_next (sw_io w2)"
  define wx where "wx = w2\<lparr>sw_io := (sw_io w2)\<lparr>io_next := Suc y\<rparr>, sw_wrappers := (sw_wrappers w2)(y \<mapsto> x)\<rparr>"
  define wc where "wc = put_conn x (TcpConnection_set_wrapper (Some y) c) wx"
  define step where "step = (if TimerWheel_get_timeout (sw_wheel w2) > 0
    then do { wheel \<leftarrow> TimerWheel_insert (Some y) (sw_wheel wc); Some (wc\<lparr>sw_wheel := wheel\<rparr>) }
    else Some w2)"
  have "TcpServer_on_accept L A app x w = do {
      w3 \<leftarrow> step; w4 \<leftarrow> app_opt app (sw_onNewConnectCallback w3) (\<lambda>a. AppNewConnect a x) w3; Some (release x w4) }"
    using key unfolding TcpServer_on_accept_def Let_def put_log_sel
    by (simp add: new c_def [symmetric] w2_def [symmetric] y_def [symmetric]
        wx_def [symmetric] wc_def [symmetric] step_def del: append_Cons)
  then obtain w3 w4 where w3: "step = Some w3"
    and w4: "app_opt app (sw_onNewConnectCallback w3) (\<lambda>a. AppNewConnect a x) w3 = Some w4" "w' = release x w4"
    using assms(1) by (auto split: Option.bind_splits)
  have c: "tc_handle c = x"
    using new_connection [OF new]
    by (simp add: c_def TcpConnection_set_connect_close_callback_def TcpConnection_set_message_callback_def)
  have w2: "sw_conns w2 = (sw_conns w)(x \<mapsto> c)" "sw_released w2 = sw_released w" "sw_app w2 = sw_app w"
    "sw_onMessageCallback w2 = sw_onMessageCallback w" "io_next (sw_io w2) = io_next (sw_io w)" "io_shutdowns (sw_io w2) = io_shutdowns (sw_io w)" "wuv w2 = u"
    by (simp_all add: w2_def TcpServer_add_connection_def put_uv_def put_conn_def put_log_def)
  have "moves L X w w2"
    using X c new_connection [OF new] by (auto simp: moves_def taken_def alien_def shuts_def w2 uv_simps)
  then have "R w w2"
    using new_connection [OF new] by (intro R_own) (simp add: own_step_def w2 calls_by_do)
  moreover have "R w2 w3"
  proof (cases "TimerWheel_get_timeout (sw_wheel w2) > 0")
    case True
    then obtain wh where wh: "w3 = wc\<lparr>sw_wheel := wh\<rparr>"
      using w3 by (auto simp: step_def split: Option.bind_splits)
    have "sw_conns w2 x = Some c" by (simp add: w2(1))
    then have "no_new w2 wc"
      by (rule no_new_conn) (simp_all add: wc_def wx_def put_conn_def TcpConnection_set_wrapper_def)
    then have "moves L X w2 wc"
      by (rule moves_same) (simp_all add: wc_def wx_def put_conn_def y_def)
    then have "R w2 wc" by (intro R_own own_same) (simp_all add: wc_def wx_def put_conn_def)
    then show ?thesis using R_trans R_wheel(1) wh by blast
  next
    case False
    then show ?thesis using w3 by (simp add: step_def R_refl)
  qed
  ultimately show ?thesis
    using R_trans [OF _ R_trans [OF R_opt [OF w4(1)] R_release]] R_trans w4(2) by blast
qed

lemma R_drop: "drop_wrappers L app xs w = Some w' \<Longrightarrow> R w w'"
proof (induction xs arbitrary: w)
  case (Cons x xs)
  then obtain h w1 where "run_calls L app h (ConnectionWrapper_destroy (sw_conns w h))
      (w\<lparr>sw_wrappers := (sw_wrappers w)(x := None)\<rparr>) = Some w1" "drop_wrappers L app xs w1 = Some w'"
    by (auto split: Option.bind_splits)
  then show ?case using R_trans [OF R_wheel(2) R_trans [OF R_calls Cons.IH]] by blast
qed (simp add: R_refl)

lemma R_close_all: "close_all L app xs w = Some w' \<Longrightarrow> R w w'"
proof (induction xs arbitrary: w)
  case (Cons p xs)
  obtain n h where "p = (n, h)" by fastforce
  then obtain c w1 where "run_calls L app h (TcpConnection_on_socket_close c) w = Some w1"
    "close_all L app xs w1 = Some w'"
    using Cons.prems by (auto split: Option.bind_splits if_splits)
  then show ?case using R_trans [OF R_calls Cons.IH] by blast
qed (simp add: R_refl)

lemma R_receive:
  assumes c: "sw_conns w h = Some c"
    and r: "TcpConnection_on_mesage_receive L nread buf c (sw_io w) = ((c', io), cs)"
  shows "R w (put_conn h c' w\<lparr>sw_io := io\<rparr>)"
proof -
  let ?w = "put_conn h c' w\<lparr>sw_io := io\<rparr>"
  note rio = receive_io [OF r]
  have nn: "no_new w ?w" using rio by (intro no_new_conn [OF c]) (simp_all add: put_conn_def)
  have "moves L X w ?w"
  proof (rule movesI [OF nn])
    show "distinct (map fst (io_shutdowns (sw_io ?w)))" if "taken w"
      using that rio by (force simp: put_conn_def taken_def)
    show "q < io_next (sw_io ?w) \<and> g < io_next (sw_io ?w)"
      if t: "taken w" and q: "(q, g) \<in> set (io_shutdowns (sw_io ?w))" for q g
    proof -
      have "tc_handle c < io_next (sw_io w)" using t c by (simp add: taken_def)
      then show ?thesis using t q rio by (force simp: put_conn_def taken_def)
    qed
    show "shuts g ?w = shuts g w" if "alien w g" for g
      using rio alien_handle [OF c that] by (auto simp: shuts_def put_conn_def)
  qed (use rio in \<open>simp_all add: put_conn_def\<close>)
  then show ?thesis using receive_calls [OF r] by (intro R_own) (simp add: own_step_def put_conn_def)
qed

lemma R_shutdown:
  assumes r: "map_of (io_shutdowns (sw_io w)) r = Some h" and c: "sw_conns w h = Some c"
  shows "R w (w\<lparr>sw_io := (sw_io w)\<lparr>io_shutdowns := AList.delete r (io_shutdowns (sw_io w))\<rparr>\<rparr>)"
    (is "R w ?w")
proof -
  have "moves L X w ?w"
  proof (rule movesI)
    show "distinct (map fst (io_shutdowns (sw_io ?w)))" if "taken w"
      using that by (simp add: taken_def AList.distinct_delete)
    show "q < io_next (sw_io ?w) \<and> g < io_next (sw_io ?w)"
      if "taken w" "(q, g) \<in> set (io_shutdowns (sw_io ?w))" for q g
      using that by (auto simp: taken_def AList.delete_eq)
    show "shuts g ?w = shuts g w" if t: "taken w" "alien w g" for g
    proof -
      have "(r, g) \<notin> set (io_shutdowns (sw_io w))"
      proof
        assume "(r, g) \<in> set (io_shutdowns (sw_io w))"
        then have "map_of (io_shutdowns (sw_io w)) r = Some g" using t(1) by (simp add: taken_def)
        then show False using r alien_handle [OF c t(2)] by simp
      qed
      then show ?thesis by (auto simp: shuts_def AList.delete_eq filter_filter intro!: filter_cong)
    qed
  qed (simp_all add: no_new_same)
  then show ?thesis by (intro R_own own_same) simp_all
qed

text \<open>An event that accepts no client.\<close>

lemma R_event:
  assumes "TcpServer_event L A app e w = Some w'" "\<And>status client. e \<noteq> Accepted status client"
  shows "R w w'"
proof (cases e)
  case (Received h nread buf)
  then obtain c c' io and cs where c: "sw_conns w h = Some c"
      "TcpConnection_on_mesage_receive L nread buf c (sw_io w) = ((c', io), cs)"
    and run: "run_calls L app h cs (put_conn h c' w\<lparr>sw_io := io\<rparr>) = Some w'"
    using assms(1) by (auto simp: TcpServer_event_def split: Option.bind_splits prod.splits)
  show ?thesis by (rule R_trans [OF R_receive [OF c] R_calls [OF run]])
next
  case (ShutdownDone r)
  then obtain h c cs where h: "map_of (io_shutdowns (sw_io w)) r = Some h" "sw_conns w h = Some c"
    and run: "run_calls L app h cs (w\<lparr>sw_io := (sw_io w)
      \<lparr>io_shutdowns := AList.delete r (io_shutdowns (sw_io w))\<rparr>\<rparr>) = Some w'"
    using assms(1) by (auto simp: TcpServer_event_def shutdown_done_def split: Option.bind_splits)
  show ?thesis by (rule R_trans [OF R_shutdown [OF h] R_calls [OF run]])
next
  case (WriteCompleted r status)
  then obtain io and cs where d: "write_done r status (sw_io w) = Some (io, cs)"
    and run: "run_calls L app 0 cs (w\<lparr>sw_io := io\<rparr>) = Some w'"
    using assms(1) by (auto simp: TcpServer_event_def split: Option.bind_splits)
  have "R w (w\<lparr>sw_io := io\<rparr>)"
    using d by (intro R_own own_same moves_same no_new_same) (auto simp: write_done_def split: Option.bind_splits)
  then show ?thesis using R_trans R_calls [OF run] by blast
next
  case WheelTurn
  then show ?thesis
    using assms(1) by (auto simp: TcpServer_event_def wheel_turn_def split: Option.bind_splits
        intro: R_trans [OF R_wheel(1) R_drop])
next
  case AcceptorClosed
  then show ?thesis
    using assms(1) by (auto simp: TcpServer_event_def server_closed_def R_refl split: Option.bind_splits list.splits
        intro: R_trans [OF R_close_all R_app])
qed (use assms in \<open>auto simp: TcpServer_event_def split: Option.bind_splits intro: R_calls\<close>)

text \<open>A client is accepted, from the world in which its address is taken.\<close>

lemma R_accepted:
  assumes "TcpServer_event L A app (Accepted status x) w = Some w'" and X: "X = Some x"
  shows "R (w\<lparr>sw_io := (sw_io w)\<lparr>io_next := max (io_next (sw_io w)) (Suc x)\<rparr>\<rparr>) w'"
proof -
  let ?w = "w\<lparr>sw_io := (sw_io w)\<lparr>io_next := max (io_next (sw_io w)) (Suc x)\<rparr>\<rparr>"
  obtain acc :: "(srv_accept, 'a) tcp_acceptor" and cs u where
    on: "TcpAcceptor_on_connection L status x acc (wuv w) = (cs, u)"
    and calls: "accept_calls L A app cs (put_uv u ?w) = Some w'"
    using assms(1) by (auto simp: TcpServer_event_def Let_def split: Option.bind_splits prod.splits)
  have "g = x" if "CallNewConnection n g \<in> set cs" for n g
    using on that
    by (auto simp: TcpAcceptor_on_connection_def TcpAcceptor_on_new_connect_def calls_of_def Let_def
        split: if_splits option.splits prod.splits)
  then have "R (put_uv u ?w) w'" by (intro R_accept_calls [OF R_accept [OF _ X] _ calls])
  moreover have "R ?w (put_uv u ?w)"
  proof -
    have "moves L X ?w (put_uv u ?w)"
    proof (rule moves_same)
      fix g assume laws: "uv_laws L" and g: "X \<noteq> Some g"
      show "uv_is_closing L g (wuv (put_uv u ?w)) = uv_is_closing L g (wuv ?w)"
        using laws on by (rule on_connection_cases) (use X g in \<open>auto simp: put_uv_def\<close>)
    qed (simp_all add: no_new_same put_uv_def)
    then show ?thesis using on_connection_calls [OF on] by (intro R_own) (simp add: own_step_def put_uv_def)
  qed
  ultimately show ?thesis using R_trans by blast
qed

end

end
