(* ===== verification/Tcp_Client_Moves.thy ===== *)
theory Tcp_Client_Moves
  imports Tcp_Client_Props Tcp_Server_Moves
begin

text \<open>
  What an event of a TCP client leaves alone, for an owner of several clients that share libuv and its
  requests: the handles that are not the client's, the addresses that are taken, and the status
  callbacks of others.
\<close>

section \<open>The events of an agent\<close>

text \<open>What an event of a client changes: no handle but its own, which is only read and shut down when there
  is a connection, and it calls no status callback but its own.\<close>

definition client_ok :: "('s, 'n, 'x, 'u, 'w) client_state \<Rightarrow> bool" where
  "client_ok s \<longleftrightarrow> distinct (map fst (io_shutdowns (ci_io (snd s)))) \<and>
     (\<forall>(r, h) \<in> set (io_shutdowns (ci_io (snd s))). r < io_next (ci_io (snd s)) \<and> h < io_next (ci_io (snd s))) \<and>
     (\<forall>h \<in> set (ci_reading (snd s)) \<union> set (client_handles (fst s)). h < io_next (ci_io (snd s)))"

definition client_moves :: "'u libuv \<Rightarrow> ('s, 'n, 'x, 'u, 'w) client_state \<Rightarrow> ('s, 'n, 'x, 'u, 'w) client_state \<Rightarrow> bool" where
  "client_moves L s s' \<longleftrightarrow> cl_connectCallback (fst s') = cl_connectCallback (fst s) \<and>
     cl_socket (fst s') = cl_socket (fst s) \<and> cl_onMessageCallback (fst s') = cl_onMessageCallback (fst s) \<and>
     (cl_connection (fst s) \<noteq> None \<longrightarrow> cl_connection (fst s') \<noteq> None) \<and>
     set (client_handles (fst s')) \<subseteq> set (client_handles (fst s)) \<and>
     io_next (ci_io (snd s)) \<le> io_next (ci_io (snd s')) \<and>
     (\<forall>g. g \<notin> set (client_handles (fst s)) \<longrightarrow>
        uv_is_closing L g (cuv (snd s')) = uv_is_closing L g (cuv (snd s))) \<and>
     (\<forall>g \<in> set (ci_reading (snd s')). g \<in> set (ci_reading (snd s)) \<or>
        g \<in> set (client_handles (fst s)) \<and> cl_connection (fst s') \<noteq> None) \<and>
     (\<forall>g \<in> snd ` set (io_shutdowns (ci_io (snd s'))). g \<in> snd ` set (io_shutdowns (ci_io (snd s))) \<or>
        g \<in> set (client_handles (fst s)) \<and> cl_connection (fst s') \<noteq> None) \<and>
     calls_by L silent (cuv (snd s)) (cuv (snd s')) \<and> (client_ok s \<longrightarrow> client_ok s')"

definition own_status :: "'s option \<Rightarrow> ('s, 'n, 'x, 'w) client_call list \<Rightarrow> bool" where
  "own_status cb cs \<longleftrightarrow> (\<forall>s status. CallStatus s status \<in> set cs \<longrightarrow> cb = Some s)"

lemma client_moves_refl [simp]: "client_moves L s s"
  by (simp add: client_moves_def)

lemma own_trans:
  "\<forall>g \<in> B. g \<in> A \<or> g \<in> H \<and> C \<Longrightarrow> \<forall>g \<in> D. g \<in> B \<or> g \<in> K \<and> E \<Longrightarrow> K \<subseteq> H \<Longrightarrow> (C \<Longrightarrow> E) \<Longrightarrow>
   \<forall>g \<in> D. g \<in> A \<or> g \<in> H \<and> E"
  by blast

lemma client_movesD:
  assumes "client_moves L s s'"
  shows "cl_connectCallback (fst s') = cl_connectCallback (fst s)" "cl_socket (fst s') = cl_socket (fst s)"
    and "cl_connection (fst s) \<noteq> None \<Longrightarrow> cl_connection (fst s') \<noteq> None"
    and "set (client_handles (fst s')) \<subseteq> set (client_handles (fst s))"
    and "io_next (ci_io (snd s)) \<le> io_next (ci_io (snd s'))"
    and "g \<notin> set (client_handles (fst s)) \<Longrightarrow> uv_is_closing L g (cuv (snd s')) = uv_is_closing L g (cuv (snd s))"
    and "\<forall>g \<in> set (ci_reading (snd s')). g \<in> set (ci_reading (snd s)) \<or>
        g \<in> set (client_handles (fst s)) \<and> cl_connection (fst s') \<noteq> None"
    and "\<forall>g \<in> snd ` set (io_shutdowns (ci_io (snd s'))). g \<in> snd ` set (io_shutdowns (ci_io (snd s))) \<or>
        g \<in> set (client_handles (fst s)) \<and> cl_connection (fst s') \<noteq> None"
    and "calls_by L silent (cuv (snd s)) (cuv (snd s'))"
    and "client_ok s \<Longrightarrow> client_ok s'" "cl_onMessageCallback (fst s') = cl_onMessageCallback (fst s)"
  using assms unfolding client_moves_def by - (elim conjE, assumption | simp)+

lemma client_moves_trans:
  assumes "client_moves L s s1" "client_moves L s1 s2" shows "client_moves L s s2"
proof -
  note m1 = client_movesD [OF assms(1)] and m2 = client_movesD [OF assms(2)]
  have "uv_is_closing L g (cuv (snd s2)) = uv_is_closing L g (cuv (snd s))"
    if "g \<notin> set (client_handles (fst s))" for g
    using m1(4,6) m2(6) [of g] that by auto
  moreover have "io_next (ci_io (snd s)) \<le> io_next (ci_io (snd s2))" using m1(5) m2(5) by linarith
  moreover have "set (client_handles (fst s2)) \<subseteq> set (client_handles (fst s))" using m1(4) m2(4) by blast
  ultimately show ?thesis
    unfolding client_moves_def m2(1,2,11) m1(1,2,11)
    using own_trans [OF m1(7) m2(7) m1(4) m2(3)] own_trans [OF m1(8) m2(8) m1(4) m2(3)]
      calls_by_trans [OF m1(9) m2(9)] m1(3,10) m2(3,10) by (intro conjI) simp_all
qed

lemma own_status_simps [simp]:
  "own_status cb []" "own_status cb (a @ b) \<longleftrightarrow> own_status cb a \<and> own_status cb b"
  "own_status cb (x # b) \<longleftrightarrow> (case x of CallStatus s status \<Rightarrow> cb = Some s | _ \<Rightarrow> True) \<and> own_status cb b"
  by (auto simp: own_status_def split: client_call.splits)

lemma own_status_maps [simp]:
  "own_status cb (map (CallNewMessage f) ds)" "own_status cb (map CallClosed ks)"
  "own_status cb (map (\<lambda>f. CallNewMessage f buf) fs)" "own_status cb (map (\<lambda>f. CallAfterWrite f i) gs)"
  by (auto simp: own_status_def)

lemma own_status_run [simp]: "own_status (cl_connectCallback cl) (TcpClient_run_connect_callback status cl)"
  by (cases "cl_connectCallback cl") (simp_all add: TcpClient_run_connect_callback_def)

lemma own_status_call: "own_status (cl_connectCallback cl) (client_call_of cl c)"
  by (cases "(cl, c)" rule: client_call_of.cases)
    (simp_all add: TcpClient_on_message_def TcpClient_on_close_def)

lemma own_status_calls: "own_status (cl_connectCallback cl) (concat (map (client_call_of cl) cs))"
  by (induction cs) (simp_all add: own_status_call)

lemma close_connection_moves:
  fixes s :: "('s, 'n, 'x, 'u, 'w) client_state"
  assumes laws: "uv_laws L" and c: "cl_connection (fst s) = Some c" and r: "close_connection L k c s = (s', cs)"
  shows "client_moves L s s' \<and> own_status (cl_connectCallback (fst s)) cs"
proof -
  obtain cl io where s: "s = (cl, io)" by fastforce
  obtain c' u and ds :: "(client_message, client_close, 'x client_done, 'w) conn_call list"
    where cl: "TcpConnection_close L (Some k) (c, cuv io) = ((c', u), ds)" by (metis surj_pair)
  have s': "s' = (cl\<lparr>cl_connection := Some c'\<rparr>, with_uv u io)"
    "cs = concat (map (client_call_of (cl\<lparr>cl_connection := Some c'\<rparr>)) ds)"
    using r cl s by (auto simp: close_connection_def Let_def)
  have "uv_is_closing L g u = uv_is_closing L g (cuv io)" if "g \<noteq> tc_handle c" for g
    using close_open [OF laws _ cl] close_closing [OF laws _ cl] that by blast
  moreover have "tc_handle c' = tc_handle c" by (simp add: close_object [OF cl])
  ultimately show ?thesis
    using c s own_status_calls [of "cl\<lparr>cl_connection := Some c'\<rparr>" ds] close_calls [OF cl]
    by (simp add: client_moves_def client_ok_def s' client_handles_def with_uv_def)
qed

lemma client_calls_moves:
  fixes s :: "('s, 'n, 'x, 'u, 'w) client_state"
  assumes laws: "uv_laws L"
  shows "client_calls L cs s = (s', xs) \<Longrightarrow> client_moves L s s' \<and> own_status (cl_connectCallback (fst s)) xs"
proof (induction cs arbitrary: s s' xs)
  case (Cons c cs)
  obtain s1 a where one: "(case c of CallConnectClose ClientConnectClose name \<Rightarrow> TcpClient_on_connect_close L s
      | _ \<Rightarrow> (s, client_call_of (fst s) c)) = (s1, a)" by fastforce
  obtain s2 b where rest: "client_calls L cs s1 = (s2, b)" by fastforce
  have s': "s' = s2" "xs = a @ b" using Cons.prems one rest by simp_all
  have "client_moves L s s1 \<and> own_status (cl_connectCallback (fst s)) a"
  proof (cases "\<exists>k name. c = CallConnectClose k name")
    case True
    then obtain name where "c = CallConnectClose ClientConnectClose name"
      by (metis client_close.exhaust)
    then have "TcpClient_on_connect_close L s = (s1, a)" using one by simp
    then show ?thesis
      using close_connection_moves [OF laws, of s]
      by (auto simp: TcpClient_on_connect_close_def split: option.splits)
  next
    case False
    then have "s1 = s" "a = client_call_of (fst s) c" using one by (auto split: conn_call.splits)
    then show ?thesis by (simp add: own_status_call)
  qed
  moreover have "client_moves L s1 s2 \<and> own_status (cl_connectCallback (fst s1)) b"
    by (rule Cons.IH [OF rest])
  ultimately show ?case
    using client_moves_trans [of L s s1 s2] s' by (auto simp: client_moves_def)
qed simp

lemma client_receive_moves:
  assumes laws: "uv_laws L" and c: "conn_at h cl = Some c"
    and r: "TcpConnection_on_mesage_receive L nread buf c (ci_io io) = ((c', i), ds)"
  shows "client_moves L (cl, io) (cl\<lparr>cl_connection := Some c'\<rparr>, io\<lparr>ci_io := i\<rparr>)"
proof -
  have h: "cl_connection cl = Some c" "tc_handle c = h" using c by (simp_all add: conn_at_iff)
  note rio = receive_io [OF r]
  then have h': "tc_handle c' = h" "io_next (ci_io io) \<le> io_next i"
    "\<And>g. uv_is_closing L g (io_uv i) = uv_is_closing L g (cuv io)" using laws h by auto
  have hs: "client_handles (cl\<lparr>cl_connection := Some c'\<rparr>) = client_handles cl" "h \<in> set (client_handles cl)"
    using h h' by (simp_all add: client_handles_def)
  have shut: "\<forall>g \<in> snd ` set (io_shutdowns i). g \<in> snd ` set (io_shutdowns (ci_io io)) \<or>
      g \<in> set (client_handles cl)"
    using rio h hs(2) by auto
  have "client_ok (cl\<lparr>cl_connection := Some c'\<rparr>, io\<lparr>ci_io := i\<rparr>)" if ok: "client_ok (cl, io)"
  proof -
    have lt: "h < io_next (ci_io io)" using ok hs(2) by (simp add: client_ok_def)
    have old: "q < io_next (ci_io io) \<and> g < io_next (ci_io io)" if "(q, g) \<in> set (io_shutdowns (ci_io io))" for q g
      using ok that by (auto simp: client_ok_def)
    have "io_next (ci_io io) \<notin> fst ` set (io_shutdowns (ci_io io))"
    proof
      assume "io_next (ci_io io) \<in> fst ` set (io_shutdowns (ci_io io))"
      then obtain g where "(io_next (ci_io io), g) \<in> set (io_shutdowns (ci_io io))" by auto
      from old [OF this] show False by simp
    qed
    moreover have "distinct (map fst (io_shutdowns (ci_io io)))" using ok by (simp add: client_ok_def)
    moreover have "io_shutdowns i = io_shutdowns (ci_io io) \<or>
        io_shutdowns i = (io_next (ci_io io), tc_handle c) # io_shutdowns (ci_io io)" using rio by blast
    ultimately have "distinct (map fst (io_shutdowns i))" by (elim disjE) simp_all
    moreover have "q < io_next i \<and> g < io_next i" if "(q, g) \<in> set (io_shutdowns i)" for q g
      using that rio old [of q g] lt h by auto
    moreover have "g < io_next i" if "g \<in> set (ci_reading io) \<union> set (client_handles cl)" for g
    proof -
      have "g < io_next (ci_io io)" using that ok by (auto simp: client_ok_def)
      then show ?thesis using h'(2) by simp
    qed
    ultimately show ?thesis using hs by (auto simp: client_ok_def)
  qed
  then show ?thesis using h' hs shut receive_calls [OF r] by (simp add: client_moves_def)
qed

lemma client_event_moves:
  fixes s :: "('s, 'n, 'x, 'u, 'w) client_state"
  assumes laws: "uv_laws L" and ev: "TcpClient_event L A mode e s = Some (s', cs)"
  shows "client_moves L s s' \<and> own_status (cl_connectCallback (fst s)) cs"
proof -
  obtain cl io where s: "s = (cl, io)" by fastforce
  have after: "client_moves L s s' \<and> own_status (cl_connectCallback (fst s)) cs"
    if "client_calls L ds s1 = (s', cs)" "client_moves L s s1" for ds s1
    using client_calls_moves [OF laws that(1)] client_moves_trans [OF that(2), of s'] that(2)
    by (simp add: client_moves_def)
  show ?thesis
  proof (cases e)
    case (ConnectDone r status)
    let ?io = "io\<lparr>ci_connects := AList.delete r (ci_connects io)\<rparr>"
    have on: "TcpClient_on_connect L A mode (status = 0) (cl, ?io) = Some (s', cs)"
      using ev ConnectDone s by (simp add: TcpClient_event_def)
    then obtain h where h: "cl_socket cl = Some h"
      by (auto simp: TcpClient_on_connect_def split: if_splits Option.bind_splits)
    show ?thesis
    proof (cases "status = 0")
      case True
      obtain name where name: "SocketAddr_addr_to_str A (uv_getpeername L h (cuv io)) (cl_ipv cl) = Some name"
        using on True h by (cases "SocketAddr_addr_to_str A (uv_getpeername L h (cuv io)) (cl_ipv cl)")
          (simp_all add: TcpClient_on_connect_def)
      obtain c0 :: "'x client_connection" and u where new: "TcpConnection_new L mode name h True (cuv io) = (c0, u)"
        by fastforce
      define c where "c = TcpConnection_set_connect_close_callback (Some ClientConnectClose)
        (TcpConnection_set_message_callback (Some ClientMessage) c0)"
      have "tc_handle c = h"
        using new_connection [OF new]
        by (simp add: c_def TcpConnection_set_connect_close_callback_def TcpConnection_set_message_callback_def)
      moreover have "(cl\<lparr>cl_connection := Some c0\<rparr>)\<lparr>cl_connection := Some c\<rparr> = cl\<lparr>cl_connection := Some c\<rparr>" by simp
      then have "s' = (cl\<lparr>cl_connection := Some c\<rparr>, (with_uv u ?io)\<lparr>ci_reading := h # ci_reading ?io\<rparr>)"
        "cs = TcpClient_run_connect_callback ConnectSuccess (cl\<lparr>cl_connection := Some c\<rparr>)"
        using on True h name new
        by (auto simp: TcpClient_on_connect_def settle_def Let_def c_def [symmetric] split: if_splits)
      ultimately show ?thesis
        using laws h s new_connection [OF new] own_status_run [of "cl\<lparr>cl_connection := Some c\<rparr>"]
        by (auto simp: client_moves_def client_ok_def client_handles_def uv_simps with_uv_def calls_by_do)
    next
      case False
      then show ?thesis
        using laws on h s
        by (auto simp: TcpClient_on_connect_def client_moves_def client_ok_def client_handles_def uv_simps Let_def with_uv_def
            split: if_splits intro!: calls_by_step)
    qed
  next
    case (ClientReceived h nread buf)
    then obtain c c' i ds where c: "conn_at h cl = Some c" and
      r: "TcpConnection_on_mesage_receive L nread buf c (ci_io io) = ((c', i), ds)"
        "client_calls L ds (cl\<lparr>cl_connection := Some c'\<rparr>, io\<lparr>ci_io := i\<rparr>) = (s', cs)"
      using ev s by (auto simp: TcpClient_event_def split: Option.bind_splits prod.splits)
    have "client_moves L s (cl\<lparr>cl_connection := Some c'\<rparr>, io\<lparr>ci_io := i\<rparr>)" unfolding s
      by (rule client_receive_moves [OF laws c r(1)])
    from after [OF r(2) this] show ?thesis .
  next
    case (ClientHandleClosed h)
    let ?io = "io\<lparr>ci_open := removeAll h (ci_open io)\<rparr>"
    have m: "client_moves L s (cl, ?io)" by (simp add: client_moves_def client_ok_def s)
    show ?thesis
    proof (cases "conn_at h cl")
      case None
      then show ?thesis
        using ev ClientHandleClosed s m
        by (auto simp: TcpClient_event_def TcpClient_after_connect_fail_def Let_def split: if_splits)
    next
      case (Some c)
      then have "client_calls L (TcpConnection_close_complete c) (cl, ?io) = (s', cs)"
        using ev ClientHandleClosed s by (simp add: TcpClient_event_def Let_def)
      from after [OF this m] show ?thesis .
    qed
  next
    case (ClientShutdownDone r)
    let ?i = "(ci_io io)\<lparr>io_shutdowns := AList.delete r (io_shutdowns (ci_io io))\<rparr>"
    obtain ds where ds: "client_calls L ds (cl, io\<lparr>ci_io := ?i\<rparr>) = (s', cs)"
      using ev ClientShutdownDone s by (fastforce simp: TcpClient_event_def Let_def split: Option.bind_splits)
    have "set (AList.delete r (io_shutdowns (ci_io io))) \<subseteq> set (io_shutdowns (ci_io io))"
      by (auto simp: AList.delete_eq)
    then have "client_moves L s (cl, io\<lparr>ci_io := ?i\<rparr>)"
      by (auto simp: client_moves_def client_ok_def s AList.distinct_delete)
    from after [OF ds this] show ?thesis .
  next
    case (ClientWriteDone r status)
    then obtain ds i where i: "client_calls L ds (cl, io\<lparr>ci_io := i\<rparr>) = (s', cs)"
        "io_next i = io_next (ci_io io)" "io_uv i = cuv io" "io_shutdowns i = io_shutdowns (ci_io io)"
      using ev s by (fastforce simp: TcpClient_event_def write_done_def Let_def split: Option.bind_splits)
    have "client_moves L s (cl, io\<lparr>ci_io := i\<rparr>)" using i by (simp add: client_moves_def client_ok_def s)
    from after [OF i(1) this] show ?thesis .
  qed
qed

end
