(* ===== verification/Tcp_Proxy_Safety.thy ===== *)
theory Tcp_Proxy_Safety
  imports Tcp_Proxy_Props Tcp_Client_Moves Tcp_Server_Props
begin

text \<open>
  The TCP proxy over all events, those of the server's handles and those of the agents. The proxy
  is an application as the server asks for (\<open>app_ok\<close>), for messages it can read; the server's steps
  leave the agents their handles and the connections they refer to (an instance of
  \<open>server_moves\<close>); an agent's event touches no handle but its own.
\<close>

section \<open>The callbacks of the server\<close>

text \<open>The messages the peers send: those whose objects have the kinds the proxy reads them as.\<close>

definition valid_message :: "decoder \<Rightarrow> 32 word \<Rightarrow> 32 word \<Rightarrow> byte list \<Rightarrow> bool" where
  "valid_message dec jc jp buf \<longleftrightarrow> (\<exists>r. TcpProxy_unpack dec jc jp buf = Some (Some r))"

text \<open>Connecting to a real server in full: a new agent at \<open>n\<close>, whose request and handle are at the next two
  addresses.\<close>

definition new_agent :: "'u libuv \<Rightarrow> ('u, 'w) proxy_world \<Rightarrow> hid \<Rightarrow> byte list \<Rightarrow> tcp_agent \<Rightarrow> ('u, 'w) client_io \<Rightarrow>
    bool" where
  "new_agent L w client m a io \<longleftrightarrow> (let n = io_next (sw_io w); h = n + 2 in
     cl_connect (ag_client a) = Suc n \<and> cl_socket (ag_client a) = Some h \<and> cl_connection (ag_client a) = None \<and>
     cl_onMessageCallback (ag_client a) = None \<and> cl_connectCallback (ag_client a) = Some (AgentStatus n client m) \<and>
     ci_open io = h # tp_open (sw_app w) \<and> ci_reading io = tp_reading (sw_app w) \<and>
     (ci_connects io = tp_connects (sw_app w) \<or> ci_connects io = (Suc n, h) # tp_connects (sw_app w)) \<and>
     io_shutdowns (ci_io io) = io_shutdowns (sw_io w) \<and> io_next (ci_io io) = Suc h \<and>
     (\<exists>r sa. cuv io = uv_do L (UvTcpConnect r h sa) (uv_do L (UvTcpNodelay h) (uv_do L (UvTcpInit h) (wuv w)))))"

lemma connect_real_server:
  assumes c: "held client w = Some c"
  shows "\<exists>a io. TcpProxy_connect_real_server L A client ip port m w = Some (put_agent (io_next (sw_io w)) a io w) \<and>
    new_agent L w client m a io"
proof -
  define n where "n = io_next (sw_io w)"
  define addr where "addr = SocketAddr_of_ip A ip (of_int port) Ipv4"
  define a where "a = TcpAgent_new A (c_str (tc_name c)) ip port (Suc n)"
  define cl where "cl = TcpClient_set_connect_status_callback (Some (AgentStatus n client m)) (ag_client a)"
  define w0 where "w0 = w\<lparr>sw_io := (sw_io w)\<lparr>io_next := n + 2\<rparr>\<rparr>"
  have cl: "cl_socket cl = None" "cl_connection cl = None" "cl_tcpNoDelay cl"
    "cl_connectCallback cl = Some (AgentStatus n client m)" "cl_connect cl = Suc n"
    "cl_onMessageCallback cl = None"
    by (simp_all add: cl_def a_def TcpClient_set_connect_status_callback_def TcpAgent_new_def TcpClient_new_def)
  have sa: "SocketAddr_addr addr = Some (uv_ip4_addr A (c_str ip) (of_int port))"
    by (simp add: addr_def SocketAddr_addr_def SocketAddr_of_ip_def)
  obtain io rst where con: "TcpClient_connect L addr (cl, agent_io w0) =
      Some (cl\<lparr>cl_socket := Some (n + 2), cl_ipv := SocketAddr_ipv addr\<rparr>, io)"
    and uv: "uv L (UvTcpConnect (cl_connect cl) (n + 2) (uv_ip4_addr A (c_str ip) (of_int port)))
        (uv_do L (UvTcpNodelay (n + 2)) (uv_do L (UvTcpInit (n + 2)) (wuv w))) = (rst, cuv io)"
    and io: "ci_open io = (n + 2) # tp_open (sw_app w)" "ci_reading io = tp_reading (sw_app w)"
      "ci_connects io = tp_connects (sw_app w) \<or> ci_connects io = (Suc n, n + 2) # tp_connects (sw_app w)"
      "io_shutdowns (ci_io io) = io_shutdowns (sw_io w)" "io_next (ci_io io) = Suc (n + 2)"
    using fresh_connect [where L = L and io = "agent_io w0", OF sa cl(1-3)] cl(5)
    by (auto simp: agent_io_def w0_def Let_def split: if_splits)
  define b where "b = a\<lparr>ag_client := cl\<lparr>cl_socket := Some (n + 2), cl_ipv := SocketAddr_ipv addr\<rparr>\<rparr>"
  have "TcpProxy_connect_real_server L A client ip port m w = do {
      (cl, io) \<leftarrow> TcpClient_connect L addr (cl, agent_io w0); Some (put_agent n (a\<lparr>ag_client := cl\<rparr>) io w0) }"
    unfolding TcpProxy_connect_real_server_def c Option.bind_lunit Let_def n_def [symmetric]
      w0_def [symmetric] a_def [symmetric] cl_def [symmetric] addr_def [symmetric] by (rule refl)
  then have "TcpProxy_connect_real_server L A client ip port m w = Some (put_agent n b io w)"
    using con by (simp add: b_def w0_def put_agent_def)
  moreover have "cuv io = uv_do L (UvTcpConnect (cl_connect cl) (n + 2) (uv_ip4_addr A (c_str ip) (of_int port)))
        (uv_do L (UvTcpNodelay (n + 2)) (uv_do L (UvTcpInit (n + 2)) (wuv w)))"
    using uv by (simp add: uv_do_def)
  then have "new_agent L w client m b io"
    using cl io unfolding new_agent_def Let_def n_def [symmetric] b_def by auto
  ultimately show ?thesis unfolding n_def by blast
qed

lemma new_agent_closing:
  "new_agent L w client m a io \<Longrightarrow> uv_laws L \<Longrightarrow>
   uv_is_closing L g (cuv io) \<longleftrightarrow> g \<noteq> io_next (sw_io w) + 2 \<and> uv_is_closing L g (wuv w)"
  by (cases "g = io_next (sw_io w) + 2") (auto simp: new_agent_def Let_def uv_simps)

lemma put_agent_inv:
  assumes inv: "server_inv L w" and nx: "io_next (sw_io w) \<le> io_next (ci_io io)"
    and cl: "\<And>g. sw_conns w g \<noteq> None \<Longrightarrow> uv_is_closing L g (cuv io) = uv_is_closing L g (wuv w)"
  shows "server_inv L (put_agent n a io w) \<and> keeps L w (put_agent n a io w)"
  by (rule server_inv_same [OF inv]) (simp_all add: nx cl, simp_all add: put_agent_def)

text \<open>The proxy is an application as the server asks for it.\<close>

lemma proxy_app_ok:
  fixes L :: "'u libuv"
  assumes "uv_laws L"
  shows "app_ok L (valid_message dec jc jp) (TcpProxy_app L A dec jc jp :: ('u, 'w, proxy_cb, tcp_proxy) app)"
  unfolding app_ok_def
proof (intro allI impI)
  fix x :: "(proxy_cb, 'w) app_call" and w :: "('u, 'w) proxy_world"
  assume inv: "server_inv L w" and ok: "call_ok (valid_message dec jc jp) x w"
  show "\<exists>w'. TcpProxy_app L A dec jc jp x w = Some w' \<and> server_inv L w' \<and> keeps L w w'"
  proof (cases x)
    case (AppMessage cb h data)
    obtain c where c: "held h w = Some c"
      using ok AppMessage by (auto simp: held_def)
    obtain command sip sport message
      where un: "TcpProxy_unpack dec jc jp data = Some (Some (command, sip, sport, message))"
      using ok AppMessage by (auto simp: valid_message_def)
    have app: "TcpProxy_app L A dec jc jp x w = TcpProxy_on_message L A dec jc jp h data w"
      using AppMessage by (cases cb) (simp add: TcpProxy_app_def)
    show ?thesis
    proof (cases "command = 0")
      case True
      obtain a io where con: "TcpProxy_connect_real_server L A h (c_str sip) (sint sport) message w =
          Some (put_agent (io_next (sw_io w)) a io w)"
        and new: "new_agent L w h message a io"
        using connect_real_server [OF c] by blast
      have "io_next (sw_io w) \<le> io_next (ci_io io)" using new by (simp add: new_agent_def Let_def)
      moreover have "uv_is_closing L g (cuv io) = uv_is_closing L g (wuv w)" if "sw_conns w g \<noteq> None" for g
      proof -
        have "g < io_next (sw_io w)" using inv that by (simp add: server_inv_def heap_inv_def)
        then show ?thesis using new_agent_closing [OF new assms] by simp
      qed
      ultimately have "server_inv L (put_agent (io_next (sw_io w)) a io w) \<and>
          keeps L w (put_agent (io_next (sw_io w)) a io w)"
        by (intro put_agent_inv [OF inv])
      then show ?thesis using con un True app by (simp add: TcpProxy_on_message_def)
    next
      case False
      then show ?thesis using un app inv by (simp add: TcpProxy_on_message_def)
    qed
  qed (use inv in \<open>simp_all add: TcpProxy_app_def\<close>)
qed

section \<open>The agents across the events of the server\<close>

text \<open>The handle of the agent at \<open>n\<close> is \<open>n + 2\<close> and the server has nothing of it. It is read and shut down only
  when there is a connection over it, the connection its outcome is for is referred to, and what it
  receives is for nobody.\<close>

definition agent_inv :: "('u, 'w) proxy_world \<Rightarrow> nat \<Rightarrow> tcp_agent \<Rightarrow> bool" where
  "agent_inv w n a \<longleftrightarrow> cl_socket (ag_client a) = Some (n + 2) \<and> cl_onMessageCallback (ag_client a) = None \<and>
     set (client_handles (ag_client a)) \<subseteq> {n + 2} \<and> n + 2 < io_next (sw_io w) \<and> alien w (n + 2) \<and>
     (n + 2 \<in> set (tp_reading (sw_app w)) \<or> shuts (n + 2) w \<noteq> [] \<longrightarrow> cl_connection (ag_client a) \<noteq> None) \<and>
     (\<exists>client m. cl_connectCallback (ag_client a) = Some (AgentStatus n client m) \<and> held client w \<noteq> None)"

definition readings :: "('u, 'w) proxy_world \<Rightarrow> bool" where
  "readings w \<longleftrightarrow> (\<forall>h \<in> set (tp_reading (sw_app w)). h < io_next (sw_io w))"

text \<open>What the server's steps leave to the proxy.\<close>

definition proxy_moves :: "'u libuv \<Rightarrow> hid option \<Rightarrow> ('u, 'w) proxy_world \<Rightarrow> ('u, 'w) proxy_world \<Rightarrow> bool" where
  "proxy_moves L X w w' \<longleftrightarrow> calls_by L silent (wuv w) (wuv w') \<and> io_next (sw_io w) \<le> io_next (sw_io w') \<and>
     tp_reading (sw_app w') = tp_reading (sw_app w) \<and> (\<forall>h. held h w \<noteq> None \<longrightarrow> held h w' \<noteq> None) \<and>
     (uv_laws L \<longrightarrow> taken w \<longrightarrow> readings w \<longrightarrow> (\<forall>x. X = Some x \<longrightarrow> x < io_next (sw_io w)) \<longrightarrow> taken w' \<and>
        (\<forall>g. X \<noteq> Some g \<longrightarrow> alien w g \<longrightarrow> alien w' g \<and> shuts g w' = shuts g w) \<and>
        (\<forall>n a. tp_agents (sw_app w') n = Some a \<longrightarrow> tp_agents (sw_app w) n = Some a \<or>
           io_next (sw_io w) \<le> n \<and> agent_inv w' n a))"

lemma held_None: "held h w = None \<longleftrightarrow> sw_conns w h = None \<and> sw_released w h = None"
  by (simp add: held_def split: option.split)

lemma agent_inv_frame:
  assumes "agent_inv w n a" "io_next (sw_io w) \<le> io_next (sw_io w')" "alien w' (n + 2)"
    and "n + 2 \<in> set (tp_reading (sw_app w')) \<Longrightarrow> n + 2 \<in> set (tp_reading (sw_app w))"
    and "shuts (n + 2) w' \<noteq> [] \<Longrightarrow> shuts (n + 2) w \<noteq> []" and "\<And>h. held h w \<noteq> None \<Longrightarrow> held h w' \<noteq> None"
  shows "agent_inv w' n a"
  using assms unfolding agent_inv_def by (meson order.strict_trans2)

lemma proxy_moves_agent:
  assumes "agent_inv w n a" "proxy_moves L X w w'" "X \<noteq> Some (n + 2)"
    and "uv_laws L" "taken w" "readings w" "\<forall>x. X = Some x \<longrightarrow> x < io_next (sw_io w)"
  shows "agent_inv w' n a"
proof (rule agent_inv_frame [OF assms(1)])
  have "alien w (n + 2)" using assms(1) by (simp add: agent_inv_def)
  then have "alien w' (n + 2) \<and> shuts (n + 2) w' = shuts (n + 2) w"
    using assms(2-) unfolding proxy_moves_def by blast
  then show "alien w' (n + 2)" "shuts (n + 2) w' \<noteq> [] \<Longrightarrow> shuts (n + 2) w \<noteq> []" by simp_all
qed (use assms(2) in \<open>auto simp: proxy_moves_def\<close>)

lemma readings_after: "proxy_moves L X w w' \<Longrightarrow> readings w \<Longrightarrow> readings w'"
  unfolding proxy_moves_def readings_def by (auto intro: order.strict_trans2)

lemma proxy_moves_trans:
  assumes "proxy_moves L X w w1" "proxy_moves L X w1 w2" shows "proxy_moves L X w w2"
proof -
  have n: "io_next (sw_io w) \<le> io_next (sw_io w1)" "io_next (sw_io w1) \<le> io_next (sw_io w2)"
    using assms by (simp_all add: proxy_moves_def)
  have base: "tp_reading (sw_app w2) = tp_reading (sw_app w)" "\<forall>h. held h w \<noteq> None \<longrightarrow> held h w2 \<noteq> None"
    using assms unfolding proxy_moves_def by auto
  have more: "taken w2 \<and> (\<forall>g. X \<noteq> Some g \<longrightarrow> alien w g \<longrightarrow> alien w2 g \<and> shuts g w2 = shuts g w) \<and>
      (\<forall>n a. tp_agents (sw_app w2) n = Some a \<longrightarrow> tp_agents (sw_app w) n = Some a \<or>
         io_next (sw_io w) \<le> n \<and> agent_inv w2 n a)"
    if a: "uv_laws L" "taken w" "readings w" "\<forall>x. X = Some x \<longrightarrow> x < io_next (sw_io w)"
  proof -
    have 1: "taken w1" "\<forall>g. X \<noteq> Some g \<longrightarrow> alien w g \<longrightarrow> alien w1 g \<and> shuts g w1 = shuts g w"
      "\<And>n b. tp_agents (sw_app w1) n = Some b \<Longrightarrow> tp_agents (sw_app w) n = Some b \<or>
         io_next (sw_io w) \<le> n \<and> agent_inv w1 n b"
      using assms(1) a unfolding proxy_moves_def by blast+
    have r: "readings w1" by (rule readings_after [OF assms(1) a(3)])
    have X: "\<forall>x. X = Some x \<longrightarrow> x < io_next (sw_io w1)" using a(4) n(1) by force
    have 2: "taken w2" "\<forall>g. X \<noteq> Some g \<longrightarrow> alien w1 g \<longrightarrow> alien w2 g \<and> shuts g w2 = shuts g w1"
      "\<And>n b. tp_agents (sw_app w2) n = Some b \<Longrightarrow> tp_agents (sw_app w1) n = Some b \<or>
         io_next (sw_io w1) \<le> n \<and> agent_inv w2 n b"
      using assms(2) a(1) 1(1) r X unfolding proxy_moves_def by blast+
    have "tp_agents (sw_app w) k = Some b \<or> io_next (sw_io w) \<le> k \<and> agent_inv w2 k b"
      if b: "tp_agents (sw_app w2) k = Some b" for k b
    proof (cases "tp_agents (sw_app w1) k = Some b \<and> tp_agents (sw_app w) k \<noteq> Some b")
      case True
      then have k: "io_next (sw_io w) \<le> k" "agent_inv w1 k b" using 1(3) by blast+
      then have "X \<noteq> Some (k + 2)" using a(4) by force
      from proxy_moves_agent [OF k(2) assms(2) this a(1) 1(1) r X] k(1) show ?thesis by blast
    next
      case False
      then show ?thesis using 2(3) [OF b] n(1) order_trans by blast
    qed
    then show ?thesis using 1(2) 2(1,2) by simp
  qed
  moreover have "calls_by L silent (wuv w) (wuv w1)" "calls_by L silent (wuv w1) (wuv w2)"
    using assms by (simp_all add: proxy_moves_def)
  from calls_by_trans [OF this] have "calls_by L silent (wuv w) (wuv w2)" .
  moreover have "io_next (sw_io w) \<le> io_next (sw_io w2)" using n by simp
  ultimately show ?thesis using base unfolding proxy_moves_def by blast
qed

lemma proxy_moves_own:
  assumes "own_step L X w w'" shows "proxy_moves L X w w'"
proof -
  have "\<forall>h. held h w \<noteq> None \<longrightarrow> held h w' \<noteq> None"
    using assms unfolding own_step_def moves_def held_None by blast
  then show ?thesis using assms unfolding own_step_def moves_def proxy_moves_def by simp
qed

lemma proxy_moves_app:
  assumes app: "TcpProxy_app L A dec jc jp x w = Some w'"
  shows "proxy_moves L X w w'"
proof -
  have id: "proxy_moves L X w w" by (intro proxy_moves_own own_same) simp_all
  show ?thesis
  proof (cases x)
    case (AppMessage cb h data)
    then have msg: "TcpProxy_on_message L A dec jc jp h data w = Some w'"
      using app by (cases cb) (simp add: TcpProxy_app_def)
    then obtain command sip sport message where un:
        "TcpProxy_unpack dec jc jp data = Some (Some (command, sip, sport, message))"
      by (auto simp: TcpProxy_on_message_def split: option.splits)
    show ?thesis
    proof (cases "command = 0")
      case True
      then have con: "TcpProxy_connect_real_server L A h (c_str sip) (sint sport) message w = Some w'"
        using msg un by (simp add: TcpProxy_on_message_def)
      then obtain c where c: "held h w = Some c"
        by (auto simp: TcpProxy_connect_real_server_def split: Option.bind_splits)
      define n where "n = io_next (sw_io w)"
      obtain a io where w': "w' = put_agent n a io w" and new: "new_agent L w h message a io"
        using connect_real_server [OF c] con unfolding n_def by (metis option.inject)
      have io: "io_next (sw_io w') = n + 3" "io_shutdowns (sw_io w') = io_shutdowns (sw_io w)"
        "sw_conns w' = sw_conns w" "sw_released w' = sw_released w"
        "tp_reading (sw_app w') = tp_reading (sw_app w)" "tp_agents (sw_app w') = (tp_agents (sw_app w))(n \<mapsto> a)"
        using new by (simp_all add: new_agent_def Let_def w' put_agent_def n_def)
      have held: "held g w' = held g w" for g by (rule held_same) (simp_all add: io)
      have agent: "agent_inv w' n a" if "taken w" "readings w"
      proof -
        have "shuts (n + 2) w = []"
          using that(1) by (auto simp: taken_def shuts_def n_def filter_empty_conv)
        moreover have "alien w (n + 2)" using that(1) unfolding taken_def alien_def n_def by force
        moreover have "n + 2 \<notin> set (tp_reading (sw_app w))" using that(2) by (auto simp: readings_def n_def)
        ultimately show ?thesis
          using new c held [of h]
          by (simp add: agent_inv_def new_agent_def Let_def io client_handles_def alien_def shuts_def
              n_def [symmetric])
      qed
      have t: "taken w'" if "taken w" using that unfolding taken_def io n_def by force
      have alien: "alien w' g \<longleftrightarrow> alien w g" "shuts g w' = shuts g w" for g
        by (simp_all add: alien_def shuts_def io(2-4))
      have "tp_agents (sw_app w) k = Some b \<or> n \<le> k \<and> agent_inv w' k b"
        if "tp_agents (sw_app w') k = Some b" "taken w" "readings w" for k b
        using that agent by (cases "k = n") (simp_all add: io(6))
      moreover have "calls_by L silent (wuv w) (wuv w')"
        using new by (auto simp: new_agent_def Let_def w' intro!: calls_by_step)
      ultimately show ?thesis
        unfolding proxy_moves_def alien held n_def [symmetric] using t by (simp add: io(1,5))
    next
      case False
      then show ?thesis using msg un id by (simp add: TcpProxy_on_message_def)
    qed
  qed (use app id in \<open>simp_all add: TcpProxy_app_def\<close>)
qed

interpretation pm: server_moves L "TcpProxy_app L A dec jc jp" X "proxy_moves L X" for L A dec jc jp X
  by unfold_locales (fact proxy_moves_trans proxy_moves_own proxy_moves_app)+

section \<open>The invariant of the proxy\<close>

definition tcp_proxy_inv :: "'u libuv \<Rightarrow> ('u, 'w) proxy_world \<Rightarrow> bool" where
  "tcp_proxy_inv L w \<longleftrightarrow> server_inv L w \<and> taken w \<and> readings w \<and>
     (\<forall>n a. tp_agents (sw_app w) n = Some a \<longrightarrow> agent_inv w n a)"

text \<open>A client that is accepted has a handle at an address that no object has that is referred to.\<close>

definition own_address :: "hid \<Rightarrow> ('u, 'w) proxy_world \<Rightarrow> bool" where
  "own_address client w \<longleftrightarrow> held client w = None \<and>
     (\<forall>n a. tp_agents (sw_app w) n = Some a \<longrightarrow> client \<notin> set (client_handles (ag_client a)))"

lemma proxy_inv_after:
  assumes laws: "uv_laws L" and inv: "tcp_proxy_inv L w" and inv': "server_inv L w'"
    and m: "proxy_moves L X w w'" and X: "\<forall>x. X = Some x \<longrightarrow> x < io_next (sw_io w)"
    and own: "\<And>n a. tp_agents (sw_app w) n = Some a \<Longrightarrow> X \<noteq> Some (n + 2)"
  shows "tcp_proxy_inv L w'"
proof -
  have w: "taken w" "readings w" "\<And>n a. tp_agents (sw_app w) n = Some a \<Longrightarrow> agent_inv w n a"
    using inv by (simp_all add: tcp_proxy_inv_def)
  have "taken w'" and new: "\<And>n a. tp_agents (sw_app w') n = Some a \<Longrightarrow> tp_agents (sw_app w) n = Some a \<or>
      agent_inv w' n a"
    using m laws w(1,2) X unfolding proxy_moves_def by blast+
  moreover have "agent_inv w' n a" if "tp_agents (sw_app w') n = Some a" for n a
    using new [OF that] proxy_moves_agent [OF w(3) m own laws w(1,2) X] by blast
  ultimately show ?thesis using inv' readings_after [OF m w(2)] by (simp add: tcp_proxy_inv_def)
qed

text \<open>Taking addresses keeps the invariant.\<close>

lemma proxy_inv_grow:
  assumes inv: "tcp_proxy_inv L w" and n: "io_next (sw_io w) \<le> n"
  shows "tcp_proxy_inv L (w\<lparr>sw_io := (sw_io w)\<lparr>io_next := n\<rparr>\<rparr>)" (is "tcp_proxy_inv L ?w")
proof -
  have "server_inv L ?w"
    using inv n server_inv_same [of L w ?w] by (simp add: tcp_proxy_inv_def)
  moreover have "taken ?w"
    by (rule no_new_taken [of w]) (use inv n in \<open>auto simp: tcp_proxy_inv_def no_new_same taken_def\<close>)
  moreover have "readings ?w" using inv n by (auto simp: tcp_proxy_inv_def readings_def)
  moreover have "agent_inv ?w k a" if k: "tp_agents (sw_app w) k = Some a" for k a
  proof -
    have "agent_inv w k a" using inv k by (simp add: tcp_proxy_inv_def)
    moreover have "alien ?w g \<longleftrightarrow> alien w g" "shuts g ?w = shuts g w" for g
      by (simp_all add: alien_def shuts_def)
    moreover have "held g ?w = held g w" for g by (rule held_same) simp_all
    ultimately show ?thesis using n by (simp add: agent_inv_def)
  qed
  ultimately show ?thesis by (simp add: tcp_proxy_inv_def)
qed

text \<open>Every event of the server.\<close>

lemma server_event_good:
  assumes laws: "uv_laws L" and inv: "tcp_proxy_inv L w"
    and del: "deliverable A L (valid_message dec jc jp) e w"
    and own: "\<And>status client. e = Accepted status client \<Longrightarrow> own_address client w"
  shows "\<exists>w'. TcpServer_event L A (TcpProxy_app L A dec jc jp) e w = Some w' \<and> tcp_proxy_inv L w' \<and>
    calls_by L silent (wuv w) (wuv w') \<and>
    (\<forall>h. sw_conns w h \<noteq> None \<and> e \<noteq> Closed h \<longrightarrow> sw_conns w' h \<noteq> None)"
proof -
  have sinv: "server_inv L w" using inv by (simp add: tcp_proxy_inv_def)
  obtain w' where w': "TcpServer_event L A (TcpProxy_app L A dec jc jp) e w = Some w'" "server_inv L w'"
    "\<forall>h. sw_conns w h \<noteq> None \<and> e \<noteq> Closed h \<longrightarrow> sw_conns w' h \<noteq> None"
    using event_good [OF laws proxy_app_ok [OF laws] sinv del] by blast
  have "tcp_proxy_inv L w' \<and> calls_by L silent (wuv w) (wuv w')"
  proof (cases "\<exists>status client. e = Accepted status client")
    case True
    then obtain status client where e: "e = Accepted status client" by blast
    let ?w = "w\<lparr>sw_io := (sw_io w)\<lparr>io_next := max (io_next (sw_io w)) (Suc client)\<rparr>\<rparr>"
    have inv1: "tcp_proxy_inv L ?w" by (rule proxy_inv_grow [OF inv]) simp
    have m: "proxy_moves L (Some client) ?w w'"
      by (rule pm.R_accepted [OF w'(1) [unfolded e] refl])
    have "tcp_proxy_inv L w'"
    proof (rule proxy_inv_after [OF laws inv1 w'(2) m])
      fix n a assume "tp_agents (sw_app ?w) n = Some a"
      then have "agent_inv w n a" "client \<notin> set (client_handles (ag_client a))"
        using inv own [OF e] by (simp_all add: tcp_proxy_inv_def own_address_def)
      then show "Some client \<noteq> Some (n + 2)" by (auto simp: agent_inv_def client_handles_def)
    qed simp
    then show ?thesis using m by (simp add: proxy_moves_def)
  next
    case False
    then have m: "proxy_moves L None w w'" using pm.R_event [OF w'(1)] by blast
    then have "tcp_proxy_inv L w'" using proxy_inv_after [OF laws inv w'(2) m] by simp
    then show ?thesis using m by (simp add: proxy_moves_def)
  qed
  then show ?thesis using w' by blast
qed

section \<open>The outcome of an agent's connect\<close>

text \<open>What the callback changes: the server's invariant holds, no object is lost, the agents stay.\<close>

text \<open>A call that is no write to the handle of an agent.\<close>

definition spares_agents :: "('u, 'w) proxy_world \<Rightarrow> uv_call \<Rightarrow> bool" where
  "spares_agents w c \<longleftrightarrow> (\<forall>r h b. c = UvWrite r h b \<longrightarrow>
     (\<forall>n a. tp_agents (sw_app w) n = Some a \<longrightarrow> h \<notin> set (client_handles (ag_client a))))"

lemma silent_spares: "silent c \<Longrightarrow> spares_agents w c"
  by (simp add: silent_def spares_agents_def)

definition status_step :: "'u libuv \<Rightarrow> ('u, 'w) proxy_world \<Rightarrow> ('u, 'w) proxy_world \<Rightarrow> bool" where
  "status_step L w w' \<longleftrightarrow> server_inv L w' \<and> keeps L w w' \<and> moves L None w w' \<and>
     calls_by L (spares_agents w) (wuv w) (wuv w') \<and> tp_agents (sw_app w') = tp_agents (sw_app w) \<and> tp_reading (sw_app w') = tp_reading (sw_app w)"

lemma status_step_trans:
  assumes "status_step L w w1" "status_step L w1 w2" shows "status_step L w w2"
proof -
  have "spares_agents w1 = spares_agents w"
    using assms(1) by (simp add: fun_eq_iff status_step_def spares_agents_def)
  then have "calls_by L (spares_agents w) (wuv w) (wuv w2)"
    using assms calls_by_trans unfolding status_step_def by metis
  then show ?thesis using assms keeps_trans moves_trans unfolding status_step_def by metis
qed

lemma status_step_held: "status_step L w w' \<Longrightarrow> held h w \<noteq> None \<Longrightarrow> held h w' \<noteq> None"
  unfolding status_step_def moves_def held_None by blast

lemma status_same:
  assumes "server_inv L w" "sw_connections w' = sw_connections w" "sw_conns w' = sw_conns w"
    "sw_wheel w' = sw_wheel w" "sw_wrappers w' = sw_wrappers w" "sw_released w' = sw_released w"
    "io_next (sw_io w) \<le> io_next (sw_io w')" "io_shutdowns (sw_io w') = io_shutdowns (sw_io w)"
    "tp_agents (sw_app w') = tp_agents (sw_app w)" "tp_reading (sw_app w') = tp_reading (sw_app w)"
    and "\<And>g. uv_is_closing L g (wuv w') = uv_is_closing L g (wuv w)"
    and "calls_by L (spares_agents w) (wuv w) (wuv w')"
  shows "status_step L w w'"
  using server_inv_same [OF assms(1-7) assms(11)] moves_same [OF no_new_same [OF assms(3,6)] assms(7,8,11)] assms(9,10,12)
  by (simp add: status_step_def)

text \<open>The connection of a client is over no agent's handle.\<close>

lemma held_apart:
  assumes inv: "tcp_proxy_inv L w" and c: "held client w = Some c"
  shows "spares_agents w (UvWrite r (tc_handle c) m)"
proof -
  have "tc_handle c \<noteq> n + 2" if "agent_inv w n a" for n a
  proof (cases "sw_conns w client")
    case None
    then have r: "sw_released w client = Some c" using c by (simp add: held_def)
    then have "tc_handle c = client" using inv by (simp add: tcp_proxy_inv_def server_inv_def heap_inv_def)
    then show ?thesis using that r by (auto simp: agent_inv_def alien_def)
  next
    case (Some c0)
    then show ?thesis using that c by (auto simp: agent_inv_def alien_def held_def)
  qed
  then show ?thesis using inv unfolding spares_agents_def tcp_proxy_inv_def agent_inv_def by blast
qed

lemma status_step_inv:
  assumes laws: "uv_laws L" and inv: "tcp_proxy_inv L w" and st: "status_step L w w'"
  shows "tcp_proxy_inv L w'"
proof -
  have w: "taken w" "readings w" using inv by (simp_all add: tcp_proxy_inv_def)
  have m: "moves L None w w'" "server_inv L w'" "tp_agents (sw_app w') = tp_agents (sw_app w)"
    "tp_reading (sw_app w') = tp_reading (sw_app w)" using st by (simp_all add: status_step_def)
  have k: "taken w'" "\<And>g. alien w g \<Longrightarrow> alien w' g \<and> shuts g w' = shuts g w"
    using m(1) laws w unfolding moves_def by auto
  have "readings w'" using w(2) moves_next [OF m(1)] by (force simp: readings_def m(4))
  moreover have "agent_inv w' n a" if "tp_agents (sw_app w') n = Some a" for n a
  proof -
    have ok: "agent_inv w n a" using inv that by (simp add: tcp_proxy_inv_def m(3))
    then have "alien w (n + 2)" by (simp add: agent_inv_def)
    from k(2) [OF this] show ?thesis
      by (intro agent_inv_frame [OF ok moves_next [OF m(1)]]) (simp_all add: m(4) status_step_held [OF st])
  qed
  ultimately show ?thesis using m(2) k(1) by (simp add: tcp_proxy_inv_def)
qed

lemma on_status_good:
  fixes w :: "('u, 'w) proxy_world"
  assumes laws: "uv_laws L" and pinv: "tcp_proxy_inv L w" and held: "held client w \<noteq> None"
  shows "\<exists>w'. TcpProxy_on_status L (AgentStatus n client m) status w = Some w' \<and> status_step L w w'"
proof -
  have inv: "server_inv L w" using pinv by (simp add: tcp_proxy_inv_def)
  obtain c where c: "held client w = Some c" using held by auto
  note apart = held_apart [OF pinv c]
  show ?thesis
  proof (cases "status = ConnectSuccess")
    case True
    let ?w = "w\<lparr>sw_app := (sw_app w)\<lparr>tp_session := (tp_session (sw_app w))(tc_name c \<mapsto> n)\<rparr>\<rparr>"
    obtain rst io' and cs :: "(srv_message, srv_close, srv_done, 'w) conn_call list"
      where wr: "TcpConnection_write L m None c (sw_io w) = (rst, io', cs)" by (metis surj_pair)
    have "TcpProxy_on_status L (AgentStatus n client m) status w = Some (log_calls cs (?w\<lparr>sw_io := io'\<rparr>))"
      using c wr True by (simp add: TcpProxy_on_status_def Let_def)
    moreover have "status_step L w (log_calls cs (?w\<lparr>sw_io := io'\<rparr>))"
      using write_io [OF laws wr] calls_by_mono [OF write_calls [OF wr], of "spares_agents w"] apart
      by (intro status_same [OF inv]) auto
    ultimately show ?thesis by blast
  next
    case False
    obtain c' u' and cs :: "(srv_message, srv_close, srv_done, 'w) conn_call list"
      where cl: "TcpConnection_close L None (c, wuv w) = ((c', u'), cs)" by (metis surj_pair)
    let ?w = "log_calls cs (put_uv u' (put_held client c' w))"
    have st: "TcpProxy_on_status L (AgentStatus n client m) status w = Some ?w"
      using c cl False by (simp add: TcpProxy_on_status_def)
    have c': "c' = c\<lparr>tc_onMessageCallback := None, tc_onConnectCloseCallback := None,
        tc_closeCompleteCallback := None\<rparr>"
      by (rule close_object [OF cl])
    have u': "uv_is_closing L (tc_handle c) u'"
      "\<And>g. g \<noteq> tc_handle c \<Longrightarrow> uv_is_closing L g u' = uv_is_closing L g (wuv w)"
      using close_open [OF laws _ cl] close_closing [OF laws _ cl] by blast+
    have calls: "calls_by L (spares_agents w) (wuv w) u'"
      by (rule calls_by_mono [OF close_calls [OF cl] silent_spares])
    have "status_step L w ?w"
    proof (cases "sw_conns w client")
      case None
      then have r: "sw_released w client = Some c" using c by (simp add: held_def)
      then have h: "tc_handle c = client" using inv by (simp add: server_inv_def heap_inv_def)
      have w': "sw_connections ?w = sw_connections w" "sw_conns ?w = sw_conns w" "sw_wheel ?w = sw_wheel w"
        "sw_wrappers ?w = sw_wrappers w" "sw_released ?w = (sw_released w)(client \<mapsto> c')"
        "io_next (sw_io ?w) = io_next (sw_io w)" "sw_app ?w = sw_app w" "wuv ?w = u'"
        "io_shutdowns (sw_io ?w) = io_shutdowns (sw_io w)"
        using None by (simp_all add: put_held_def put_uv_def)
      have "uv_is_closing L g u' = uv_is_closing L g (wuv w)" if "sw_conns w g \<noteq> None" for g
        using u'(2) [of g] h None that by (cases "g = tc_handle c") auto
      then have "table_inv L ?w \<and> keeps L w ?w"
        using inv w' table_inv_same [of L w ?w] by (simp add: server_inv_def keeps_def)
      moreover have "heap_inv ?w"
        using inv h w' by (auto simp: server_inv_def heap_inv_def c')
      moreover have "idle_inv ?w" using inv w' idle_inv_same [of w ?w] by (simp add: server_inv_def)
      moreover have "moves L None w ?w"
      proof (rule moves_same)
        show "no_new w ?w" unfolding no_new_def w' using r by auto
        show "uv_is_closing L g (wuv ?w) = uv_is_closing L g (wuv w)" if "alien w g" for g
        proof -
          have "g \<noteq> tc_handle c" using r h that by (auto simp: alien_def)
          then show ?thesis using u'(2) unfolding w' by blast
        qed
      qed (unfold w', simp_all)
      ultimately show ?thesis using w' calls by (simp add: status_step_def server_inv_def)
    next
      case (Some c0)
      then have c0: "sw_conns w client = Some c" using c by (simp add: held_def)
      have h: "tc_handle c = client"
        using table_conn [of L w client c] inv c0 by (simp add: server_inv_def conn_inv_def)
      have w': "sw_connections ?w = sw_connections w" "sw_conns ?w = (sw_conns w)(client \<mapsto> c')"
        "sw_wheel ?w = sw_wheel w" "sw_wrappers ?w = sw_wrappers w" "sw_released ?w = sw_released w"
        "io_next (sw_io ?w) = io_next (sw_io w)" "sw_app ?w = sw_app w" "wuv ?w = u'"
        "io_shutdowns (sw_io ?w) = io_shutdowns (sw_io w)"
        using Some by (simp_all add: put_held_def put_uv_def put_conn_def)
      have "table_inv L ?w"
        using inv c0 w' u' h by (intro table_inv_update [of L w client c c' ?w])
          (simp_all add: server_inv_def conn_inv_def c')
      moreover have "heap_inv ?w" using inv c0 w' by (auto simp: server_inv_def heap_inv_def)
      moreover have "idle_inv ?w" using inv w' idle_inv_same [of w ?w] by (simp add: server_inv_def)
      moreover have "uv_is_closing L g u'" if "uv_is_closing L g (wuv w)" for g
        using u' that by (cases "g = tc_handle c") auto
      then have "keeps L w ?w" unfolding keeps_def w' using c0 by (simp add: c')
      moreover have "moves L None w ?w"
      proof (rule moves_same)
        show "no_new w ?w" by (rule no_new_conn [OF c0 _ w'(2,5)]) (simp add: c')
        show "uv_is_closing L g (wuv ?w) = uv_is_closing L g (wuv w)" if "alien w g" for g
          unfolding w' using u'(2) [of g] alien_handle [OF c0 that] by simp
      qed (unfold w', simp_all)
      ultimately show ?thesis using w' calls by (simp add: status_step_def server_inv_def)
    qed
    with st show ?thesis by blast
  qed
qed

lemma put_log_status: "tcp_proxy_inv L w \<Longrightarrow> status_step L w (put_log l s w)"
  by (rule status_same) (simp_all add: put_log_def tcp_proxy_inv_def)

lemma agent_calls_good:
  fixes w :: "('u, 'w) proxy_world"
  assumes laws: "uv_laws L" and "tcp_proxy_inv L w" and "own_status cb cs"
    and "\<And>n client m. cb = Some (AgentStatus n client m) \<Longrightarrow> held client w \<noteq> None"
  shows "\<exists>w'. agent_calls L cs w = Some w' \<and> status_step L w w'"
  using assms(2-)
proof (induction cs arbitrary: w)
  case Nil
  then show ?case by (simp add: status_step_def tcp_proxy_inv_def)
next
  case (Cons c cs)
  have "\<exists>w1. agent_calls L [c] w = Some w1 \<and> status_step L w w1"
  proof (cases c)
    case (CallStatus s status)
    obtain n client m where s: "s = AgentStatus n client m" by (cases s)
    then have "held client w \<noteq> None" using Cons.prems(2,3) CallStatus by simp
    from on_status_good [OF laws Cons.prems(1) this, of n m status] show ?thesis
      using CallStatus s by auto
  next
    case (ClientLog l t)
    then show ?thesis using put_log_status [OF Cons.prems(1), of l t] by simp
  qed (use Cons.prems(1) in \<open>simp_all add: status_step_def tcp_proxy_inv_def\<close>)
  then obtain w1 where w1: "agent_calls L [c] w = Some w1" "status_step L w w1" by blast
  obtain w2 where w2: "agent_calls L cs w1 = Some w2" "status_step L w1 w2"
    using Cons.IH [of w1] Cons.prems(2,3) status_step_inv [OF laws Cons.prems(1) w1(2)] status_step_held [OF w1(2)]
    by auto
  have "agent_calls L (c # cs) w = Some w2"
    using w1(1) w2(1) by (auto split: Option.bind_splits)
  then show ?case using status_step_trans [OF w1(2) w2(2)] by blast
qed

section \<open>The events of an agent, in the proxy\<close>

text \<open>What libuv delivers to the agent at \<open>n\<close>: the end of its own connect request, receive events of its
  handle while it is read and not closing, the closing of its handle after the shutdowns of it, the
  end of a shutdown of its handle or of a write.\<close>

definition agent_deliverable ::
    "'u libuv \<Rightarrow> addr_lib \<Rightarrow> nat \<Rightarrow> client_event \<Rightarrow> ('u, 'w) proxy_world \<Rightarrow> bool" where
  "agent_deliverable L A n x w \<longleftrightarrow> (\<exists>a h. tp_agents (sw_app w) n = Some a \<and> cl_socket (ag_client a) = Some h \<and>
     (case x of
       ConnectDone r status \<Rightarrow> (r, h) \<in> set (tp_connects (sw_app w)) \<and>
         (status = 0 \<longrightarrow> SocketAddr_addr_to_str A (uv_getpeername L h (wuv w)) (cl_ipv (ag_client a)) \<noteq> None)
     | ClientReceived g nread buf \<Rightarrow> g = h \<and> g \<in> set (tp_open (sw_app w)) \<and> g \<in> set (tp_reading (sw_app w)) \<and>
         \<not> uv_is_closing L g (wuv w)
     | ClientHandleClosed g \<Rightarrow> g = h \<and> g \<in> set (tp_open (sw_app w)) \<and> uv_is_closing L g (wuv w) \<and>
         g \<notin> snd ` set (io_shutdowns (sw_io w))
     | ClientShutdownDone r \<Rightarrow> map_of (io_shutdowns (sw_io w)) r = Some h
     | ClientWriteDone r status \<Rightarrow> r \<in> fst ` set (io_writes (sw_io w))))"

lemma shuts_iff: "shuts g w \<noteq> [] \<longleftrightarrow> g \<in> snd ` set (io_shutdowns (sw_io w))"
  by (force simp: shuts_def filter_empty_conv)

text \<open>The client handles what is delivered to it.\<close>

lemma agent_handles:
  fixes w :: "('u, 'w) proxy_world"
  assumes inv: "agent_inv w n a" and a: "tp_agents (sw_app w) n = Some a" and del: "agent_deliverable L A n x w"
  shows "\<exists>cl io cs. TcpClient_event L A (sw_mode w) x (ag_client a, agent_io w) = Some ((cl, io), cs)"
proof -
  let ?cl = "ag_client a" and ?h = "n + 2"
  have so: "cl_socket ?cl = Some ?h" "set (client_handles ?cl) \<subseteq> {?h}"
    and con: "?h \<in> set (tp_reading (sw_app w)) \<or> ?h \<in> snd ` set (io_shutdowns (sw_io w)) \<Longrightarrow>
      \<exists>c. conn_at ?h ?cl = Some c"
    using inv by (auto simp: agent_inv_def shuts_iff client_handles_def conn_at_def)
  have "TcpClient_event L A (sw_mode w) x (?cl, agent_io w) \<noteq> None"
  proof (cases x)
    case (ConnectDone r status)
    obtain c u where new: "TcpConnection_new L (sw_mode w)
        (the (SocketAddr_addr_to_str A (uv_getpeername L ?h (wuv w)) (cl_ipv ?cl))) ?h True (wuv w) =
        (c :: unit client_connection, u)" by fastforce
    have "tc_handle c = ?h" using new_connection [OF new] by simp
    then have "settle ?cl (?cl\<lparr>cl_connection := Some c\<rparr>) io = Some (?cl\<lparr>cl_connection := Some c\<rparr>)" for io :: "('u, 'w) client_io"
      using so by (auto simp: settle_def client_handles_def list_all_iff)
    then show ?thesis
      using del a so new ConnectDone
      by (cases "status = 0") (auto simp: agent_deliverable_def TcpClient_event_def TcpClient_on_connect_def agent_io_def Let_def)
  next
    case (ClientReceived g nread buf)
    then obtain c where c: "g = ?h" "conn_at ?h ?cl = Some c"
      using del a so con by (auto simp: agent_deliverable_def)
    obtain c' i and ds :: "(client_message, client_close, unit client_done, 'w) conn_call list"
      where "TcpConnection_on_mesage_receive L nread buf c (ci_io (agent_io w)) = ((c', i), ds)" by (metis surj_pair)
    then show ?thesis using ClientReceived c by (simp add: TcpClient_event_def del: not_None_eq)
  next
    case (ClientHandleClosed g)
    then have "g = ?h" using del a so by (simp add: agent_deliverable_def)
    then show ?thesis using ClientHandleClosed so 
      by (cases "conn_at ?h ?cl") (simp_all add: TcpClient_event_def Let_def del: not_None_eq)
  next
    case (ClientShutdownDone r)
    then have r: "map_of (io_shutdowns (sw_io w)) r = Some ?h" using del a so by (simp add: agent_deliverable_def)
    then have "?h \<in> snd ` set (io_shutdowns (sw_io w))" by (force dest: map_of_SomeD)
    then obtain c where "conn_at ?h ?cl = Some c" using con by blast
    then show ?thesis
      using ClientShutdownDone r by (simp add: TcpClient_event_def agent_io_def shutdown_done_def Let_def del: not_None_eq)
  next
    case (ClientWriteDone r status)
    then obtain wr where "map_of (io_writes (sw_io w)) r = Some wr"
      using del a by (cases "map_of (io_writes (sw_io w)) r") (auto simp: agent_deliverable_def map_of_eq_None_iff)
    then show ?thesis
      using ClientWriteDone by (simp add: TcpClient_event_def agent_io_def write_done_def del: not_None_eq)
  qed
  then show ?thesis by auto
qed

text \<open>The invariant when the agent's client has handled an event.\<close>

lemma put_agent_step:
  fixes w :: "('u, 'w) proxy_world"
  assumes laws: "uv_laws L" and inv: "tcp_proxy_inv L w" and a: "tp_agents (sw_app w) n = Some a"
    and m: "client_moves L (ag_client a, agent_io w) (cl, io)"
  shows "tcp_proxy_inv L (put_agent n (a\<lparr>ag_client := cl\<rparr>) io w) \<and> keeps L w (put_agent n (a\<lparr>ag_client := cl\<rparr>) io w) \<and>
    calls_by L silent (wuv w) (wuv (put_agent n (a\<lparr>ag_client := cl\<rparr>) io w))"
    (is "tcp_proxy_inv L ?w \<and> keeps L w ?w \<and> calls_by L silent (wuv w) (wuv ?w)")
proof -
  have sinv: "server_inv L w" "taken w" "readings w" and ok: "agent_inv w n a"
    using inv a by (simp_all add: tcp_proxy_inv_def)
  note d = client_movesD [OF m, simplified]
  have next_le: "io_next (sw_io w) \<le> io_next (ci_io io)" using d(5) by (simp add: agent_io_def)
  have app: "tp_agents (sw_app ?w) = (tp_agents (sw_app w))(n \<mapsto> a\<lparr>ag_client := cl\<rparr>)"
    "tp_reading (sw_app ?w) = ci_reading io" by (simp_all add: put_agent_def)
  have own: "set (client_handles (ag_client a)) \<subseteq> {n + 2}" "alien w (n + 2)" "n + 2 < io_next (sw_io w)"
    using ok by (simp_all add: agent_inv_def)
  have put: "server_inv L ?w \<and> keeps L w ?w"
  proof (rule put_agent_inv [OF sinv(1) next_le])
    fix g assume "sw_conns w g \<noteq> None"
    then have "g \<notin> set (client_handles (ag_client a))" using own(1,2) by (auto simp: alien_def)
    then show "uv_is_closing L g (cuv io) = uv_is_closing L g (wuv w)" using d(6) by (simp add: agent_io_def)
  qed
  have "client_ok (ag_client a, agent_io w)"
    using sinv(2,3) own(1,3) by (auto simp: client_ok_def agent_io_def taken_def readings_def)
  then have ok': "client_ok (cl, io)" by (rule d(10))
  then have "taken ?w" using sinv(2) next_le by (intro no_new_taken [of w ?w]) (auto simp: no_new_same client_ok_def)
  moreover have "readings ?w" using ok' by (simp add: readings_def client_ok_def app)
  moreover have "agent_inv ?w k b" if b: "tp_agents (sw_app ?w) k = Some b" for k b
  proof -
    have alien: "alien ?w g \<longleftrightarrow> alien w g" for g by (simp add: alien_def)
    have held: "held g ?w = held g w" for g by (rule held_same) simp_all
    have mine: "k + 2 \<in> set (ci_reading io) \<Longrightarrow> k + 2 \<in> set (tp_reading (sw_app w)) \<or>
          k = n \<and> cl_connection cl \<noteq> None"
      "shuts (k + 2) ?w \<noteq> [] \<Longrightarrow> shuts (k + 2) w \<noteq> [] \<or> k = n \<and> cl_connection cl \<noteq> None"
      using d(7,8) own(1) unfolding shuts_iff by (force simp: agent_io_def)+
    show ?thesis
    proof (cases "k = n")
      case False
      then have "agent_inv w k b" using b inv by (simp add: app tcp_proxy_inv_def)
      from agent_inv_frame [OF this, of ?w] show ?thesis
        using False next_le mine alien held \<open>agent_inv w k b\<close> by (simp add: app agent_inv_def)
    next
      case True
      then show ?thesis using b ok d(1-4,11) next_le mine alien held
        by (auto simp: app agent_inv_def)
    qed
  qed
  moreover have "calls_by L silent (wuv w) (wuv ?w)" using d(9) by (simp add: agent_io_def)
  ultimately show ?thesis using put by (simp add: tcp_proxy_inv_def)
qed

lemma agent_event_good:
  fixes w :: "('u, 'w) proxy_world"
  assumes laws: "uv_laws L" and inv: "tcp_proxy_inv L w" and del: "agent_deliverable L A n x w"
  shows "\<exists>w'. TcpProxy_event L A dec jc jp (AgentEvent n x) w = Some w' \<and> tcp_proxy_inv L w' \<and> keeps L w w' \<and>
    calls_by L (spares_agents w') (wuv w) (wuv w')"
proof -
  obtain a where a: "tp_agents (sw_app w) n = Some a" using del by (auto simp: agent_deliverable_def)
  then have ok: "agent_inv w n a" using inv by (simp add: tcp_proxy_inv_def)
  obtain cl io cs where ev: "TcpClient_event L A (sw_mode w) x (ag_client a, agent_io w) = Some ((cl, io), cs)"
    using agent_handles [OF ok a del] by blast
  let ?w = "put_agent n (a\<lparr>ag_client := cl\<rparr>) io w"
  have m: "client_moves L (ag_client a, agent_io w) (cl, io)" "own_status (cl_connectCallback (ag_client a)) cs"
    using client_event_moves [OF laws ev] by simp_all
  have put: "tcp_proxy_inv L ?w" "keeps L w ?w" "calls_by L silent (wuv w) (wuv ?w)"
    using put_agent_step [OF laws inv a m(1)] by blast+
  have "held client ?w \<noteq> None"
    if "cl_connectCallback (ag_client a) = Some (AgentStatus k client m)" for k client m
    using ok that held_same [of ?w w client] by (auto simp: agent_inv_def)
  then obtain w' where w': "agent_calls L cs ?w = Some w'" "status_step L ?w w'"
    using agent_calls_good [OF laws put(1) m(2)] by auto
  have "tcp_proxy_inv L w'" by (rule status_step_inv [OF laws put(1) w'(2)])
  moreover have "keeps L w w'" using keeps_trans [OF put(2)] w'(2) by (simp add: status_step_def)
  moreover have "spares_agents w' = spares_agents ?w"
    using w'(2) by (simp add: fun_eq_iff status_step_def spares_agents_def)
  then have "calls_by L (spares_agents w') (wuv ?w) (wuv w')" "calls_by L (spares_agents w') (wuv w) (wuv ?w)"
    using w'(2) calls_by_mono [OF put(3) silent_spares] unfolding status_step_def by simp_all
  note calls_by_trans [OF this(2,1)]
  ultimately show ?thesis using a ev w'(1) by (auto simp: TcpProxy_event_def)
qed

section \<open>Runs of the proxy\<close>

text \<open>What is delivered: to the server what libuv delivers, with messages the proxy can read and clients
  at addresses of their own; to an agent what libuv delivers.\<close>

definition proxy_deliverable ::
    "'u libuv \<Rightarrow> addr_lib \<Rightarrow> decoder \<Rightarrow> 32 word \<Rightarrow> 32 word \<Rightarrow> proxy_event \<Rightarrow> ('u, 'w) proxy_world \<Rightarrow> bool" where
  "proxy_deliverable L A dec jc jp e w = (case e of
     ServerEvent x \<Rightarrow> deliverable A L (valid_message dec jc jp) x w \<and>
       (case x of Accepted status client \<Rightarrow> own_address client w | _ \<Rightarrow> True)
   | AgentEvent n x \<Rightarrow> agent_deliverable L A n x w)"

inductive proxy_reach ::
    "'u libuv \<Rightarrow> addr_lib \<Rightarrow> decoder \<Rightarrow> 32 word \<Rightarrow> 32 word \<Rightarrow> ('u, 'w) proxy_world \<Rightarrow> bool"
  for L A dec jc jp where
  start: "TcpProxy_start L bm junk io (TcpProxy_new A ip port) = Some (r, w) \<Longrightarrow> io_shutdowns io = [] \<Longrightarrow>
    proxy_reach L A dec jc jp w"
| event: "proxy_reach L A dec jc jp w \<Longrightarrow> proxy_deliverable L A dec jc jp e w \<Longrightarrow>
    TcpProxy_event L A dec jc jp e w = Some w' \<Longrightarrow> proxy_reach L A dec jc jp w'"

lemma start_inv:
  assumes "TcpProxy_start L bm junk io (TcpProxy_new A ip port) = Some (r, w)" "io_shutdowns io = []"
  shows "tcp_proxy_inv L w"
proof -
  let ?p = "TcpProxy_new A ip port"
  let ?w0 = "TcpServer_set_message_callback (Some ProxyMessage) (TcpServer_new L bm junk True io ?p)"
  obtain rst where l: "TcpServer_listen L (px_addr ?p) ?w0 = Some (rst, w)"
    using assms(1) by (auto simp: TcpProxy_start_def Let_def split: Option.bind_splits)
  have w0: "sw_connections ?w0 = []" "sw_conns ?w0 = Map.empty" "sw_released ?w0 = Map.empty"
    "tw_timeoutSec (sw_wheel ?w0) = 0" "members (sw_wheel ?w0) = {}" "tp_agents (sw_app ?w0) = Map.empty"
    "tp_reading (sw_app ?w0) = []" "io_shutdowns (sw_io ?w0) = []"
    using assms(2) by (simp_all add: TcpServer_set_message_callback_def TcpServer_new_def TimerWheel_new_def members_def
        TcpProxy_new_def proxy.defs split_beta Let_def)
  have "sw_connections w = [] \<and> sw_conns w = Map.empty \<and> sw_released w = Map.empty \<and>
      tw_timeoutSec (sw_wheel w) = 0 \<and> members (sw_wheel w) = {} \<and> tp_agents (sw_app w) = Map.empty \<and>
      tp_reading (sw_app w) = [] \<and> io_shutdowns (sw_io w) = []"
    using l w0 unfolding TcpServer_listen_def
    by (auto simp: put_uv_def Let_def TimerWheel_start_def split: Option.bind_splits if_splits prod.splits)
  then show ?thesis
    by (simp add: tcp_proxy_inv_def server_inv_def table_inv_def idle_inv_def heap_inv_def taken_def
        readings_def)
qed

lemma proxy_event_good:
  fixes w :: "('u, 'w) proxy_world"
  assumes laws: "uv_laws L" and inv: "tcp_proxy_inv L w" and del: "proxy_deliverable L A dec jc jp e w"
  shows "\<exists>w'. TcpProxy_event L A dec jc jp e w = Some w' \<and> tcp_proxy_inv L w' \<and>
    calls_by L (spares_agents w') (wuv w) (wuv w') \<and>
    (\<forall>h. sw_conns w h \<noteq> None \<and> e \<noteq> ServerEvent (Closed h) \<longrightarrow> sw_conns w' h \<noteq> None)"
proof (cases e)
  case (ServerEvent x)
  then have "\<exists>w'. TcpServer_event L A (TcpProxy_app L A dec jc jp) x w = Some w' \<and> tcp_proxy_inv L w' \<and>
      calls_by L silent (wuv w) (wuv w') \<and>
      (\<forall>h. sw_conns w h \<noteq> None \<and> x \<noteq> Closed h \<longrightarrow> sw_conns w' h \<noteq> None)"
    using del by (intro server_event_good [OF laws inv]) (auto simp: proxy_deliverable_def)
  then show ?thesis using ServerEvent calls_by_mono [OF _ silent_spares] by (auto simp: TcpProxy_event_def)
next
  case (AgentEvent n x)
  then have "agent_deliverable L A n x w" using del by (simp add: proxy_deliverable_def)
  from agent_event_good [OF laws inv this] keeps_dom show ?thesis unfolding AgentEvent by metis
qed

lemma proxy_reach_inv: "proxy_reach L A dec jc jp w \<Longrightarrow> uv_laws L \<Longrightarrow> tcp_proxy_inv L w"
  by (induction rule: proxy_reach.induct) (auto intro: start_inv dest: proxy_event_good)

text \<open>Data an agent receives.\<close>

lemma agent_receive_nothing:
  fixes w :: "('u, 'w) proxy_world"
  assumes a: "tp_agents (sw_app w) n = Some a" and cb: "cl_onMessageCallback (ag_client a) = None" and k: "0 < nread"
    and ev: "TcpProxy_event L A dec jc jp (AgentEvent n (ClientReceived h nread buf)) w = Some w'"
  shows "w' = w"
proof -
  obtain c where c: "conn_at h (ag_client a) = Some c"
    using ev a by (auto simp: TcpProxy_event_def TcpClient_event_def split: Option.bind_splits)
  then have cl: "(ag_client a)\<lparr>cl_connection := Some c\<rparr> = ag_client a" by (simp add: conn_at_iff)
  have calls: "client_calls L (TcpConnection_on_message (take (nat nread) buf) c) (ag_client a, io) =
      ((ag_client a, io), [] :: (agent_status, unit, unit, 'w) client_call list)" for io :: "('u, 'w) client_io"
    using cb by (cases "tc_onMessageCallback c"; cases "the (tc_onMessageCallback c)")
      (simp_all add: TcpConnection_on_message_def TcpClient_on_message_def)
  have "put_agent n (a\<lparr>ag_client := ag_client a\<rparr>) (agent_io w) w = w"
    using a by (simp add: put_agent_def agent_io_def fun_upd_idem)
  then show ?thesis
    using ev a c k cl calls [of "agent_io w"]
    by (simp add: TcpProxy_event_def TcpClient_event_def TcpConnection_on_mesage_receive_def agent_io_def)
qed

section \<open>Properties\<close>

text \<open>C15: The TCP proxy never uses a connection or a client that has been freed. In every state that it can
  reach from its start, whether or not the bind has succeeded, with messages it can read and clients
  that have their own names and addresses, it handles every event libuv can deliver to the server's
  handles and to those of the agents: an agent that is read or shut down has its connection, and the
  client's connection an outcome is for is still there, in the server or held by the agent. A connection
  is freed by the event that reports its own handle closed and by no other, and the table holds
  exactly the connections that are alive.\<close>

theorem tcp_proxy_safe:
  fixes w :: "('u, 'w) proxy_world"
  assumes "uv_laws L" and "proxy_reach L A dec jc jp w"
  shows "(\<forall>e. proxy_deliverable L A dec jc jp e w \<longrightarrow> (\<exists>w'. TcpProxy_event L A dec jc jp e w = Some w' \<and>
      (\<forall>h. sw_conns w h \<noteq> None \<and> e \<noteq> ServerEvent (Closed h) \<longrightarrow> sw_conns w' h \<noteq> None))) \<and>
    (\<forall>name h. TcpServer_get_connection name w = Some h \<longleftrightarrow> (\<exists>c. sw_conns w h = Some c \<and> tc_name c = name)) \<and>
    (\<forall>n a k client m. tp_agents (sw_app w) n = Some a \<longrightarrow>
      cl_connectCallback (ag_client a) = Some (AgentStatus k client m) \<longrightarrow> held client w \<noteq> None)"
proof -
  have inv: "tcp_proxy_inv L w" using proxy_reach_inv assms by blast
  then have t: "table_inv L w" by (simp add: tcp_proxy_inv_def server_inv_def)
  have "TcpServer_get_connection name w = Some h \<longleftrightarrow> (\<exists>c. sw_conns w h = Some c \<and> tc_name c = name)"
    for name h
    using table_entry [OF t, of name h] table_conn [OF t, of h] by (auto simp: TcpServer_get_connection_def)
  moreover have "held client w \<noteq> None"
    if "tp_agents (sw_app w) n = Some a" "cl_connectCallback (ag_client a) = Some (AgentStatus k client m)"
    for n a k client m
    using inv that unfolding tcp_proxy_inv_def agent_inv_def by fastforce
  ultimately show ?thesis using proxy_event_good [OF assms(1) inv] by blast
qed

definition demo_tcp_proxy :: tcp_proxy where
  "demo_tcp_proxy = TcpProxy_new demo_addr_lib ''127.0.0.1'' 80"

lemma demo_start:
  "\<exists>w. TcpProxy_start trace_uv NoBuffer Ipv6 demo_srv_io demo_tcp_proxy = Some (0, w) \<and> sw_acceptor w \<noteq> None \<and>
     sw_conns w = Map.empty \<and> sw_connections w = [] \<and> sw_released w = Map.empty \<and>
     tp_agents (sw_app w) = Map.empty \<and> sw_ipv w = Ipv4"
  by (simp add: TcpProxy_start_def demo_tcp_proxy_def TcpProxy_new_def Proxy_new_def proxy.defs TcpServer_listen_def
      TcpServer_set_message_callback_def TcpServer_new_def TimerWheel_new_def TimerWheel_start_def Timer_defs
      TcpAcceptor_defs SocketAddr_of_ip_def SocketAddr_addr_def SocketAddr_ipv_def trace_uv_def uv_do_def put_uv_def
      Let_def split_beta)

text \<open>C16: No real server is ever sent a byte and none is listened to. Whatever event libuv delivers in a
  state the proxy can reach, every write the event asks for goes to a handle that is no agent's: the
  links that are opened for the clients are never written to. And what a real server sends over its
  link, the agent's receive event with data, leaves the whole state as it is.\<close>

theorem tcp_forwards_nothing:
  fixes w :: "('u, 'w) proxy_world"
  assumes "uv_laws L" and "proxy_reach L A dec jc jp w" and "proxy_deliverable L A dec jc jp e w"
    and "TcpProxy_event L A dec jc jp e w = Some w'"
  shows "(\<exists>cs. wuv w' = fold (uv_do L) cs (wuv w) \<and> (\<forall>r h b. UvWrite r h b \<in> set cs \<longrightarrow>
      (\<forall>n a. tp_agents (sw_app w') n = Some a \<longrightarrow> h \<notin> set (client_handles (ag_client a))))) \<and>
    (\<forall>n h nread buf. e = AgentEvent n (ClientReceived h nread buf) \<and> 0 < nread \<longrightarrow> w' = w)"
proof (intro conjI allI impI)
  have inv: "tcp_proxy_inv L w" using proxy_reach_inv assms by blast
  have "calls_by L (spares_agents w') (wuv w) (wuv w')"
    using proxy_event_good [OF assms(1) inv assms(3)] assms(4) by auto
  then obtain cs where cs: "wuv w' = fold (uv_do L) cs (wuv w)" "\<forall>c \<in> set cs. spares_agents w' c"
    unfolding calls_by_def by blast
  have "h \<notin> set (client_handles (ag_client a))"
    if "UvWrite r h b \<in> set cs" "tp_agents (sw_app w') n = Some a" for r h b n a
    using bspec [OF cs(2) that(1)] that(2) by (simp add: spares_agents_def)
  with cs(1) show "\<exists>cs. wuv w' = fold (uv_do L) cs (wuv w) \<and> (\<forall>r h b. UvWrite r h b \<in> set cs \<longrightarrow>
      (\<forall>n a. tp_agents (sw_app w') n = Some a \<longrightarrow> h \<notin> set (client_handles (ag_client a))))" by blast
  fix n h nread buf
  assume e: "e = AgentEvent n (ClientReceived h nread buf) \<and> 0 < nread"
  then obtain a where a: "tp_agents (sw_app w) n = Some a"
    using assms(3) by (auto simp: proxy_deliverable_def agent_deliverable_def)
  then have "cl_onMessageCallback (ag_client a) = None" using inv by (simp add: tcp_proxy_inv_def agent_inv_def)
  from agent_receive_nothing [OF a this, of nread L A dec jc jp h buf] show "w' = w"
    using e assms(4) by auto
qed

text \<open>A run: a client is accepted, sends a bind message, and its agent connects.\<close>

definition demo_step :: "proxy_event \<Rightarrow> (uv_call list, string) proxy_world option \<Rightarrow>
    (uv_call list, string) proxy_world option" where
  "demo_step e w = Option.bind w (TcpProxy_event trace_uv demo_addr_lib small_decoder 7 9 e)"

definition demo_listening :: "(uv_call list, string) proxy_world option" where
  "demo_listening = map_option snd (TcpProxy_start trace_uv NoBuffer Ipv6 demo_srv_io demo_tcp_proxy)"

definition demo_accepted :: "(uv_call list, string) proxy_world option" where
  "demo_accepted = demo_step (ServerEvent (Accepted 0 5)) demo_listening"

definition demo_bound :: "(uv_call list, string) proxy_world option" where
  "demo_bound = demo_step (ServerEvent (Received 5 5 demo_bind)) demo_accepted"

lemma demo_listening_sel:
  "\<exists>w. demo_listening = Some w \<and> sw_acceptor w \<noteq> None \<and> sw_conns w 5 = None \<and> sw_connections w = [] \<and>
    sw_released w 5 = None \<and> tp_agents (sw_app w) = Map.empty \<and> sw_ipv w = Ipv4"
  using demo_start by (auto simp: demo_listening_def)

lemma demo_accepted_sel: "\<exists>w. demo_accepted = Some w \<and> sw_conns w 5 \<noteq> None"
proof -
  have "(case demo_accepted of Some w \<Rightarrow> sw_conns w 5 \<noteq> None | None \<Rightarrow> False)" by code_simp
  then show ?thesis by (auto split: option.splits)
qed

lemma demo_bound_sel:
  "\<exists>w a. demo_bound = Some w \<and> tp_agents (sw_app w) 6 = Some a \<and> cl_socket (ag_client a) = Some 8 \<and>
    (7, 8) \<in> set (tp_connects (sw_app w)) \<and> cl_ipv (ag_client a) = Ipv4"
proof -
  have "(case demo_bound of Some w \<Rightarrow> (case tp_agents (sw_app w) 6 of
      Some a \<Rightarrow> cl_socket (ag_client a) = Some 8 \<and> (7, 8) \<in> set (tp_connects (sw_app w)) \<and>
        cl_ipv (ag_client a) = Ipv4 | None \<Rightarrow> False) | None \<Rightarrow> False)"
    by code_simp
  then show ?thesis by (auto split: option.splits)
qed

lemma demo_linked_sel:
  assumes "demo_bound = Some w"
  shows "\<exists>w' b. TcpProxy_event trace_uv demo_addr_lib small_decoder 7 9 (AgentEvent 6 (ConnectDone 7 0)) w = Some w' \<and>
    tp_agents (sw_app w') 6 = Some b \<and> 8 \<in> set (client_handles (ag_client b))"
proof -
  have "(case demo_step (AgentEvent 6 (ConnectDone 7 0)) demo_bound of Some w' \<Rightarrow> (case tp_agents (sw_app w') 6 of
      Some b \<Rightarrow> 8 \<in> set (client_handles (ag_client b)) | None \<Rightarrow> False) | None \<Rightarrow> False)"
    by code_simp
  then show ?thesis unfolding demo_step_def assms by (auto split: option.splits)
qed

lemma demo_peer_name:
  "\<exists>name. SocketAddr_addr_to_str demo_addr_lib (uv_getpeername trace_uv h u) Ipv4 = Some name"
  by (simp add: SocketAddr_addr_to_str_def SocketAddr_get_ip_and_port_def inet_ntoa_def trace_uv_def)

lemma demo_valid: "valid_message small_decoder 7 9 demo_bind"
  by (simp add: valid_message_def unpack_fields [OF small_decoder_law] demo_bind_objects)

lemma demo_bound_reach:
  assumes "demo_bound = Some w2"
  shows "proxy_reach trace_uv demo_addr_lib small_decoder 7 9 w2"
proof -
  obtain w0 where w0: "demo_listening = Some w0" "sw_acceptor w0 \<noteq> None" "sw_conns w0 5 = None"
    "sw_connections w0 = []" "sw_released w0 5 = None" "tp_agents (sw_app w0) = Map.empty" "sw_ipv w0 = Ipv4"
    using demo_listening_sel by blast
  obtain w1 where w1: "demo_accepted = Some w1" "sw_conns w1 5 \<noteq> None" using demo_accepted_sel by blast
  have "proxy_reach trace_uv demo_addr_lib small_decoder 7 9 w0"
    using w0(1) unfolding demo_listening_def demo_tcp_proxy_def
    by (auto intro!: proxy_reach.start simp: demo_srv_io_def)
  then have "proxy_reach trace_uv demo_addr_lib small_decoder 7 9 w1"
  proof (rule proxy_reach.event)
    show "proxy_deliverable trace_uv demo_addr_lib small_decoder 7 9 (ServerEvent (Accepted 0 5)) w0"
      using w0 demo_peer_name by (simp add: proxy_deliverable_def deliverable_def own_address_def held_def)
    show "TcpProxy_event trace_uv demo_addr_lib small_decoder 7 9 (ServerEvent (Accepted 0 5)) w0 = Some w1"
      using w1(1) unfolding demo_accepted_def demo_step_def w0(1) by simp
  qed
  then show ?thesis
  proof (rule proxy_reach.event)
    have "take (nat 5) demo_bind = demo_bind" by (simp add: demo_bind_def)
    then show "proxy_deliverable trace_uv demo_addr_lib small_decoder 7 9 (ServerEvent (Received 5 5 demo_bind)) w1"
      using w1(2) demo_valid by (simp add: proxy_deliverable_def deliverable_def)
    show "TcpProxy_event trace_uv demo_addr_lib small_decoder 7 9 (ServerEvent (Received 5 5 demo_bind)) w1 = Some w2"
      using assms unfolding demo_bound_def demo_step_def w1(1) by simp
  qed
qed

theorem tcp_proxy_safe_witness:
  "\<exists>w w'. demo_bound = Some w \<and>
     TcpProxy_event trace_uv demo_addr_lib small_decoder 7 9 (AgentEvent 6 (ConnectDone 7 0)) w = Some w'"
proof -
  obtain w a where w: "demo_bound = Some w" "tp_agents (sw_app w) 6 = Some a" "cl_socket (ag_client a) = Some 8"
    "(7, 8) \<in> set (tp_connects (sw_app w))" "cl_ipv (ag_client a) = Ipv4" using demo_bound_sel by blast
  then have "proxy_deliverable trace_uv demo_addr_lib small_decoder 7 9 (AgentEvent 6 (ConnectDone 7 0)) w"
    using demo_peer_name by (auto simp: proxy_deliverable_def agent_deliverable_def)
  with tcp_proxy_safe [OF trace_uv_laws demo_bound_reach [OF w(1)]] w(1) show ?thesis by blast
qed

theorem tcp_forwards_nothing_witness:
  "\<exists>w w' cs. demo_bound = Some w \<and>
     TcpProxy_event trace_uv demo_addr_lib small_decoder 7 9 (AgentEvent 6 (ConnectDone 7 0)) w = Some w' \<and>
     wuv w' = fold (uv_do trace_uv) cs (wuv w) \<and> (\<forall>r b. UvWrite r 8 b \<notin> set cs)"
proof -
  obtain w a where w: "demo_bound = Some w" "tp_agents (sw_app w) 6 = Some a" "cl_socket (ag_client a) = Some 8"
    "(7, 8) \<in> set (tp_connects (sw_app w))" "cl_ipv (ag_client a) = Ipv4" using demo_bound_sel by blast
  obtain w' b where w': "TcpProxy_event trace_uv demo_addr_lib small_decoder 7 9 (AgentEvent 6 (ConnectDone 7 0)) w = Some w'"
    "tp_agents (sw_app w') 6 = Some b" "8 \<in> set (client_handles (ag_client b))" using demo_linked_sel [OF w(1)] by blast
  have del: "proxy_deliverable trace_uv demo_addr_lib small_decoder 7 9 (AgentEvent 6 (ConnectDone 7 0)) w"
    using w demo_peer_name by (auto simp: proxy_deliverable_def agent_deliverable_def)
  obtain cs where cs: "wuv w' = fold (uv_do trace_uv) cs (wuv w)" "\<forall>r h b. UvWrite r h b \<in> set cs \<longrightarrow>
      (\<forall>n a. tp_agents (sw_app w') n = Some a \<longrightarrow> h \<notin> set (client_handles (ag_client a)))"
    using tcp_forwards_nothing [OF trace_uv_laws demo_bound_reach [OF w(1)] del w'(1)] by (elim conjE exE) rule
  have "UvWrite r 8 b \<notin> set cs" for r b using cs(2) w'(2,3) by blast
  with w(1) w'(1) cs(1) show ?thesis by blast
qed

text \<open>A delivered event other than the report that the handle at \<open>h\<close> has been closed.\<close>

definition other_event :: "'u libuv \<Rightarrow> addr_lib \<Rightarrow> decoder \<Rightarrow> 32 word \<Rightarrow> 32 word \<Rightarrow> hid \<Rightarrow>
    ('u, 'w) proxy_world \<Rightarrow> ('u, 'w) proxy_world \<Rightarrow> bool" where
  "other_event L A dec jc jp h w w' \<longleftrightarrow> (\<exists>e. e \<noteq> ServerEvent (Closed h) \<and>
     proxy_deliverable L A dec jc jp e w \<and> TcpProxy_event L A dec jc jp e w = Some w')"

lemma other_events_keep:
  fixes w :: "('u, 'w) proxy_world"
  assumes "uv_laws L" "(other_event L A dec jc jp h)\<^sup>*\<^sup>* w w'" "tcp_proxy_inv L w" "sw_conns w h \<noteq> None"
  shows "tcp_proxy_inv L w' \<and> sw_conns w' h \<noteq> None"
  using assms(2)
proof (induction rule: rtranclp_induct)
  case (step v v')
  obtain e where e: "e \<noteq> ServerEvent (Closed h)" "proxy_deliverable L A dec jc jp e v"
    "TcpProxy_event L A dec jc jp e v = Some v'" using step(2) unfolding other_event_def by blast
  then show ?case using proxy_event_good [OF assms(1) conjunct1 [OF step.IH] e(2)] step.IH by auto
qed (use assms(3,4) in simp)

text \<open>C29: When an agent's connect has failed, the client's connection is closed without a completion
  callback. In any state the proxy can reach in which the failed agent's handle is reported closed
  while the client's connection is open, that closes the client's handle and enters no session; when
  libuv has closed the client's handle, nothing happens: whatever the callbacks of the server are, none
  is called and the state stays as it is. And libuv reports the closing of a handle once: whatever
  other events are delivered from then on, the connection stays in the server and in its table.\<close>

theorem tcp_failure_leaves_entry:
  fixes w :: "('u, 'w) proxy_world"
  assumes "uv_laws L" and "proxy_reach L A dec jc jp w"
    and "proxy_deliverable L A dec jc jp (AgentEvent n (ClientHandleClosed h)) w"
    and "tp_agents (sw_app w) n = Some a" and "cl_connectCallback (ag_client a) = Some (AgentStatus n client m)"
    and "cl_connection (ag_client a) = None"
    and "sw_conns w client = Some c" and "\<not> uv_is_closing L client (wuv w)"
  shows "\<exists>w1. TcpProxy_event L A dec jc jp (AgentEvent n (ClientHandleClosed h)) w = Some w1 \<and>
    uv_is_closing L client (wuv w1) \<and> tp_session (sw_app w1) = tp_session (sw_app w) \<and>
    (\<forall>app. TcpServer_event L A app (Closed client) w1 = Some w1) \<and>
    (\<forall>w2. (other_event L A dec jc jp client)\<^sup>*\<^sup>* w1 w2 \<longrightarrow>
      (\<exists>name c2. sw_conns w2 client = Some c2 \<and> TcpServer_get_connection name w2 = Some client))"
proof -
  have inv: "tcp_proxy_inv L w" using proxy_reach_inv assms(1,2) by blast
  then have "tc_handle c = client"
    using table_conn [of L w client c] assms(7) by (auto simp: tcp_proxy_inv_def server_inv_def conn_inv_def)
  moreover have "cl_socket (ag_client a) = Some h"
    using assms(3,4) by (auto simp: proxy_deliverable_def agent_deliverable_def)
  ultimately obtain w1 where w1: "TcpProxy_event L A dec jc jp (AgentEvent n (ClientHandleClosed h)) w = Some w1"
    "uv_is_closing L client (wuv w1)" "\<forall>app. TcpServer_event L A app (Closed client) w1 = Some w1"
    "sw_conns w1 client \<noteq> None" "tp_session (sw_app w1) = tp_session (sw_app w)"
    using failed_link [OF assms(1,4,5) _ assms(6,7) _ assms(8), of h A dec jc jp] by blast
  have inv1: "tcp_proxy_inv L w1" using proxy_event_good [OF assms(1) inv assms(3)] w1(1) by auto
  have "\<exists>name c2. sw_conns w2 client = Some c2 \<and> TcpServer_get_connection name w2 = Some client"
    if "(other_event L A dec jc jp client)\<^sup>*\<^sup>* w1 w2" for w2
  proof -
    have w2: "tcp_proxy_inv L w2" "sw_conns w2 client \<noteq> None"
      using other_events_keep [OF assms(1) that inv1 w1(4)] by simp_all
    then obtain c2 where "sw_conns w2 client = Some c2" by blast
    then show ?thesis
      using w2(1) table_conn [of L w2 client c2]
      by (auto simp: tcp_proxy_inv_def server_inv_def TcpServer_get_connection_def)
  qed
  with w1 show ?thesis by blast
qed

text \<open>The run goes on: the agent's connect fails.\<close>

lemma demo_refused_sel:
  "\<exists>w w' a m c. demo_bound = Some w \<and>
    TcpProxy_event trace_uv demo_addr_lib small_decoder 7 9 (AgentEvent 6 (ConnectDone 7 (- 111))) w = Some w' \<and>
    tp_agents (sw_app w') 6 = Some a \<and> cl_connectCallback (ag_client a) = Some (AgentStatus 6 5 m) \<and>
    cl_connection (ag_client a) = None \<and> sw_conns w' 5 = Some c \<and> \<not> uv_is_closing trace_uv 5 (wuv w') \<and>
    agent_deliverable trace_uv demo_addr_lib 6 (ClientHandleClosed 8) w'"
proof -
  let ?agent = "\<lambda>w. case tp_agents (sw_app w) 6 of
     Some a \<Rightarrow> (case cl_connectCallback (ag_client a) of Some (AgentStatus n client m) \<Rightarrow> n = 6 \<and> client = 5 | None \<Rightarrow> False) \<and>
       Option.is_none (cl_connection (ag_client a)) \<and> cl_socket (ag_client a) = Some 8
   | None \<Rightarrow> False"
  have "(case demo_step (AgentEvent 6 (ConnectDone 7 (- 111))) demo_bound of
      Some w \<Rightarrow> ?agent w \<and> \<not> Option.is_none (sw_conns w 5) \<and> \<not> uv_is_closing trace_uv 5 (wuv w) \<and>
        8 \<in> set (tp_open (sw_app w)) \<and> uv_is_closing trace_uv 8 (wuv w) \<and> io_shutdowns (sw_io w) = []
    | None \<Rightarrow> False)" by code_simp
  moreover obtain w where w: "demo_bound = Some w" using demo_bound_sel by blast
  ultimately show ?thesis
    unfolding w demo_step_def by (auto simp: agent_deliverable_def Option.is_none_def split: option.splits agent_status.splits)
qed

theorem tcp_failure_leaves_entry_witness:
  "\<exists>(w :: (uv_call list, string) proxy_world) w1.
     TcpProxy_event trace_uv demo_addr_lib small_decoder 7 9 (AgentEvent 6 (ClientHandleClosed 8)) w = Some w1 \<and>
     TcpProxy_event trace_uv demo_addr_lib small_decoder 7 9 (ServerEvent (Closed 5)) w1 = Some w1 \<and>
     (\<exists>name. TcpServer_get_connection name w1 = Some 5)"
proof -
  obtain w0 w a m c where w: "demo_bound = Some w0"
    "TcpProxy_event trace_uv demo_addr_lib small_decoder 7 9 (AgentEvent 6 (ConnectDone 7 (- 111))) w0 = Some w"
    "tp_agents (sw_app w) 6 = Some a" "cl_connectCallback (ag_client a) = Some (AgentStatus 6 5 m)"
    "cl_connection (ag_client a) = None" "sw_conns w 5 = Some c" "\<not> uv_is_closing trace_uv 5 (wuv w)"
    "agent_deliverable trace_uv demo_addr_lib 6 (ClientHandleClosed 8) w" using demo_refused_sel by blast
  obtain b where "tp_agents (sw_app w0) 6 = Some b" "cl_socket (ag_client b) = Some 8"
    "(7, 8) \<in> set (tp_connects (sw_app w0))" "cl_ipv (ag_client b) = Ipv4" using demo_bound_sel unfolding w(1) by auto
  then have "proxy_deliverable trace_uv demo_addr_lib small_decoder 7 9 (AgentEvent 6 (ConnectDone 7 (- 111))) w0"
    using demo_peer_name by (auto simp: proxy_deliverable_def agent_deliverable_def)
  from proxy_reach.event [OF demo_bound_reach [OF w(1)] this w(2)]
  have reach: "proxy_reach trace_uv demo_addr_lib small_decoder 7 9 w" .
  have del: "proxy_deliverable trace_uv demo_addr_lib small_decoder 7 9 (AgentEvent 6 (ClientHandleClosed 8)) w"
    using w(8) by (simp add: proxy_deliverable_def)
  from tcp_failure_leaves_entry [OF trace_uv_laws reach del w(3-7)]
  obtain w1 where w1: "TcpProxy_event trace_uv demo_addr_lib small_decoder 7 9 (AgentEvent 6 (ClientHandleClosed 8)) w = Some w1"
    "\<forall>app. TcpServer_event trace_uv demo_addr_lib app (Closed 5) w1 = Some w1"
    "\<forall>w2. (other_event trace_uv demo_addr_lib small_decoder 7 9 5)\<^sup>*\<^sup>* w1 w2 \<longrightarrow>
      (\<exists>name c2. sw_conns w2 5 = Some c2 \<and> TcpServer_get_connection name w2 = Some 5)" by blast
  have "TcpProxy_event trace_uv demo_addr_lib small_decoder 7 9 (ServerEvent (Closed 5)) w1 = Some w1"
    using w1(2) by (simp add: TcpProxy_event_def)
  moreover have "\<exists>name. TcpServer_get_connection name w1 = Some 5"
    using spec [OF w1(3), of w1] rtranclp.rtrancl_refl [of _ w1] by auto
  ultimately show ?thesis using w1(1) by blast
qed

end
