(* ===== verification/Base_Logger.thy ===== *)
theory Base_Logger
  imports AE_Prelude
begin

text \<open>
  The helpers of \<^verbatim>\<open>base/logger.h\<close> and \<^verbatim>\<open>base/assistant.h\<close>: the hex dump, the logging macros in
  their four builds, and the time in microseconds. What goes to the standard error stream is the
  result of a definition.
\<close>

section \<open>The hex dump\<close>

definition hex_char :: "nat \<Rightarrow> char" where
  "hex_char d = (if d < 10 then char_of (48 + d) else char_of (87 + d))"

fun hex_string :: "nat \<Rightarrow> string" where
  "hex_string n = (if n < 16 then [hex_char n] else hex_string (n div 16) @ [hex_char (n mod 16)])"

declare hex_string.simps [simp del]

text \<open>\<^verbatim>\<open>%04x\<close> and \<^verbatim>\<open>%02x\<close>: at least four and two digits.\<close>

definition hex_padded :: "nat \<Rightarrow> nat \<Rightarrow> string" where
  "hex_padded k n = (let s = hex_string n in replicate (k - length s) (CHR ''0'') @ s)"

text \<open>The loop over the bytes at \<open>c\<close>; reading beyond them is undefined.\<close>

function hex_print_loop :: "byte list \<Rightarrow> int \<Rightarrow> string \<Rightarrow> nat \<Rightarrow> string option" where
  "hex_print_loop c len pipe i =
     (if int i < len then do {
        b \<leftarrow> at c i;
        rest \<leftarrow> hex_print_loop c len pipe (Suc i);
        Some ((if i mod 16 = 0 then CHR 0x0A # pipe @ '' '' @ hex_padded 4 i @ '' '' else '''') @
              (if i mod 8 = 0 then '' '' else '''') @ hex_padded 2 (unat b) @ '' '' @ rest) }
      else Some [])"
  by pat_completeness auto
termination by (relation "measure (\<lambda>(c, len, pipe, i). nat (len - int i))") auto

declare hex_print_loop.simps [simp del]

definition hex_print :: "byte list \<Rightarrow> int \<Rightarrow> string \<Rightarrow> string option" where
  "hex_print c len pipe =
     do { s \<leftarrow> hex_print_loop c len pipe 0; Some (s @ [CHR 0x0A, CHR 0x0A]) }"

section \<open>The logging macros\<close>

datatype log_build = Detail_Message | Simple_Message | Zlog_Message | Win32_Message

datatype log_kind = LogInfo | LogDebug | LogError

text \<open>Which build the defined macros select: the first in the order of the header, or none.\<close>

definition log_build_of :: "log_build set \<Rightarrow> log_build option" where
  "log_build_of defs =
     (if Detail_Message \<in> defs then Some Detail_Message
      else if Simple_Message \<in> defs then Some Simple_Message
      else if Zlog_Message \<in> defs then Some Zlog_Message
      else if Win32_Message \<in> defs then Some Win32_Message else None)"

definition DEBUG_LEVEL :: int where
  "DEBUG_LEVEL = 1"

text \<open>\<^verbatim>\<open>__FILENAME__\<close>: what follows the last slash.\<close>

definition FILENAME :: "string \<Rightarrow> string" where
  "FILENAME file = rev (takeWhile (\<lambda>c. c \<noteq> CHR ''/'') (rev file))"

fun kind_name :: "log_kind \<Rightarrow> string" where
  "kind_name LogInfo = ''info''"
| "kind_name LogDebug = ''debug''"
| "kind_name LogError = ''error''"

text \<open>A macro used in a function at a line of a file, with its message formatted. The zlog library,
  which is not part of the repository, is the parameter \<open>zlog\<close>.\<close>

definition log_macro :: "(log_kind \<Rightarrow> string \<Rightarrow> string) \<Rightarrow> log_build \<Rightarrow> log_kind \<Rightarrow>
    string \<Rightarrow> int \<Rightarrow> string \<Rightarrow> string \<Rightarrow> string" where
  "log_macro zlog build kind file line func msg =
     (if build = Zlog_Message then zlog kind msg
      else if kind = LogDebug \<and> DEBUG_LEVEL = 0 then ''''
      else if build = Simple_Message then ''['' @ kind_name kind @ ''] '' @ msg @ [CHR 0x0A]
      else ''['' @ kind_name kind @ ''][''  @ FILENAME file @ '':'' @ to_string line @ '':'' @ func @ ''()] ''
        @ msg @ [CHR 0x0A])"

section \<open>Time\<close>

text \<open>The seconds and microseconds of \<^verbatim>\<open>gettimeofday\<close>, as one count in 64 bits.\<close>

definition now :: "64 word \<times> 64 word \<Rightarrow> 64 word" where
  "now tv = fst tv * 1000000 + snd tv"

section \<open>Facts\<close>

lemma hex_string_small: "n < 16 \<Longrightarrow> hex_string n = [hex_char n]"
  by (simp add: hex_string.simps)

lemma hex_string_step: "16 \<le> n \<Longrightarrow> hex_string n = hex_string (n div 16) @ [hex_char (n mod 16)]"
  by (subst hex_string.simps) simp

lemma char_of_48: "char_of (48 :: nat) = CHR ''0''"
  by code_simp

lemma hex_byte_digits: "hex_padded 2 (unat (b :: byte)) = [hex_char (unat b div 16), hex_char (unat b mod 16)]"
proof (cases "unat b < 16")
  case True
  then show ?thesis by (simp add: hex_padded_def hex_string_small hex_char_def char_of_48 Let_def)
next
  case False
  moreover have "unat b div 16 < 16" using unat_byte [of b] by linarith
  ultimately show ?thesis by (simp add: hex_padded_def hex_string_step hex_string_small Let_def)
qed

text \<open>The loop on a suffix of the data.\<close>

fun dump :: "string \<Rightarrow> nat \<Rightarrow> byte list \<Rightarrow> string" where
  "dump pipe i [] = ''''"
| "dump pipe i (b # bs) =
     (if i mod 16 = 0 then CHR 0x0A # pipe @ '' '' @ hex_padded 4 i @ '' '' else '''') @
     (if i mod 8 = 0 then '' '' else '''') @ hex_padded 2 (unat b) @ '' '' @ dump pipe (Suc i) bs"

lemma hex_print_loop_dump:
  "i \<le> length c \<Longrightarrow> hex_print_loop c (int (length c)) pipe i = Some (dump pipe i (drop i c))"
proof (induction "length c - i" arbitrary: i)
  case 0
  then show ?case by (simp add: hex_print_loop.simps)
next
  case (Suc n)
  then have i: "i < length c" by simp
  then have "hex_print_loop c (int (length c)) pipe (Suc i) = Some (dump pipe (Suc i) (drop (Suc i) c))"
    using Suc by (intro Suc.hyps(1)) simp_all
  then show ?case
    using i by (subst hex_print_loop.simps) (simp add: Cons_nth_drop_Suc [OF i, symmetric])
qed

text \<open>The reference: rows of sixteen bytes in two halves of eight.\<close>

definition hex_half :: "byte list \<Rightarrow> string" where
  "hex_half bs = (if bs = [] then '''' else '' '' @ concat (map (\<lambda>b. hex_padded 2 (unat b) @ '' '') bs))"

function hex_rows :: "string \<Rightarrow> nat \<Rightarrow> byte list \<Rightarrow> string" where
  "hex_rows pipe k [] = ''''"
| "hex_rows pipe k (b # bs) = CHR 0x0A # pipe @ '' '' @ hex_padded 4 (16 * k) @ '' '' @
     hex_half (take 8 (b # bs)) @ hex_half (take 8 (drop 8 (b # bs))) @ hex_rows pipe (Suc k) (drop 16 (b # bs))"
  by pat_completeness auto
termination by (relation "measure (\<lambda>(pipe, k, bs). length bs)") auto

lemma dump_rest:
  "i mod 8 + length ys \<le> 8 \<Longrightarrow> 0 < i mod 8 \<Longrightarrow>
   dump pipe i (ys @ zs) = concat (map (\<lambda>b. hex_padded 2 (unat b) @ '' '') ys) @ dump pipe (i + length ys) zs"
proof (induction ys arbitrary: i)
  case (Cons y ys)
  have "i mod 16 \<noteq> 0" using Cons.prems(2) by presburger
  show ?case
  proof (cases "ys = []")
    case True
    then show ?thesis using Cons.prems \<open>i mod 16 \<noteq> 0\<close> by simp
  next
    case False
    then have "i mod 8 < 7" using Cons.prems(1) by (cases ys) auto
    then have "Suc i mod 8 = Suc (i mod 8)" by presburger
    then show ?thesis using Cons.IH [of "Suc i"] Cons.prems \<open>i mod 16 \<noteq> 0\<close> by simp
  qed
qed simp

lemma dump_half:
  assumes "i mod 8 = 0" "length ys \<le> 8" "ys \<noteq> []"
  shows "dump pipe i (ys @ zs) =
    (if i mod 16 = 0 then CHR 0x0A # pipe @ '' '' @ hex_padded 4 i @ '' '' else '''') @
    hex_half ys @ dump pipe (i + length ys) zs"
proof -
  obtain y ys' where ys: "ys = y # ys'" using assms(3) by (cases ys) auto
  have "Suc i mod 8 = 1" using assms(1) by presburger
  then have "dump pipe (Suc i) (ys' @ zs) =
      concat (map (\<lambda>b. hex_padded 2 (unat b) @ '' '') ys') @ dump pipe (Suc i + length ys') zs"
    using assms(2) ys by (intro dump_rest) auto
  then show ?thesis using assms(1) by (simp add: ys hex_half_def)
qed

lemma dump_rows: "dump pipe (16 * k) bs = hex_rows pipe k bs"
proof (induction pipe k bs rule: hex_rows.induct)
  case (2 pipe k b bs)
  let ?xs = "b # bs"
  have "dump pipe (16 * k) ?xs = CHR 0x0A # pipe @ '' '' @ hex_padded 4 (16 * k) @ '' '' @
      hex_half (take 8 ?xs) @ dump pipe (16 * k + length (take 8 ?xs)) (drop 8 ?xs)"
    using dump_half [of "16 * k" "take 8 ?xs" pipe "drop 8 ?xs"] by simp
  also have "dump pipe (16 * k + length (take 8 ?xs)) (drop 8 ?xs) =
      hex_half (take 8 (drop 8 ?xs)) @ dump pipe (16 * Suc k) (drop 16 ?xs)"
  proof (cases "drop 8 ?xs = []")
    case True
    then show ?thesis by (simp add: hex_half_def)
  next
    case False
    let ?ys = "take 8 (drop 8 ?xs)"
    have i: "16 * k + length (take 8 ?xs) = 16 * k + 8" using False by simp
    have "(16 * k + 8) mod 16 = 8" "(16 * k + 8) mod 8 = 0" by presburger+
    then have "dump pipe (16 * k + 8) (?ys @ drop 8 (drop 8 ?xs)) =
        hex_half ?ys @ dump pipe (16 * k + 8 + length ?ys) (drop 8 (drop 8 ?xs))"
      using False by (subst dump_half) auto
    moreover have "dump pipe (16 * k + 8 + length ?ys) (drop 16 ?xs) = dump pipe (16 * Suc k) (drop 16 ?xs)"
      by (cases "drop 16 ?xs = []") (simp, simp add: min_def)
    ultimately show ?thesis by (simp only: i append_take_drop_id) simp
  qed
  finally show ?case using "2.IH" by simp
qed simp

section \<open>Properties\<close>

text \<open>The hex dump of a buffer, a loop that decides at every byte what to print around it, is the
  layout of rows of sixteen bytes in two groups of eight, each row led by the prefix and its
  offset; a length beyond the buffer reads outside of it.\<close>

theorem hex_print_rows:
  "hex_print c (int (length c)) pipe = Some (hex_rows pipe 0 c @ [CHR 0x0A, CHR 0x0A]) \<and>
   hex_print c (int (length c) + 1) pipe = None"
proof -
  have "hex_print_loop c (int (length c) + 1) pipe i = None" if "i \<le> length c" for i
    using that
  proof (induction "length c - i" arbitrary: i)
    case 0
    then show ?case by (subst hex_print_loop.simps) (simp add: at_def)
  next
    case (Suc n)
    then have "hex_print_loop c (int (length c) + 1) pipe (Suc i) = None" by (intro Suc.hyps(1)) simp_all
    then show ?case using Suc.prems by (subst hex_print_loop.simps) simp
  qed
  then show ?thesis
    using dump_rows [of pipe 0 c] by (simp add: hex_print_def hex_print_loop_dump)
qed

end
