(* ===== verification/Main_Program.thy ===== *)
theory Main_Program
  imports Tcp_Proxy_Props
begin

text \<open>
  The program: \<^verbatim>\<open>app/main.cpp\<close>. The libraries that parse the command line (cxxopts) and the
  configuration (nlohmann::json) are parameters: \<open>cxx\<close> gives the outcome of the parse with the
  defaults of the code filled in, the record \<open>json_lib\<close> loads a file and reads an entry, \<open>None\<close>
  being an exception or undefined behaviour, which both end the program. The result says how the
  program ends, or which proxy runs in the event loop.
\<close>

section \<open>Arguments and configuration\<close>

definition TCP_PROXY :: int where
  "TCP_PROXY = 0"

definition UDP_PROXY :: int where
  "UDP_PROXY = 1"

record args =
  ar_config_file :: string
  ar_mode :: int
  ar_mode_info :: string

definition default_args :: args where
  "default_args = \<lparr>ar_config_file = ''etc/proxy.json'', ar_mode = TCP_PROXY, ar_mode_info = ''TCP_PROXY''\<rparr>"

datatype cxx_result = ParseError string | Parsed bool string string  \<comment> \<open>help, config, mode\<close>

type_synonym cxx_parser = "string list \<Rightarrow> cxx_result"

text \<open>An exit with its status, or the arguments.\<close>

definition parse_args :: "cxx_parser \<Rightarrow> string list \<Rightarrow> args \<Rightarrow> int + args" where
  "parse_args cxx argv args = (case cxx argv of
     ParseError e \<Rightarrow> Inl (- 1)
   | Parsed help config mode \<Rightarrow>
       if help then Inl 0
       else
         let args = args\<lparr>ar_config_file := config\<rparr>
         in Inr (if mode = ''udp'' then args\<lparr>ar_mode := UDP_PROXY, ar_mode_info := ''UDP_PROXY''\<rparr> else args))"

record 'j json_lib =
  js_load :: "string \<Rightarrow> 'j option"
  js_string :: "'j \<Rightarrow> string \<Rightarrow> string \<Rightarrow> string option"
  js_int :: "'j \<Rightarrow> string \<Rightarrow> string \<Rightarrow> int option"

definition load_config :: "'j json_lib \<Rightarrow> string \<Rightarrow> 'j option" where
  "load_config J filename = js_load J filename"

section \<open>The two proxies\<close>

definition tcp_proxy :: "addr_lib \<Rightarrow> 'j json_lib \<Rightarrow> 'j \<Rightarrow> tcp_proxy option" where
  "tcp_proxy A J jc = do {
     ip \<leftarrow> js_string J jc ''tcp.proxy'' ''self.ip'';
     port \<leftarrow> js_int J jc ''tcp.proxy'' ''self.port'';
     Some (TcpProxy_new A (c_str ip) port) }"

text \<open>The heap and libuv's state are those of \<open>io\<close>.\<close>

definition udp_proxy :: "addr_lib \<Rightarrow> 'j json_lib \<Rightarrow> 'j \<Rightarrow> ('u, 'w) io \<Rightarrow> 'u udp_proxy option" where
  "udp_proxy A J jc io = do {
     ip \<leftarrow> js_string J jc ''udp.proxy'' ''self.ip'';
     port \<leftarrow> js_int J jc ''udp.proxy'' ''self.port'';
     Some (UdpProxy_new A (c_str ip) port (io_next io) (io_uv io)) }"

datatype ('t, 'd) run = Exited int | Aborted | RunsTcp 't | RunsUdp 'd

definition main_start :: "'u libuv \<Rightarrow> addr_lib \<Rightarrow> 'j json_lib \<Rightarrow> buffer_mode \<Rightarrow> IPV \<Rightarrow> ('u, 'w) io \<Rightarrow> args \<Rightarrow>
    (('u, 'w) proxy_world, 'u udp_proxy) run" where
  "main_start L A J bm junk io args =
     (case load_config J (c_str (ar_config_file args)) of
        None \<Rightarrow> Aborted
      | Some jc \<Rightarrow>
          if ar_mode args = TCP_PROXY
          then (case do { p \<leftarrow> tcp_proxy A J jc; TcpProxy_start L bm junk io p } of
                  Some (r, w) \<Rightarrow> RunsTcp w | None \<Rightarrow> Aborted)
          else (case do { p \<leftarrow> udp_proxy A J jc io; UdpProxy_start L junk p } of
                  Some (r, w) \<Rightarrow> RunsUdp w | None \<Rightarrow> Aborted))"

definition main :: "'u libuv \<Rightarrow> addr_lib \<Rightarrow> cxx_parser \<Rightarrow> 'j json_lib \<Rightarrow> buffer_mode \<Rightarrow> IPV \<Rightarrow> ('u, 'w) io \<Rightarrow>
    string list \<Rightarrow> (('u, 'w) proxy_world, 'u udp_proxy) run" where
  "main L A cxx J bm junk io argv = (case parse_args cxx argv default_args of
     Inl status \<Rightarrow> Exited status | Inr args \<Rightarrow> main_start L A J bm junk io args)"

section \<open>Facts\<close>

lemma udp_start:
  "\<exists>w. UdpProxy_start L junk (UdpProxy_new A ip port n u) = Some (0, w) \<and> proxy_inv A w \<and>
     up_session w = Map.empty \<and> px_addr w = SocketAddr_of_ip A ip (of_int port) Ipv4 \<and>
     map_option us_on_message_callback (up_server w) = Some (Some ServerForward)"
proof -
  have "\<exists>s u'. UdpProxy_start L junk (UdpProxy_new A ip port n u) = Some (0, (UdpProxy_new A ip port n u)
      \<lparr>up_server := Some s, up_next := Suc n, up_uv := u'\<rparr>) \<and> us_on_message_callback s = Some ServerForward"
    by (auto simp: UdpProxy_start_def UdpProxy_new_def Proxy_new_def proxy.defs UdpSocket_defs SocketAddr_addr_def
        SocketAddr_of_ip_def Let_def split: prod.splits)
  moreover have "px_addr (UdpProxy_new A ip port n u) = SocketAddr_of_ip A ip (of_int port) Ipv4"
    by (simp add: UdpProxy_new_def Proxy_new_def proxy.defs)
  ultimately show ?thesis
    using proxy_inv_start [OF proxy_inv_new] by (fastforce simp: UdpProxy_new_def proxy.defs)
qed

text \<open>The handles of the timer wheel and of the acceptor are the first two of \<open>io\<close>.\<close>

lemma tcp_start:
  fixes io :: "('u, 'w) io"
  shows "\<exists>u rst w acc. TcpProxy_start L bm junk io (TcpProxy_new A ip port) = Some (0, w) \<and>
     sw_acceptor w = Some acc \<and> sw_connections w = [] \<and> sw_onMessageCallback w = Some ProxyMessage \<and>
     tp_session (sw_app w) = Map.empty \<and>
     fst (uv L (UvTcpBind (Suc (io_next io)) (uv_ip4_addr A (c_str ip) (of_int port))) u) = rst \<and>
     (rst \<noteq> 0 \<longrightarrow> \<not> ta_listened acc \<and> ta_callback acc = None) \<and>
     (rst = 0 \<longrightarrow> ta_callback acc = Some SrvOnAccept \<and>
        (\<exists>u'. ta_listened acc = (fst (uv L (UvListen (Suc (io_next io)) 128) u') = 0)))"
proof -
  define w0 where "w0 = TcpServer_set_message_callback (Some ProxyMessage)
    (TcpServer_new L bm junk True io (TcpProxy_new A ip port))"
  have w0: "sw_connections w0 = []" "sw_onMessageCallback w0 = Some ProxyMessage" "tp_session (sw_app w0) = Map.empty"
    "io_next (sw_io w0) = Suc (io_next io)" "tw_timeoutSec (sw_wheel w0) = 0"
    by (simp_all add: w0_def TcpServer_set_message_callback_def TcpServer_new_def TcpProxy_new_def
        proxy.defs TimerWheel_new_def Let_def split_beta)
  have addr: "px_addr (TcpProxy_new A ip port) = SocketAddr_of_ip A ip (of_int port) Ipv4"
    by (simp add: TcpProxy_new_def Proxy_new_def proxy.defs)
  let ?h = "Suc (io_next io)" and ?sa = "uv_ip4_addr A (c_str ip) (of_int port)"
  obtain acc :: "(srv_accept, proxy_cb) tcp_acceptor" and u0 where acc: "TcpAcceptor_new L ?h (sw_tcpNoDelay w0) (wuv w0) = (acc, u0)" by fastforce
  then have a: "ta_server acc = ?h" "\<not> ta_listened acc" "ta_callback acc = None"
    by (auto simp: TcpAcceptor_new_def Let_def)
  obtain rst u1 where bind: "uv L (UvTcpBind ?h ?sa) u0 = (rst, u1)" by fastforce
  have ls: "TcpProxy_start L bm junk io (TcpProxy_new A ip port) =
      do { (r, w) \<leftarrow> TcpServer_listen L (SocketAddr_of_ip A ip (of_int port) Ipv4) w0; Some (0, w) }"
    by (simp add: TcpProxy_start_def w0_def addr)
  let ?w = "w0\<lparr>sw_ipv := Ipv4, sw_io := (sw_io w0)\<lparr>io_next := Suc (io_next (sw_io w0))\<rparr>\<rparr>"
  show ?thesis
  proof (cases "rst = 0")
    case False
    then have "TcpProxy_start L bm junk io (TcpProxy_new A ip port) = Some (0, put_uv u1 ?w\<lparr>sw_acceptor := Some acc\<rparr>)"
      using w0 acc a bind
      by (simp add: ls TcpServer_listen_def TcpAcceptor_bind_def SocketAddr_of_ip_def
          SocketAddr_addr_def SocketAddr_ipv_def put_uv_def Let_def)
    then show ?thesis
      using w0 a bind False
      by (intro exI [of _ u0] exI [of _ rst] exI [of _ "put_uv u1 ?w\<lparr>sw_acceptor := Some acc\<rparr>"] exI [of _ acc])
        (simp add: put_uv_def)
  next
    case True
    obtain r2 u2 where lis: "uv L (UvListen ?h 128) u1 = (r2, u2)" by fastforce
    define acc' where "acc' = (if r2 = 0 then acc\<lparr>ta_callback := Some SrvOnAccept, ta_listened := True\<rparr>
      else acc\<lparr>ta_callback := Some SrvOnAccept\<rparr>)"
    have "TcpProxy_start L bm junk io (TcpProxy_new A ip port) =
        Some (0, put_uv u2 ?w\<lparr>sw_acceptor := Some acc', sw_wheel := sw_wheel w0\<rparr>)"
      using w0 acc a bind True lis
      by (simp add: ls TcpServer_listen_def TcpAcceptor_bind_def SocketAddr_of_ip_def acc'_def
          SocketAddr_addr_def SocketAddr_ipv_def TimerWheel_start_def TcpAcceptor_listen_def
          TcpAcceptor_set_new_connection_callback_def put_uv_def Let_def)
    moreover have "ta_listened acc' = (fst (uv L (UvListen ?h 128) u1) = 0)" "ta_callback acc' = Some SrvOnAccept"
      using a lis by (simp_all add: acc'_def)
    ultimately show ?thesis
      using w0 bind True
      by (intro exI [of _ u0] exI [of _ rst] exI [of _ acc']
          exI [of _ "put_uv u2 ?w\<lparr>sw_acceptor := Some acc', sw_wheel := sw_wheel w0\<rparr>"])
        (auto simp: put_uv_def)
  qed
qed

section \<open>Properties\<close>

text \<open>C31: The arguments select the proxy: a command line that does not parse ends the program with
  status -1, a request for help with 0; the mode \<^verbatim>\<open>udp\<close>, and only this spelling, runs the UDP proxy
  on the address of the entry \<^verbatim>\<open>udp.proxy\<close>, with no session and the forwarding callback; every
  other mode runs the TCP proxy, with no connection and the proxy's message callback.\<close>

theorem main_mode_selection:
  fixes io :: "('u, 'w) io"
  assumes "load_config J (c_str config) = Some jc"
    and "js_string J jc ''udp.proxy'' ''self.ip'' = Some uip" and "js_int J jc ''udp.proxy'' ''self.port'' = Some uport"
    and "js_string J jc ''tcp.proxy'' ''self.ip'' = Some tip" and "js_int J jc ''tcp.proxy'' ''self.port'' = Some tport"
  shows "main L A (\<lambda>_. ParseError e) J bm junk io argv = Exited (- 1) \<and>
    main L A (\<lambda>_. Parsed True config mode) J bm junk io argv = Exited 0 \<and>
    (mode = ''udp'' \<longrightarrow> (\<exists>w. main L A (\<lambda>_. Parsed False config mode) J bm junk io argv = RunsUdp w \<and>
       proxy_inv A w \<and> up_session w = Map.empty \<and>
       px_addr w = SocketAddr_of_ip A (c_str uip) (of_int uport) Ipv4 \<and>
       map_option us_on_message_callback (up_server w) = Some (Some ServerForward))) \<and>
    (mode \<noteq> ''udp'' \<longrightarrow> (\<exists>w. main L A (\<lambda>_. Parsed False config mode) J bm junk io argv = RunsTcp w \<and>
       sw_connections w = [] \<and> sw_onMessageCallback w = Some ProxyMessage \<and>
       tp_session (sw_app w) = Map.empty))"
proof -
  have "main_start L A J bm junk io (default_args\<lparr>ar_config_file := config, ar_mode := UDP_PROXY,
        ar_mode_info := ''UDP_PROXY''\<rparr>) =
      (case UdpProxy_start L junk (UdpProxy_new A (c_str uip) uport (io_next io) (io_uv io)) of
        Some (r, w) \<Rightarrow> RunsUdp w | None \<Rightarrow> Aborted)"
    using assms by (simp add: main_start_def udp_proxy_def TCP_PROXY_def UDP_PROXY_def)
  moreover have "main_start L A J bm junk io (default_args\<lparr>ar_config_file := config\<rparr>) =
      (case TcpProxy_start L bm junk io (TcpProxy_new A (c_str tip) tport) of
        Some (r, w) \<Rightarrow> RunsTcp w | None \<Rightarrow> Aborted)"
    using assms by (simp add: main_start_def tcp_proxy_def default_args_def)
  ultimately show ?thesis
    using udp_start [of L junk A "c_str uip" uport "io_next io" "io_uv io"] tcp_start [of L bm junk io A "c_str tip" tport]
    by (auto simp: main_def parse_args_def Let_def)
qed

text \<open>The configuration of \<^verbatim>\<open>etc/proxy.json\<close>.\<close>

definition demo_json :: "unit json_lib" where
  "demo_json = \<lparr>js_load = (\<lambda>f. if f = ''etc/proxy.json'' then Some () else None),
     js_string = (\<lambda>j a b. Some ''127.0.0.1''), js_int = (\<lambda>j a b. Some 4444)\<rparr>"

definition demo_main_io :: "(uv_call list, string) io" where
  "demo_main_io = \<lparr>io_uv = [], io_writes = [], io_shutdowns = [], io_next = 1\<rparr>"

theorem main_mode_selection_witness:
  "(\<exists>w. main trace_uv demo_addr_lib (\<lambda>_. Parsed False ''etc/proxy.json'' ''udp'') demo_json NoBuffer Ipv4
       demo_main_io [] = RunsUdp w) \<and>
   (\<exists>w. main trace_uv demo_addr_lib (\<lambda>_. Parsed False ''etc/proxy.json'' ''UDP'') demo_json NoBuffer Ipv4
       demo_main_io [] = RunsTcp w)"
proof -
  have j: "load_config demo_json (c_str ''etc/proxy.json'') = Some ()"
    "js_string demo_json () a b = Some ''127.0.0.1''" "js_int demo_json () a b = Some 4444" for a b
    by (simp_all add: load_config_def demo_json_def c_str_def)
  note m = main_mode_selection [OF j(1) j(2,3) j(2,3), where L = trace_uv and A = demo_addr_lib and
      bm = NoBuffer and junk = Ipv4 and io = demo_main_io and argv = "[]"]
  show ?thesis using m [where mode = "''udp''"] m [where mode = "''UDP''"] by auto
qed

text \<open>A failure to bind goes unnoticed: the result of \<^verbatim>\<open>listen\<close> is dropped by \<^verbatim>\<open>start\<close>, which returns 0,
  and that by \<^verbatim>\<open>main\<close>, which runs the event loop with a server that does not listen and whose
  acceptor would drop a client.\<close>

theorem main_ignores_bind_failure:
  fixes io :: "('u, 'w) io"
  assumes "load_config J (c_str config) = Some jc" and "mode \<noteq> ''udp''"
    and "js_string J jc ''tcp.proxy'' ''self.ip'' = Some ip" and "js_int J jc ''tcp.proxy'' ''self.port'' = Some port"
    and "\<And>h sa u. fst (uv L (UvTcpBind h sa) u) \<noteq> 0"
  shows "\<exists>w acc. main L A (\<lambda>_. Parsed False config mode) J bm junk io argv = RunsTcp w \<and>
    sw_acceptor w = Some acc \<and> \<not> TcpAcceptor_is_listen acc \<and>
    TcpAcceptor_on_new_connect client acc = [Release client]"
proof -
  obtain w acc where w: "TcpProxy_start L bm junk io (TcpProxy_new A (c_str ip) port) = Some (0, w)"
    "sw_acceptor w = Some acc" "\<not> ta_listened acc" "ta_callback acc = None"
    using tcp_start [of L bm junk io A "c_str ip" port] assms(5) by blast
  have "main_start L A J bm junk io (default_args\<lparr>ar_config_file := config\<rparr>) = RunsTcp w"
    using assms w(1) by (simp add: main_start_def tcp_proxy_def default_args_def)
  then show ?thesis
    using assms(2) w
    by (auto simp: main_def parse_args_def Let_def TcpAcceptor_is_listen_def TcpAcceptor_on_new_connect_def)
qed

definition busy_port_uv :: "uv_call list libuv" where
  "busy_port_uv = trace_uv\<lparr>uv := \<lambda>c tr. (case c of UvTcpBind h sa \<Rightarrow> (- 98, c # tr) | _ \<Rightarrow> (0, c # tr))\<rparr>"

theorem main_ignores_bind_failure_witness:
  "\<exists>w acc. main busy_port_uv demo_addr_lib (\<lambda>_. Parsed False ''etc/proxy.json'' ''tcp'') demo_json NoBuffer Ipv4
     demo_main_io [] = RunsTcp w \<and> sw_acceptor w = Some acc \<and> \<not> TcpAcceptor_is_listen acc"
proof -
  have j: "load_config demo_json (c_str ''etc/proxy.json'') = Some ()"
    "js_string demo_json () a b = Some ''127.0.0.1''" "js_int demo_json () a b = Some 4444" for a b
    by (simp_all add: load_config_def demo_json_def c_str_def)
  have "fst (uv busy_port_uv (UvTcpBind h sa) u) \<noteq> 0" for h sa u by (simp add: busy_port_uv_def)
  from main_ignores_bind_failure [OF j(1) _ j(2,3) this, of "''tcp''" demo_addr_lib NoBuffer Ipv4 demo_main_io "[]" 0]
  show ?thesis by blast
qed

end
