(* ===== verification/Msgpack_Packer.thy ===== *)
theory Msgpack_Packer
  imports Msgpack
begin

text \<open>
  The packing half of the msgpack library, which the test clients use (\<^verbatim>\<open>tests/test_udp_client.cpp\<close>,
  \<^verbatim>\<open>tests/test_tcp_client.cpp\<close>). Like the decoder it is a parameter: the record \<open>packer\<close> gives the bytes
  each call appends to the buffer, and \<open>packer_law\<close> states what the format is for, that an object is
  read back where it was packed. A packer and a decoder that satisfy the law use one fixed form for
  the integers and one for the strings.
\<close>

record packer =
  pack_int :: "32 word \<Rightarrow> byte list"
  pack_str :: "nat \<Rightarrow> byte list"
  pack_str_body :: "byte list \<Rightarrow> byte list"

text \<open>The bytes of a string.\<close>

definition bytes_of :: "string \<Rightarrow> byte list" where
  "bytes_of s = map (\<lambda>c. of_nat (of_char c)) s"

lemma length_bytes_of [simp]: "length (bytes_of s) = length s"
  by (simp add: bytes_of_def)

lemma chars_bytes_of [simp]: "chars (bytes_of s) = s"
proof -
  have "char_of (unat (of_nat (of_char c) :: byte)) = c" for c
    by (simp add: unat_of_nat)
  then show ?thesis by (simp add: chars_def bytes_of_def map_idI)
qed

text \<open>An item of a message with the bytes the calls for it append, and the object it stands for. Lengths
  of strings are limited to 32 bits by the format.\<close>

datatype item = IInt "32 word" | IStr "byte list"

fun pack_item :: "packer \<Rightarrow> item \<Rightarrow> byte list" where
  "pack_item P (IInt i) = pack_int P i"
| "pack_item P (IStr s) = pack_str P (length s) @ pack_str_body P s"

fun item_obj :: "item \<Rightarrow> msgobj" where
  "item_obj (IInt i) = MInt (scast i)"
| "item_obj (IStr s) = MStr s"

fun item_fits :: "item \<Rightarrow> bool" where
  "item_fits (IInt i) = True"
| "item_fits (IStr s) = (length s < 2 ^ 32)"

definition packer_law :: "packer \<Rightarrow> decoder \<Rightarrow> bool" where
  "packer_law P dec \<longleftrightarrow> decoder_law dec \<and> (\<forall>x pre post. item_fits x \<longrightarrow>
     dec (pre @ pack_item P x @ post) (length pre) = Some (item_obj x, length pre + length (pack_item P x)))"

lemma packer_law_decoder: "packer_law P dec \<Longrightarrow> decoder_law dec"
  by (simp add: packer_law_def)

lemma packer_law_item:
  "packer_law P dec \<Longrightarrow> item_fits x \<Longrightarrow>
   dec (pre @ pack_item P x @ post) (length pre) = Some (item_obj x, length pre + length (pack_item P x))"
  by (simp add: packer_law_def)

lemma pack_item_nonempty:
  assumes "packer_law P dec" "item_fits x"
  shows "0 < length (pack_item P x)"
  using packer_law_item [OF assms, of "[]" "[]"] packer_law_decoder [OF assms(1)]
  unfolding decoder_law_def by fastforce

text \<open>Items packed one after the other are read back as their objects.\<close>

lemma objects_from_packed:
  assumes law: "packer_law P dec" and "\<forall>x \<in> set xs. item_fits x" and "length xs \<le> n"
  shows "objects_from dec (pre @ concat (map (pack_item P) xs)) n (length pre) = map item_obj xs"
  using assms(2,3)
proof (induction xs arbitrary: pre n)
  case Nil
  have "dec pre (length pre) = None"
  proof (rule ccontr)
    assume "dec pre (length pre) \<noteq> None"
    then obtain obj offset' where "dec pre (length pre) = Some (obj, offset')" by auto
    then show False using packer_law_decoder [OF law] by (fastforce simp: decoder_law_def)
  qed
  then show ?case by (cases n) simp_all
next
  case (Cons x xs)
  then obtain m where m: "n = Suc m" "length xs \<le> m" by (cases n) auto
  have "objects_from dec ((pre @ pack_item P x) @ concat (map (pack_item P) xs)) m
      (length (pre @ pack_item P x)) = map item_obj xs"
    using Cons m by (intro Cons.IH) simp_all
  then show ?case
    using packer_law_item [OF law, of x pre "concat (map (pack_item P) xs)"] Cons.prems m by simp
qed

lemma objects_packed:
  assumes law: "packer_law P dec" and fits: "\<forall>x \<in> set xs. item_fits x"
  shows "objects dec (concat (map (pack_item P) xs)) = map item_obj xs"
proof -
  have "length xs \<le> length (concat (map (pack_item P) xs))"
    using fits
  proof (induction xs)
    case (Cons x xs)
    then show ?case using add_mono [OF Suc_leI [OF pack_item_nonempty [OF law, of x]] Cons.IH] by simp
  qed simp
  from objects_from_packed [OF law fits this, of "[]"] show ?thesis by (simp add: objects_def)
qed

section \<open>A packer and a decoder\<close>

text \<open>Four bytes, most significant first.\<close>

definition be4 :: "32 word \<Rightarrow> byte list" where
  "be4 w = [ucast (drop_bit 24 w), ucast (drop_bit 16 w), ucast (drop_bit 8 w), ucast w]"

definition of_be4 :: "byte list \<Rightarrow> 32 word" where
  "of_be4 bs = (case bs of [a, b, c, d] \<Rightarrow>
     push_bit 24 (ucast a) OR push_bit 16 (ucast b) OR push_bit 8 (ucast c) OR ucast d | _ \<Rightarrow> 0)"

lemma length_be4 [simp]: "length (be4 w) = 4"
  by (simp add: be4_def)

lemma of_be4_be4 [simp]: "of_be4 (be4 w) = w"
proof (rule bit_word_eqI)
  fix n assume "n < LENGTH(32)"
  then show "bit (of_be4 (be4 w)) n \<longleftrightarrow> bit w n"
    by (cases "n < 8"; cases "n < 16"; cases "n < 24") (auto simp: of_be4_def be4_def bit_simps)
qed

text \<open>The 32-bit integer form \<^verbatim>\<open>d2\<close> and the string form \<^verbatim>\<open>db\<close> of the format.\<close>

definition wide_packer :: packer where
  "wide_packer = \<lparr>pack_int = (\<lambda>i. 0xd2 # be4 i), pack_str = (\<lambda>n. 0xdb # be4 (of_nat n)), pack_str_body = (\<lambda>s. s)\<rparr>"

definition wide_decoder :: decoder where
  "wide_decoder buffer offset = (case drop offset buffer of
     [] \<Rightarrow> None
   | b # rest \<Rightarrow>
       if length rest < 4 then None
       else if b = 0xd2 then Some (MInt (scast (of_be4 (take 4 rest))), offset + 5)
       else if b = 0xdb then
         (let n = unat (of_be4 (take 4 rest)) in
          if n \<le> length rest - 4 then Some (MStr (take n (drop 4 rest)), offset + 5 + n) else None)
       else None)"

lemma wide_decoder_law: "decoder_law wide_decoder"
proof -
  have "Suc (length rest) = length buffer - offset" if "drop offset buffer = b # rest"
    for buffer rest :: "byte list" and b offset
    using arg_cong [OF that, of length] by simp
  then show ?thesis
    by (fastforce simp: decoder_law_def wide_decoder_def Let_def split: list.splits if_splits)
qed

lemma wide_packer_law: "packer_law wide_packer wide_decoder"
proof -
  have "wide_decoder (pre @ pack_item wide_packer x @ post) (length pre) =
      Some (item_obj x, length pre + length (pack_item wide_packer x))" if "item_fits x" for x pre post
  proof (cases x)
    case (IStr s)
    then have "unat (of_nat (length s) :: 32 word) = length s" using that by (simp add: unat_of_nat)
    then show ?thesis using IStr by (simp add: wide_decoder_def wide_packer_def Let_def)
  qed (simp add: wide_decoder_def wide_packer_def)
  then show ?thesis using wide_decoder_law by (simp add: packer_law_def)
qed

end
