(* ===== verification/Test_Clients.thy ===== *)
theory Test_Clients
  imports Msgpack_Packer Udp_Socket Timer Tcp_Client_Moves
begin

text \<open>
  The test clients: \<^verbatim>\<open>tests/test_udp_client.cpp\<close> and \<^verbatim>\<open>tests/test_tcp_client.cpp\<close>. Each is a program of
  one socket and one timer: the callback of the timer packs a message for the proxy and sends it.
  The options the command line gives are an argument (cxxopts is a library outside the repository).
  What the callbacks print is left out.
\<close>

section \<open>Options\<close>

record client_args =
  ca_proxy_ip :: string
  ca_proxy_port :: int
  ca_real_ip :: string
  ca_real_port :: int

datatype client_options = OptionError string | OptionHelp | Options client_args

text \<open>What a test program comes to: it ends with a status, or it runs its event loop in a state.\<close>

datatype 's test_run = TestExit int | TestRuns 's

definition MESSAGE :: string where
  "MESSAGE = ''hello''"

definition MSG_LEN :: nat where
  "MSG_LEN = 5"

text \<open>The bytes of the message, with the terminator behind them.\<close>

definition message_bytes :: "byte list" where
  "message_bytes = bytes_of MESSAGE @ [0]"

datatype print_cb = PrintMessage
datatype tick_cb = ClientTick

section \<open>The UDP client\<close>

record udp_client =
  uc_socket :: "(print_cb, unit) udp_socket"
  uc_timer :: "tick_cb timer"
  uc_proxy_addr :: socket_addr
  uc_real_ip :: string
  uc_real_port :: int
  uc_buffer :: "byte list"

text \<open>The socket takes the address \<open>h\<close>, the handle of the timer the next one; the port of the address
  is cut to 16 bits. Results of libuv are not looked at.\<close>

definition udp_client_main ::
    "'u libuv \<Rightarrow> addr_lib \<Rightarrow> client_options \<Rightarrow> IPV \<Rightarrow> hid \<Rightarrow> 'u \<Rightarrow> (udp_client test_run \<times> 'u) option" where
  "udp_client_main L A opts junk h u = (case opts of
     OptionError msg \<Rightarrow> Some (TestExit (- 1), u)
   | OptionHelp \<Rightarrow> Some (TestExit 0, u)
   | Options a \<Rightarrow> do {
       let proxy_addr = SocketAddr_of_ip A (ca_proxy_ip a) (of_int (ca_proxy_port a)) Ipv4;
       let (s, u) = UdpSocket_new L h junk u;
       let s = UdpSocket_set_message_callback (Some PrintMessage) s;
       let (rst, u) = UdpSocket_try_read L s u;
       let (t, u) = Timer_new L (Suc h) 1000 1000 (Some ClientTick) u;
       (t, u) \<leftarrow> Timer_start L (t, u);
       Some (TestRuns \<lparr>uc_socket = s, uc_timer = t, uc_proxy_addr = proxy_addr, uc_real_ip = ca_real_ip a,
         uc_real_port = ca_real_port a, uc_buffer = []\<rparr>, u) })"

definition udp_client_message :: "packer \<Rightarrow> string \<Rightarrow> int \<Rightarrow> byte list" where
  "udp_client_message P real_ip real_port =
     pack_str P (length real_ip) @ pack_str_body P (bytes_of real_ip) @
     pack_int P (of_int real_port) @
     pack_str P MSG_LEN @ pack_str_body P (take MSG_LEN message_bytes)"

text \<open>The callback of the timer: the buffer is cleared and filled, and sent; \<open>r\<close> is the new request.\<close>

definition udp_client_tick ::
    "'u libuv \<Rightarrow> packer \<Rightarrow> rid \<Rightarrow> udp_client \<Rightarrow> 'u \<Rightarrow> (udp_client \<times> 'u) option" where
  "udp_client_tick L P r c u = do {
     let c = c\<lparr>uc_buffer := udp_client_message P (uc_real_ip c) (uc_real_port c)\<rparr>;
     (rst, u) \<leftarrow> UdpSocket_send L r (uc_socket c) (uc_proxy_addr c) (uc_buffer c) u;
     Some (c, u) }"

section \<open>The TCP client\<close>

definition CONNECTING :: int where
  "CONNECTING = 1000"

definition CONNECTED :: int where
  "CONNECTED = 1001"

datatype status_cb = ClientStatus

record ('u, 'w) tcp_test =
  tt_client :: "(status_cb, print_cb, unit) tcp_client"
  tt_io :: "('u, 'w) client_io"
  tt_timer :: "tick_cb timer"
  tt_status :: int
  tt_command :: int
  tt_real_ip :: string
  tt_real_port :: int
  tt_buffer :: "byte list"

text \<open>The connect request takes the next free address, the timer's handle the one after the socket's.\<close>

definition tcp_client_main ::
    "'u libuv \<Rightarrow> addr_lib \<Rightarrow> client_options \<Rightarrow> ('u, 'w) client_io \<Rightarrow>
     (('u, 'w) tcp_test test_run \<times> ('u, 'w) client_io) option" where
  "tcp_client_main L A opts io = (case opts of
     OptionError msg \<Rightarrow> Some (TestExit (- 1), io)
   | OptionHelp \<Rightarrow> Some (TestExit 0, io)
   | Options a \<Rightarrow> do {
       let proxy_addr = SocketAddr_of_ip A (ca_proxy_ip a) (of_int (ca_proxy_port a)) Ipv4;
       let r = io_next (ci_io io);
       let io = io\<lparr>ci_io := (ci_io io)\<lparr>io_next := Suc r\<rparr>\<rparr>;
       let cl = TcpClient_set_connect_status_callback (Some ClientStatus) (TcpClient_new r True);
       let cl = TcpClient_set_message_callback (Some PrintMessage) cl;
       (cl, io) \<leftarrow> TcpClient_connect L proxy_addr (cl, io);
       let h = io_next (ci_io io);
       let (t, u) = Timer_new L h 1000 1000 (Some ClientTick) (cuv io);
       (t, u) \<leftarrow> Timer_start L (t, u);
       let io = (with_uv u io)\<lparr>ci_io := (ci_io (with_uv u io))\<lparr>io_next := Suc h\<rparr>\<rparr>;
       Some (TestRuns \<lparr>tt_client = cl, tt_io = io, tt_timer = t, tt_status = CONNECTING, tt_command = 0x00,
         tt_real_ip = ca_real_ip a, tt_real_port = ca_real_port a, tt_buffer = []\<rparr>, io) })"

text \<open>The status callback.\<close>

definition tcp_client_status :: "connect_status \<Rightarrow> ('u, 'w) tcp_test \<Rightarrow> ('u, 'w) tcp_test" where
  "tcp_client_status status t = (if status = ConnectSuccess then t\<lparr>tt_status := CONNECTED\<rparr> else t)"

text \<open>The calls of the client: a message or a log is printed.\<close>

fun tcp_client_calls ::
    "(status_cb, print_cb, unit, 'w) client_call list \<Rightarrow> ('u, 'w) tcp_test \<Rightarrow> ('u, 'w) tcp_test" where
  "tcp_client_calls [] t = t"
| "tcp_client_calls (CallStatus s status # cs) t = tcp_client_calls cs (tcp_client_status status t)"
| "tcp_client_calls (_ # cs) t = tcp_client_calls cs t"

definition tcp_client_message :: "packer \<Rightarrow> int \<Rightarrow> string \<Rightarrow> int \<Rightarrow> byte list" where
  "tcp_client_message P command real_ip real_port =
     pack_int P (of_int command) @
     pack_str P (length real_ip) @ pack_str_body P (bytes_of real_ip) @
     pack_int P (of_int real_port) @
     pack_str P MSG_LEN @ pack_str_body P (take MSG_LEN message_bytes)"

text \<open>The callback of the timer.\<close>

definition tcp_client_tick :: "'u libuv \<Rightarrow> packer \<Rightarrow> ('u, 'w) tcp_test \<Rightarrow> ('u, 'w) tcp_test" where
  "tcp_client_tick L P t =
     (if tt_status t = CONNECTING then t
      else let t = t\<lparr>tt_buffer := []\<rparr> in
        if tt_command t = 0x00
        then let t = t\<lparr>tt_buffer := tcp_client_message P (tt_command t) (tt_real_ip t) (tt_real_port t)\<rparr>;
                 (rst, (cl, io), cs) = TcpClient_write L (tt_buffer t) None (tt_client t, tt_io t)
             in tcp_client_calls cs (t\<lparr>tt_client := cl, tt_io := io, tt_command := 0x01\<rparr>)
        else t)"

datatype tcp_test_input = Tick | Link client_event

definition tcp_test_event ::
    "'u libuv \<Rightarrow> addr_lib \<Rightarrow> buffer_mode \<Rightarrow> packer \<Rightarrow> tcp_test_input \<Rightarrow> ('u, 'w) tcp_test \<Rightarrow>
     ('u, 'w) tcp_test option" where
  "tcp_test_event L A mode P e t = (case e of
     Tick \<Rightarrow> Some (fold (\<lambda>k. case k of ClientTick \<Rightarrow> tcp_client_tick L P) (Timer_process (tt_timer t)) t)
   | Link x \<Rightarrow> do {
       ((cl, io), cs) \<leftarrow> TcpClient_event L A mode x (tt_client t, tt_io t);
       Some (tcp_client_calls cs (t\<lparr>tt_client := cl, tt_io := io\<rparr>)) })"

fun tcp_test_run ::
    "'u libuv \<Rightarrow> addr_lib \<Rightarrow> buffer_mode \<Rightarrow> packer \<Rightarrow> tcp_test_input list \<Rightarrow> ('u, 'w) tcp_test \<Rightarrow>
     ('u, 'w) tcp_test option" where
  "tcp_test_run L A mode P [] t = Some t"
| "tcp_test_run L A mode P (e # es) t =
     do { t \<leftarrow> tcp_test_event L A mode P e t; tcp_test_run L A mode P es t }"

section \<open>Messages\<close>

lemma message_bytes: "take MSG_LEN message_bytes = bytes_of ''hello''"
  by (simp add: message_bytes_def MSG_LEN_def MESSAGE_def bytes_of_def)

lemma udp_message_items:
  "udp_client_message P ip port =
     concat (map (pack_item P) [IStr (bytes_of ip), IInt (of_int port), IStr (bytes_of ''hello'')])"
  by (simp add: udp_client_message_def message_bytes) (simp add: MSG_LEN_def numeral_eq_Suc)

lemma tcp_message_items:
  "tcp_client_message P command ip port =
     concat (map (pack_item P) [IInt (of_int command), IStr (bytes_of ip), IInt (of_int port), IStr (bytes_of ''hello'')])"
  by (simp add: tcp_client_message_def message_bytes) (simp add: MSG_LEN_def numeral_eq_Suc)

lemma udp_message_objects:
  assumes "packer_law P dec" "length ip < 2 ^ 32"
  shows "objects dec (udp_client_message P ip port) =
    [MStr (bytes_of ip), MInt (scast (of_int port :: 32 word)), MStr (bytes_of ''hello'')]"
  unfolding udp_message_items using assms(2) by (subst objects_packed [OF assms(1)]) simp_all

lemma tcp_message_objects:
  assumes "packer_law P dec" "length ip < 2 ^ 32"
  shows "objects dec (tcp_client_message P command ip port) =
    [MInt (scast (of_int command :: 32 word)), MStr (bytes_of ip), MInt (scast (of_int port :: 32 word)),
     MStr (bytes_of ''hello'')]"
  unfolding tcp_message_items using assms(2) by (subst objects_packed [OF assms(1)]) simp_all

lemma ucast_scast_int [simp]: "ucast (scast (w :: 32 word) :: 64 word) = w"
  by (rule bit_word_eqI) (simp add: bit_simps)

section \<open>What the TCP client sends\<close>

lemma tcp_client_calls_eq:
  "\<exists>st \<in> {tt_status t, CONNECTED}. tcp_client_calls cs t = t\<lparr>tt_status := st\<rparr>"
proof (induction cs arbitrary: t)
  case (Cons c cs)
  show ?case
  proof (cases "\<exists>s. c = CallStatus s ConnectSuccess")
    case True
    then show ?thesis using Cons.IH [of "t\<lparr>tt_status := CONNECTED\<rparr>"] by (auto simp: tcp_client_status_def)
  next
    case False
    then have "tcp_client_calls (c # cs) t = tcp_client_calls cs t"
      by (cases c) (auto simp: tcp_client_status_def)
    then show ?thesis using Cons.IH [of t] by simp
  qed
qed simp

lemma tcp_client_calls_sel [simp]:
  "tt_client (tcp_client_calls cs t) = tt_client t" "tt_io (tcp_client_calls cs t) = tt_io t"
  "tt_command (tcp_client_calls cs t) = tt_command t"
  "tt_real_ip (tcp_client_calls cs t) = tt_real_ip t" "tt_real_port (tcp_client_calls cs t) = tt_real_port t"
proof -
  obtain st where "tcp_client_calls cs t = t\<lparr>tt_status := st\<rparr>" using tcp_client_calls_eq by blast
  note e = this
  show "tt_client (tcp_client_calls cs t) = tt_client t" "tt_io (tcp_client_calls cs t) = tt_io t"
    "tt_command (tcp_client_calls cs t) = tt_command t"
    "tt_real_ip (tcp_client_calls cs t) = tt_real_ip t" "tt_real_port (tcp_client_calls cs t) = tt_real_port t"
    unfolding e by simp_all
qed

lemma tcp_client_calls_status: "tt_status (tcp_client_calls cs t) \<in> {tt_status t, CONNECTED}"
proof -
  obtain st where st: "st \<in> {tt_status t, CONNECTED}" "tcp_client_calls cs t = t\<lparr>tt_status := st\<rparr>"
    using tcp_client_calls_eq by blast
  show ?thesis using st(1) unfolding st(2) by simp
qed

text \<open>Calls of libuv of which exactly one writes, and it writes \<open>m\<close>, its
  size as a 32-bit number.\<close>

definition sent_once :: "'u libuv \<Rightarrow> byte list \<Rightarrow> 'u \<Rightarrow> 'u \<Rightarrow> bool" where
  "sent_once L m u u' \<longleftrightarrow> (\<exists>u1 r h. calls_by L silent u u1 \<and> calls_by L silent (uv_do L (UvWrite r h (uv_buf m)) u1) u')"

lemma sent_once_trans: "sent_once L m u u1 \<Longrightarrow> calls_by L silent u1 u2 \<Longrightarrow> sent_once L m u u2"
  unfolding sent_once_def by (meson calls_by_trans)

definition tcp_test_inv :: "'u libuv \<Rightarrow> byte list \<Rightarrow> 'u \<Rightarrow> ('u, 'w) tcp_test \<Rightarrow> bool" where
  "tcp_test_inv L m u t \<longleftrightarrow> tt_status t \<in> {CONNECTING, CONNECTED} \<and>
     (if tt_command t = 0 then calls_by L silent u (cuv (tt_io t))
      else tt_command t = 1 \<and> tt_status t = CONNECTED \<and>
        (calls_by L silent u (cuv (tt_io t)) \<or> sent_once L m u (cuv (tt_io t))))"

lemma client_write_calls:
  fixes s :: "('s, 'n, 'x, 'u, 'w) client_state"
  assumes "TcpClient_write L m f s = (rst, s', cs)"
  shows "cuv (snd s') = cuv (snd s) \<or> (\<exists>r h. cuv (snd s') = uv_do L (UvWrite r h (uv_buf m)) (cuv (snd s)))"
proof (cases "\<exists>c. cl_connection (fst s) = Some c \<and> tc_connected c")
  case True
  then obtain c where "cl_connection (fst s) = Some c" "tc_connected c" by blast
  then have "cuv (snd s') = uv_do L (UvWrite (io_next (ci_io (snd s))) (tc_handle c) (uv_buf m)) (cuv (snd s))"
    using assms by (cases s) (auto simp: TcpClient_write_def TcpConnection_write_def Let_def uv_do_def
        split: prod.splits if_splits)
  then show ?thesis by blast
next
  case False
  then show ?thesis
    using assms by (cases s) (auto simp: TcpClient_write_def TcpConnection_write_def Let_def split: option.splits)
qed

lemma tcp_client_tick_inv:
  assumes "tcp_test_inv L (tcp_client_message P 0 (tt_real_ip t) (tt_real_port t)) u t"
  shows "tcp_test_inv L (tcp_client_message P 0 (tt_real_ip t) (tt_real_port t)) u (tcp_client_tick L P t) \<and>
    tt_real_ip (tcp_client_tick L P t) = tt_real_ip t \<and> tt_real_port (tcp_client_tick L P t) = tt_real_port t"
proof (cases "tt_status t = CONNECTING \<or> tt_command t \<noteq> 0")
  case True
  then show ?thesis using assms by (auto simp: tcp_client_tick_def tcp_test_inv_def)
next
  case False
  define m where "m = tcp_client_message P 0 (tt_real_ip t) (tt_real_port t)"
  obtain rst cl io cs where wr: "TcpClient_write L m None (tt_client t, tt_io t) = (rst, (cl, io), cs)"
    by (metis surj_pair)
  have tick: "tcp_client_tick L P t =
      tcp_client_calls cs (t\<lparr>tt_buffer := m, tt_client := cl, tt_io := io, tt_command := 1\<rparr>)"
    using False wr by (simp add: tcp_client_tick_def m_def)
  have st: "tt_status t = CONNECTED" "calls_by L silent u (cuv (tt_io t))"
    using False assms by (auto simp: tcp_test_inv_def)
  then have "tt_status (tcp_client_tick L P t) = CONNECTED"
    using tcp_client_calls_status [of cs "t\<lparr>tt_buffer := m, tt_client := cl, tt_io := io, tt_command := 1\<rparr>"]
    by (simp add: tick)
  moreover have "calls_by L silent u (cuv io) \<or> sent_once L m u (cuv io)"
    using client_write_calls [OF wr] st(2) unfolding sent_once_def by (metis calls_by_refl snd_conv)
  ultimately show ?thesis by (simp add: tick tcp_test_inv_def m_def)
qed

lemma tcp_test_event_inv:
  fixes t :: "('u, 'w) tcp_test"
  assumes laws: "uv_laws L" and ev: "tcp_test_event L A mode P e t = Some t'"
    and inv: "tcp_test_inv L (tcp_client_message P 0 (tt_real_ip t) (tt_real_port t)) u t"
  shows "tcp_test_inv L (tcp_client_message P 0 (tt_real_ip t) (tt_real_port t)) u t' \<and>
    tt_real_ip t' = tt_real_ip t \<and> tt_real_port t' = tt_real_port t"
proof (cases e)
  case Tick
  let ?Q = "\<lambda>s :: ('u, 'w) tcp_test. tcp_test_inv L (tcp_client_message P 0 (tt_real_ip t) (tt_real_port t)) u s \<and>
    tt_real_ip s = tt_real_ip t \<and> tt_real_port s = tt_real_port t"
  have step: "?Q s \<Longrightarrow> ?Q (tcp_client_tick L P s)" for s :: "('u, 'w) tcp_test"
    using tcp_client_tick_inv [of L P s u] by auto
  have folds: "?Q s \<Longrightarrow> ?Q (fold (case_tick_cb (tcp_client_tick L P)) ks s)" for ks and s :: "('u, 'w) tcp_test"
  proof (induction ks arbitrary: s)
    case (Cons k ks)
    moreover have "k = ClientTick" by (cases k)
    ultimately show ?case using step [of s] by simp
  qed simp
  show ?thesis using folds [of t "Timer_process (tt_timer t)"] ev inv Tick by (simp add: tcp_test_event_def)
next
  case (Link x)
  then obtain cl io cs where c: "TcpClient_event L A mode x (tt_client t, tt_io t) = Some ((cl, io), cs)"
    and t': "t' = tcp_client_calls cs (t\<lparr>tt_client := cl, tt_io := io\<rparr>)"
    using ev by (auto simp: tcp_test_event_def split: Option.bind_splits)
  have "client_moves L (tt_client t, tt_io t) (cl, io)" using client_event_moves [OF laws c] by simp
  then have "calls_by L silent (cuv (tt_io t)) (cuv io)" using client_movesD(9) by fastforce
  then show ?thesis
    using inv tcp_client_calls_status [of cs "t\<lparr>tt_client := cl, tt_io := io\<rparr>"]
      calls_by_trans [of L silent u "cuv (tt_io t)" "cuv io"]
      sent_once_trans [of L "tcp_client_message P 0 (tt_real_ip t) (tt_real_port t)" u "cuv (tt_io t)" "cuv io"]
    by (auto simp: tcp_test_inv_def t' split: if_splits)
qed

lemma tcp_test_run_inv:
  assumes "uv_laws L" "tcp_test_run L A mode P es t = Some t'"
    and "tcp_test_inv L (tcp_client_message P 0 (tt_real_ip t) (tt_real_port t)) u t"
  shows "tcp_test_inv L (tcp_client_message P 0 (tt_real_ip t) (tt_real_port t)) u t' \<and>
    tt_real_ip t' = tt_real_ip t \<and> tt_real_port t' = tt_real_port t"
  using assms(2,3)
proof (induction es arbitrary: t)
  case (Cons e es)
  then obtain t1 where "tcp_test_event L A mode P e t = Some t1" "tcp_test_run L A mode P es t1 = Some t'"
    by (auto split: Option.bind_splits)
  with tcp_test_event_inv [OF assms(1) this(1) Cons.prems(2)] Cons.IH [of t1] show ?case by auto
qed simp

lemma tcp_client_main_state:
  assumes "tcp_client_main L A (Options a) io = Some (TestRuns t, io')"
  shows "tt_status t = CONNECTING" "tt_command t = 0" "tt_io t = io'" "tt_real_ip t = ca_real_ip a"
    "tt_real_port t = ca_real_port a" "tm_callback (tt_timer t) = Some ClientTick"
  using assms
  by (auto simp: tcp_client_main_def Timer_defs Let_def split: Option.bind_splits prod.splits)

text \<open>C21: The TCP client sends its bind message once. In every run of the program, over any sequence of
  turns of the timer and events of its socket, the calls made of libuv write nothing to a
  connection but, at most once, the message with the command 0x00, the real server's address and
  port and the text, whole as far as its size fits into the 32 bits of the parameter (any message
  below 4 GiB does); and not before the client has been told that it is connected.\<close>

theorem tcp_client_sends_once:
  assumes "uv_laws L" and "tcp_client_main L A (Options a) io = Some (TestRuns t0, io0)"
    and "tcp_test_run L A mode P es t0 = Some t"
  shows "calls_by L silent (cuv io0) (cuv (tt_io t)) \<or>
    tt_status t = CONNECTED \<and> tt_command t = 0x01 \<and>
    (\<exists>u r h. calls_by L silent (cuv io0) u \<and>
      calls_by L silent (uv_do L (UvWrite r h (uv_buf (tcp_client_message P 0x00 (ca_real_ip a) (ca_real_port a)))) u)
        (cuv (tt_io t)))"
proof -
  note m = tcp_client_main_state [OF assms(2)]
  have "tcp_test_inv L (tcp_client_message P 0 (tt_real_ip t0) (tt_real_port t0)) (cuv io0) t0"
    using m by (simp add: tcp_test_inv_def)
  from tcp_test_run_inv [OF assms(1,3) this] show ?thesis
    by (auto simp: tcp_test_inv_def sent_once_def m split: if_splits)
qed

definition demo_options :: client_args where
  "demo_options = \<lparr>ca_proxy_ip = dotted 127 0 0 1, ca_proxy_port = 4444, ca_real_ip = dotted 127 0 0 1,
     ca_real_port = 5555\<rparr>"

definition demo_client_io :: "(uv_call list, string) client_io" where
  "demo_client_io = \<lparr>ci_io = \<lparr>io_uv = [], io_writes = [], io_shutdowns = [], io_next = 1\<rparr>, ci_connects = [],
     ci_open = [], ci_reading = []\<rparr>"

lemma trace_calls: "calls_by trace_uv P u u' \<Longrightarrow> set u' \<subseteq> set u \<union> Collect P"
proof -
  have "fold (uv_do trace_uv) cs u = rev cs @ u" for cs u
    by (induction cs arbitrary: u) (simp_all add: uv_do_def trace_uv_def)
  then show "calls_by trace_uv P u u' \<Longrightarrow> set u' \<subseteq> set u \<union> Collect P"
    by (auto simp: calls_by_def)
qed

definition demo_test :: "(uv_call list, string) tcp_test \<times> (uv_call list, string) client_io" where
  "demo_test = (case tcp_client_main trace_uv demo_addr_lib (Options demo_options) demo_client_io of
     Some (TestRuns t, io) \<Rightarrow> (t, io))"

definition demo_test_end :: "(uv_call list, string) tcp_test" where
  "demo_test_end = the (tcp_test_run trace_uv demo_addr_lib NoBuffer wide_packer
     [Tick, Link (ConnectDone 1 0), Tick, Tick] (fst demo_test))"

definition writes :: "uv_call \<Rightarrow> bool" where
  "writes c = (case c of UvWrite r h b \<Rightarrow> True | _ \<Rightarrow> False)"

lemma writes_silent: "writes c \<longleftrightarrow> \<not> silent c"
  by (cases c) (simp_all add: writes_def silent_def)

theorem tcp_client_sends_once_witness:
  "tcp_test_run trace_uv demo_addr_lib NoBuffer wide_packer [Tick, Link (ConnectDone 1 0), Tick, Tick]
     (fst demo_test) = Some demo_test_end \<and>
   (\<exists>u r h. calls_by trace_uv silent (cuv (snd demo_test)) u \<and>
      calls_by trace_uv silent (uv_do trace_uv (UvWrite r h
        (uv_buf (tcp_client_message wide_packer 0 (dotted 127 0 0 1) 5555))) u) (cuv (tt_io demo_test_end)))"
proof -
  have start: "tcp_client_main trace_uv demo_addr_lib (Options demo_options) demo_client_io =
      Some (TestRuns (fst demo_test), snd demo_test)" by code_simp
  have run: "tcp_test_run trace_uv demo_addr_lib NoBuffer wide_packer [Tick, Link (ConnectDone 1 0), Tick, Tick]
      (fst demo_test) = Some demo_test_end" by code_simp
  have "\<not> list_ex writes (cuv (snd demo_test))" "list_ex writes (cuv (tt_io demo_test_end))" by code_simp+
  then have "\<not> calls_by trace_uv silent (cuv (snd demo_test)) (cuv (tt_io demo_test_end))"
    using trace_calls [of silent "cuv (snd demo_test)" "cuv (tt_io demo_test_end)"]
    by (auto simp: list_ex_iff writes_silent)
  with tcp_client_sends_once [OF trace_uv_laws start run] run show ?thesis
    by (auto simp: demo_options_def)
qed

end
