(* ===== verification/Test_Servers.thy ===== *)
theory Test_Servers
  imports Tcp_Server_Props Tcp_Server_Moves Udp_Socket
begin

text \<open>
  The test servers: \<^verbatim>\<open>tests/test_tcp_server.cpp\<close> and \<^verbatim>\<open>tests/test_udp_server.cpp\<close>, which send back what
  they receive. Both read their options with \<^verbatim>\<open>getopt_long\<close>, whose results are an argument. The TCP
  server is an application of \<^verbatim>\<open>TcpServer\<close> that counts bytes; its state is the counter. Printing is left
  out.
\<close>

section \<open>Options\<close>

record server_args =
  sa_ip :: string
  sa_port_arg :: int

text \<open>\<^verbatim>\<open>std::atoi\<close>: spaces, a sign, digits; what follows is ignored.\<close>

definition is_space :: "char \<Rightarrow> bool" where
  "is_space c \<longleftrightarrow> c \<in> set [CHR '' '', CHR 0x09, CHR 0x0A, CHR 0x0B, CHR 0x0C, CHR 0x0D]"

definition is_digit :: "char \<Rightarrow> bool" where
  "is_digit c \<longleftrightarrow> 48 \<le> (of_char c :: nat) \<and> (of_char c :: nat) \<le> 57"

definition atoi :: "string \<Rightarrow> int" where
  "atoi s = (case dropWhile is_space s of
     CHR ''-'' # ds \<Rightarrow> - int (dec_value (takeWhile is_digit ds))
   | CHR ''+'' # ds \<Rightarrow> int (dec_value (takeWhile is_digit ds))
   | ds \<Rightarrow> int (dec_value (takeWhile is_digit ds)))"

text \<open>A result of \<^verbatim>\<open>getopt_long\<close>: the option with its argument, if it takes one. The loop ends with an
  error at the option for help and at one that is not known or lacks its argument; an argument that
  is a null pointer is undefined.\<close>

type_synonym opt_result = "char \<times> string option"

fun server_parse_args :: "opt_result list \<Rightarrow> server_args \<Rightarrow> (int + server_args) option" where
  "server_parse_args [] args = Some (Inr args)"
| "server_parse_args ((opt, optarg) # opts) args =
     (if opt = CHR ''i'' then do { s \<leftarrow> optarg; server_parse_args opts (args\<lparr>sa_ip := s\<rparr>) }
      else if opt = CHR ''p'' then do { s \<leftarrow> optarg; server_parse_args opts (args\<lparr>sa_port_arg := atoi s\<rparr>) }
      else if opt = CHR ''h'' then Some (Inl (- 1))
      else if opt = CHR ''?'' then Some (Inl (- 1))
      else server_parse_args opts args)"

datatype 's server_run = ServerExit int | ServerRuns 's

section \<open>The UDP server\<close>

datatype udp_echo_cb = EchoDatagram

type_synonym udp_echo = "(udp_echo_cb, unit) udp_socket"

text \<open>The result of binding is not looked at.\<close>

definition udp_echo_main ::
    "'u libuv \<Rightarrow> addr_lib \<Rightarrow> opt_result list \<Rightarrow> hid \<Rightarrow> IPV \<Rightarrow> 'u \<Rightarrow> (udp_echo server_run \<times> 'u) option" where
  "udp_echo_main L A opts h junk u = do {
     ret \<leftarrow> server_parse_args opts \<lparr>sa_ip = ''127.0.0.1'', sa_port_arg = 5555\<rparr>;
     (case ret of
        Inl e \<Rightarrow> Some (ServerExit (- 1), u)
      | Inr args \<Rightarrow> do {
          let addr = SocketAddr_of_ip A (sa_ip args) (of_int (sa_port_arg args)) Ipv4;
          let (s, u) = UdpSocket_new L h junk u;
          let s = UdpSocket_set_message_callback (Some EchoDatagram) s;
          (rst, s, u) \<leftarrow> UdpSocket_try_bind_and_read L addr (s, u);
          Some (ServerRuns s, u) }) }"

text \<open>The message callback; \<open>r\<close> is the address of the request.\<close>

definition udp_echo_callback ::
    "'u libuv \<Rightarrow> rid \<Rightarrow> udp_echo \<Rightarrow> udp_echo_cb \<times> socket_addr \<times> byte list \<Rightarrow> 'u \<Rightarrow> 'u option" where
  "udp_echo_callback L r s = (\<lambda>(cb, from, data) u. do {
     (rst, u) \<leftarrow> UdpSocket_send L r s from data u; Some u })"

fun udp_echo_calls ::
    "'u libuv \<Rightarrow> rid \<Rightarrow> udp_echo \<Rightarrow> (udp_echo_cb \<times> socket_addr \<times> byte list) list \<Rightarrow> 'u \<Rightarrow> 'u option" where
  "udp_echo_calls L r s [] u = Some u"
| "udp_echo_calls L r s (c # cs) u = do { u \<leftarrow> udp_echo_callback L r s c u; udp_echo_calls L r s cs u }"

definition udp_echo_event ::
    "'u libuv \<Rightarrow> addr_lib \<Rightarrow> unit log_writer \<Rightarrow> rid \<Rightarrow> int \<Rightarrow> byte list \<Rightarrow> sockaddr \<Rightarrow> udp_echo \<times> 'u \<Rightarrow>
     (udp_echo \<times> 'u) option" where
  "udp_echo_event L A lw r nread buf from = (\<lambda>(s, u). do {
     (out, calls) \<leftarrow> UdpSocket_on_mesage_receive L A lw nread buf from s;
     u \<leftarrow> udp_echo_calls L r s calls u;
     Some (s, u) })"

section \<open>The TCP server\<close>

datatype echo_cb = EchoMessage

type_synonym ('u, 'w) echo_world = "('u, 'w, echo_cb, 64 word) world"

text \<open>The parsed options are not used: the address is fixed.\<close>

definition tcp_echo_main ::
    "'u libuv \<Rightarrow> addr_lib \<Rightarrow> buffer_mode \<Rightarrow> IPV \<Rightarrow> opt_result list \<Rightarrow> ('u, 'w) io \<Rightarrow>
     ('u, 'w) echo_world server_run option" where
  "tcp_echo_main L A mode junk opts io = do {
     ret \<leftarrow> server_parse_args opts \<lparr>sa_ip = ''127.0.0.1'', sa_port_arg = 4444\<rparr>;
     (case ret of
        Inl e \<Rightarrow> Some (ServerExit (- 1))
      | Inr args \<Rightarrow> do {
          let addr = SocketAddr_of_ip A ''127.0.0.1'' 4444 Ipv4;
          let w = TcpServer_set_message_callback (Some EchoMessage) (TcpServer_new L mode junk True io 0);
          (rst, w) \<leftarrow> TcpServer_listen L addr w;
          Some (ServerRuns w) }) }"

text \<open>The message callback adds the size to the counter and writes the bytes back, without a callback
  of its own.\<close>

definition tcp_echo_callback ::
    "'u libuv \<Rightarrow> hid \<Rightarrow> byte list \<Rightarrow> ('u, 'w) echo_world \<Rightarrow> ('u, 'w) echo_world option" where
  "tcp_echo_callback L ptr data w = do {
     let w = w\<lparr>sw_app := sw_app w + of_nat (length data)\<rparr>;
     c \<leftarrow> held ptr w;
     let (rst, io, cs) = TcpConnection_write L data None c (sw_io w);
     Some (log_calls cs (w\<lparr>sw_io := io\<rparr>)) }"

definition tcp_echo_app :: "'u libuv \<Rightarrow> ('u, 'w, echo_cb, 64 word) app" where
  "tcp_echo_app L x w = (case x of
     AppMessage EchoMessage ptr data \<Rightarrow> tcp_echo_callback L ptr data w
   | _ \<Rightarrow> Some w)"

section \<open>Parsing\<close>

text \<open>Without an error, the last argument of each option counts; the first error ends the program.\<close>

lemma server_parse_args_last:
  "list_all (\<lambda>(opt, optarg). opt \<notin> {CHR ''h'', CHR ''?''} \<and> optarg \<noteq> None) opts \<Longrightarrow>
   \<exists>args'. server_parse_args opts args = Some (Inr args') \<and>
     sa_ip args' = last (sa_ip args # map (the \<circ> snd) (filter (\<lambda>p. fst p = CHR ''i'') opts)) \<and>
     sa_port_arg args' = last (sa_port_arg args # map (atoi \<circ> the \<circ> snd) (filter (\<lambda>p. fst p = CHR ''p'') opts))"
proof (induction opts arbitrary: args)
  case (Cons p opts)
  obtain opt optarg where p: "p = (opt, Some optarg)" using Cons.prems by (cases p) auto
  let ?args = "if opt = CHR ''i'' then args\<lparr>sa_ip := optarg\<rparr>
    else if opt = CHR ''p'' then args\<lparr>sa_port_arg := atoi optarg\<rparr> else args"
  have "server_parse_args (p # opts) args = server_parse_args opts ?args"
    using Cons.prems p by auto
  then show ?case using Cons.IH [of ?args] Cons.prems p by (auto split: if_splits)
qed simp

section \<open>The UDP server answers\<close>

lemma udp_echo_answers:
  assumes "us_on_message_callback s = Some EchoDatagram" "us_ipv s = Ipv4" "0 < nread"
    and "SocketAddr_of_sockaddr A from Ipv4 \<noteq> None"
  shows "udp_echo_event L A lw r nread buf from (s, u) =
    Some (s, uv_do L (UvUdpSend r (us_handle s) (take (nat nread) buf) from) u)"
proof -
  obtain addr where addr: "SocketAddr_of_sockaddr A from Ipv4 = Some addr" using assms(4) by auto
  then have "SocketAddr_addr addr = Some from"
    by (auto simp: SocketAddr_of_sockaddr_def SocketAddr_addr_def split: Option.bind_splits)
  then show ?thesis
    using assms addr receive_data [of nread s EchoDatagram A "from" addr L lw buf]
    by (simp add: udp_echo_event_def udp_echo_callback_def UdpSocket_send_def uv_do_def split_beta)
qed

lemma udp_echo_main_socket:
  assumes "udp_echo_main L A opts h junk u = Some (ServerRuns s, u')"
  shows "us_on_message_callback s = Some EchoDatagram" "us_ipv s = Ipv4" "us_handle s = h"
  using assms
  by (auto simp: udp_echo_main_def UdpSocket_defs SocketAddr_of_ip_def SocketAddr_ipv_def SocketAddr_addr_def Let_def
      split: Option.bind_splits sum.splits prod.splits if_splits)

section \<open>The TCP server answers\<close>

lemma echo_callback_steps:
  assumes laws: "uv_laws L" and c: "sw_conns w h = Some c"
  shows "\<exists>w' cs. tcp_echo_callback L h data w = Some w' \<and> sw_conns w' = sw_conns w \<and>
    sw_connections w' = sw_connections w \<and> sw_wheel w' = sw_wheel w \<and> sw_wrappers w' = sw_wrappers w \<and>
    sw_released w' = sw_released w \<and> io_next (sw_io w) \<le> io_next (sw_io w') \<and>
    (\<forall>g. uv_is_closing L g (wuv w') = uv_is_closing L g (wuv w)) \<and>
    sw_app w' = sw_app w + of_nat (length data) \<and>
    (tc_connected c \<longrightarrow> (\<exists>r. wuv w' = uv_do L (UvWrite r (tc_handle c) (uv_buf data)) (wuv w)))"
proof -
  obtain rst io and cs :: "(srv_message, srv_close, srv_done, 'b) conn_call list"
    where wr: "TcpConnection_write L data None c (sw_io w) = (rst, io, cs)" by (metis surj_pair)
  have "held h (w\<lparr>sw_app := sw_app w + of_nat (length data)\<rparr>) = Some c" using c by (simp add: held_def)
  then have "tcp_echo_callback L h data w =
      Some (log_calls cs (w\<lparr>sw_app := sw_app w + of_nat (length data), sw_io := io\<rparr>))"
    using wr by (simp add: tcp_echo_callback_def Let_def)
  then show ?thesis
    using write_io [OF laws wr] write_back [OF wr] by auto
qed

lemma echo_app_ok: "uv_laws L \<Longrightarrow> app_ok L V (tcp_echo_app L)"
  unfolding app_ok_def
proof (intro allI impI)
  fix x and w :: "('a, 'b) echo_world"
  assume laws: "uv_laws L" and inv: "server_inv L w" and ok: "call_ok V x w"
  show "\<exists>w'. tcp_echo_app L x w = Some w' \<and> server_inv L w' \<and> keeps L w w'"
  proof (cases "\<exists>a h buf. x = AppMessage a h buf")
    case True
    then obtain a h buf where x: "x = AppMessage a h buf" by blast
    then obtain c where "sw_conns w h = Some c" using ok by auto
    from echo_callback_steps [OF laws this, of buf] obtain w' where
      "tcp_echo_callback L h buf w = Some w'" "server_inv L w' \<and> keeps L w w'"
      using server_inv_same [OF inv] by metis
    then show ?thesis using x by (cases a) (simp add: tcp_echo_app_def)
  next
    case False
    then show ?thesis using inv by (cases x) (auto simp: tcp_echo_app_def)
  qed
qed

text \<open>The message callback of the server stays what it is.\<close>

definition same_callback :: "('u, 'w, 'a, 's) world \<Rightarrow> ('u, 'w, 'a, 's) world \<Rightarrow> bool" where
  "same_callback w w' \<longleftrightarrow> sw_onMessageCallback w' = sw_onMessageCallback w"

lemma log_calls_callback [simp]: "sw_onMessageCallback (log_calls cs w) = sw_onMessageCallback w"
  by (induction cs w rule: log_calls.induct) (simp_all add: put_log_def)

lemma echo_app_callback: "tcp_echo_app L x w = Some w' \<Longrightarrow> same_callback w w'"
  by (auto simp: tcp_echo_app_def tcp_echo_callback_def same_callback_def Let_def
      split: app_call.splits echo_cb.splits Option.bind_splits prod.splits)

interpretation em: server_moves L "tcp_echo_app L" X same_callback for L X
  by unfold_locales (auto simp: same_callback_def own_step_def dest: echo_app_callback)

text \<open>The states of the program: it has started, then takes the events libuv delivers.\<close>

inductive echo_reach :: "'u libuv \<Rightarrow> addr_lib \<Rightarrow> ('u, 'w) echo_world \<Rightarrow> bool" for L A where
  start: "tcp_echo_main L A mode junk opts io = Some (ServerRuns w) \<Longrightarrow> echo_reach L A w"
| event: "echo_reach L A w \<Longrightarrow> deliverable A L (\<lambda>buf. True) e w \<Longrightarrow>
    TcpServer_event L A (tcp_echo_app L) e w = Some w' \<Longrightarrow> echo_reach L A w'"

lemma listen_no_timeout:
  assumes "unstarted w" "tw_timeoutSec (sw_wheel w) = 0" "TcpServer_listen L addr w = Some (rst, w')"
  shows "server_inv L w' \<and> sw_onMessageCallback w' = sw_onMessageCallback w"
proof -
  have "sw_connections w' = sw_connections w \<and> sw_conns w' = sw_conns w \<and> sw_released w' = sw_released w \<and>
      sw_onMessageCallback w' = sw_onMessageCallback w \<and> sw_wheel w' = sw_wheel w"
    using assms(2,3)
    by (auto simp: TcpServer_listen_def TimerWheel_start_def put_uv_def Let_def
        split: Option.bind_splits if_splits prod.splits)
  then show ?thesis
    using assms(1,2)
    by (simp add: server_inv_def idle_inv_def heap_inv_def table_inv_def unstarted_def members_def)
qed

lemma echo_start:
  assumes "tcp_echo_main L A mode junk opts io = Some (ServerRuns w)"
  shows "server_inv L w \<and> sw_onMessageCallback w = Some EchoMessage"
proof -
  let ?w = "TcpServer_set_message_callback (Some EchoMessage) (TcpServer_new L mode junk True io 0) ::
    ('a, 'b) echo_world"
  obtain rst where listen: "TcpServer_listen L (SocketAddr_of_ip A ''127.0.0.1'' 4444 Ipv4) ?w = Some (rst, w)"
    using assms by (auto simp: tcp_echo_main_def split: Option.bind_splits sum.splits)
  have "unstarted ?w" "tw_timeoutSec (sw_wheel ?w) = 0" "sw_onMessageCallback ?w = Some EchoMessage"
    using unstarted_new(1) [of L mode junk True io "0 :: 64 word"]
    by (simp_all add: unstarted_def TcpServer_set_message_callback_def TcpServer_new_def TimerWheel_new_def
        split_beta Let_def)
  from listen_no_timeout [OF this(1,2) listen] this(3) show ?thesis by simp
qed

lemma echo_event:
  assumes laws: "uv_laws L" and inv: "server_inv L w" "sw_onMessageCallback w = Some EchoMessage"
    and del: "deliverable A L (\<lambda>buf. True) e w"
  shows "\<exists>w'. TcpServer_event L A (tcp_echo_app L) e w = Some w' \<and> server_inv L w' \<and>
    sw_onMessageCallback w' = Some EchoMessage"
proof -
  obtain w' where w': "TcpServer_event L A (tcp_echo_app L) e w = Some w'" "server_inv L w'"
    using event_good [OF laws echo_app_ok [OF laws] inv(1) del] by blast
  have "same_callback w w'"
  proof (cases "\<exists>status client. e = Accepted status client")
    case True
    then obtain status client where e: "e = Accepted status client" by blast
    from em.R_accepted [OF w'(1) [unfolded e] refl] show ?thesis by (simp add: same_callback_def)
  next
    case False
    then show ?thesis using em.R_event [OF w'(1)] by blast
  qed
  then show ?thesis using w' inv(2) by (simp add: same_callback_def)
qed

lemma echo_reach_inv:
  "echo_reach L A w \<Longrightarrow> uv_laws L \<Longrightarrow> server_inv L w \<and> sw_onMessageCallback w = Some EchoMessage"
proof (induction rule: echo_reach.induct)
  case (event w e w')
  then show ?case using echo_event [of L w A e] by auto
qed (use echo_start in blast)

text \<open>Data on an open connection goes to the message callback; what the wheel does with it afterwards
  touches nothing else.\<close>

lemma received_message:
  assumes "server_inv L w" "sw_conns w h = Some c" "\<not> uv_is_closing L h (wuv w)" "0 < nread"
  shows "tc_handle c = h \<and> TcpServer_event L A app (Received h nread buf) w = TcpServer_on_message app h (take (nat nread) buf) w"
proof -
  have ci: "tc_handle c = h" "tc_onMessageCallback c = Some SrvMessage"
    using assms(1) table_conn [of L w h c] assms(2,3) by (auto simp: server_inv_def conn_inv_def)
  have "put_conn h c w\<lparr>sw_io := sw_io w\<rparr> = w" using assms(2) by (simp add: put_conn_def map_upd_triv)
  then show ?thesis
    using assms(2,4) ci
    by (simp add: TcpServer_event_def TcpConnection_on_mesage_receive_def TcpConnection_on_message_def)
qed

lemma on_message_frame:
  assumes "TcpServer_on_message app h buf w = Some w'" "sw_conns w h = Some c"
    and "sw_onMessageCallback w = Some a" "app (AppMessage a h buf) w = Some w1"
  shows "\<exists>wh. w' = w1\<lparr>sw_wheel := wh\<rparr>"
proof -
  have app: "app_opt app (sw_onMessageCallback w) (\<lambda>a. AppMessage a h buf) w = Some w1"
    using assms(3,4) by (simp add: app_opt_def)
  note w' = assms(1) [unfolded TcpServer_on_message_def app assms(2) Option.bind_lunit Let_def]
  show ?thesis
  proof (cases "TimerWheel_get_timeout (sw_wheel w1) > 0")
    case True
    then show ?thesis using w' by (auto split: Option.bind_splits)
  next
    case False
    then show ?thesis using w' by (intro exI [of _ "sw_wheel w1"]) simp
  qed
qed

lemma echo_received:
  assumes laws: "uv_laws L" and inv: "server_inv L w" "sw_onMessageCallback w = Some EchoMessage"
    and c: "sw_conns w h = Some c" "tc_connected c" "\<not> uv_is_closing L h (wuv w)" "0 < nread"
  shows "\<exists>w' r. TcpServer_event L A (tcp_echo_app L) (Received h nread buf) w = Some w' \<and>
    wuv w' = uv_do L (UvWrite r h (uv_buf (take (nat nread) buf))) (wuv w) \<and>
    sw_app w' = sw_app w + of_nat (length (take (nat nread) buf)) \<and> sw_conns w' = sw_conns w"
proof -
  let ?d = "take (nat nread) buf"
  have ev: "tc_handle c = h" "TcpServer_event L A (tcp_echo_app L) (Received h nread buf) w =
      TcpServer_on_message (tcp_echo_app L) h ?d w"
    using received_message [OF inv(1) c(1,3,4), of A "tcp_echo_app L" buf] by simp_all
  obtain w' where w': "TcpServer_on_message (tcp_echo_app L) h ?d w = Some w'"
    using echo_event [OF laws inv, of A "Received h nread buf"] c ev by (auto simp: deliverable_def)
  obtain w1 where w1: "tcp_echo_callback L h ?d w = Some w1" "sw_conns w1 = sw_conns w"
    "sw_app w1 = sw_app w + of_nat (length ?d)" "\<exists>r. wuv w1 = uv_do L (UvWrite r h (uv_buf ?d)) (wuv w)"
    using echo_callback_steps [OF laws c(1), of ?d] c(2) unfolding ev(1) by (elim exE conjE) simp
  obtain r where r: "wuv w1 = uv_do L (UvWrite r h (uv_buf ?d)) (wuv w)" using w1(4) by blast
  have "tcp_echo_app L (AppMessage EchoMessage h ?d) w = Some w1" using w1(1) by (simp add: tcp_echo_app_def)
  from on_message_frame [OF w' c(1) inv(2) this] obtain wh where "w' = w1\<lparr>sw_wheel := wh\<rparr>" by blast
  then show ?thesis using ev w' w1(2,3) r by (intro exI [of _ w'] exI [of _ r]) simp
qed

text \<open>C20: The TCP test server sends back what it is sent. From its start on, whatever options it was
  given and whatever the peers send, as long as no client is accepted whose peer name is that of a
  connection in the table (that case is C40), it handles every event libuv delivers to it without
  touching a freed connection; and data that arrives on a connection that is open is written back to
  that connection at once, byte for byte (below 4 GiB at a time), and counted modulo 2 to the 64. What
  libuv is handed is a pointer into the connection's receive buffer: the bytes are those when the
  write is asked for, and a write that stays pending sends what the next read has left there.\<close>

theorem tcp_echo_server:
  assumes "uv_laws L" and "echo_reach L A w"
  shows "(\<forall>e. deliverable A L (\<lambda>buf. True) e w \<longrightarrow> (\<exists>w'. TcpServer_event L A (tcp_echo_app L) e w = Some w')) \<and>
    (\<forall>h c nread buf. sw_conns w h = Some c \<and> tc_connected c \<and> \<not> uv_is_closing L h (wuv w) \<and> 0 < nread \<longrightarrow>
      (\<exists>w' r. TcpServer_event L A (tcp_echo_app L) (Received h nread buf) w = Some w' \<and>
        wuv w' = uv_do L (UvWrite r h (uv_buf (take (nat nread) buf))) (wuv w) \<and>
        sw_app w' = sw_app w + of_nat (length (take (nat nread) buf)) \<and> sw_conns w' = sw_conns w))"
proof -
  have inv: "server_inv L w" "sw_onMessageCallback w = Some EchoMessage"
    using echo_reach_inv [OF assms(2,1)] by simp_all
  show ?thesis
  proof (intro conjI allI impI)
    show "\<exists>w'. TcpServer_event L A (tcp_echo_app L) e w = Some w'"
      if "deliverable A L (\<lambda>buf. True) e w" for e
      using echo_event [OF assms(1) inv that] by blast
    show "\<exists>w' r. TcpServer_event L A (tcp_echo_app L) (Received h nread buf) w = Some w' \<and>
        wuv w' = uv_do L (UvWrite r h (uv_buf (take (nat nread) buf))) (wuv w) \<and>
        sw_app w' = sw_app w + of_nat (length (take (nat nread) buf)) \<and> sw_conns w' = sw_conns w"
      if "sw_conns w h = Some c \<and> tc_connected c \<and> \<not> uv_is_closing L h (wuv w) \<and> 0 < nread" for h c nread buf
      using echo_received [OF assms(1) inv, of h c nread A buf] that by blast
  qed
qed

text \<open>The server started with a port option, a client accepted.\<close>

definition demo_echo_start :: "(uv_call list, string) echo_world" where
  "demo_echo_start = (case tcp_echo_main trace_uv demo_addr_lib NoBuffer Ipv6 [(CHR ''p'', Some '' 80x'')] demo_srv_io of
     Some (ServerRuns w) \<Rightarrow> w)"

definition demo_echo :: "(uv_call list, string) echo_world" where
  "demo_echo = the (TcpServer_event trace_uv demo_addr_lib (tcp_echo_app trace_uv) (Accepted 0 9) demo_echo_start)"

lemma demo_echo_runs:
  "case tcp_echo_main trace_uv demo_addr_lib NoBuffer Ipv6 [(CHR ''p'', Some '' 80x'')] demo_srv_io of
     Some (ServerRuns w) \<Rightarrow> True | _ \<Rightarrow> False"
  "\<not> Option.is_none (TcpServer_event trace_uv demo_addr_lib (tcp_echo_app trace_uv) (Accepted 0 9) demo_echo_start)"
  by code_simp+

lemma demo_echo_sel:
  "\<not> Option.is_none (sw_acceptor demo_echo_start)" "Option.is_none (sw_conns demo_echo_start 9)"
  "sw_connections demo_echo_start = []" "sw_ipv demo_echo_start = Ipv4"
  "map_option tc_connected (sw_conns demo_echo 9) = Some True"
  "\<not> uv_is_closing trace_uv 9 (wuv demo_echo)" "sw_app demo_echo = 0"
  by code_simp+

lemma demo_echo_reach: "echo_reach trace_uv demo_addr_lib demo_echo"
proof (rule echo_reach.event)
  show "echo_reach trace_uv demo_addr_lib demo_echo_start"
    using demo_echo_runs(1) unfolding demo_echo_start_def
    by (intro echo_reach.start) (auto split: option.splits server_run.splits)
  show "deliverable demo_addr_lib trace_uv (\<lambda>buf. True) (Accepted 0 9) demo_echo_start"
    using demo_echo_sel
    by (auto simp: deliverable_def SocketAddr_addr_to_str_def SocketAddr_get_ip_and_port_def inet_ntoa_def at_def
        trace_uv_def Option.is_none_def)
  show "TcpServer_event trace_uv demo_addr_lib (tcp_echo_app trace_uv) (Accepted 0 9) demo_echo_start = Some demo_echo"
    using demo_echo_runs(2) unfolding demo_echo_def by (auto simp: Option.is_none_def)
qed

theorem tcp_echo_server_witness:
  "\<exists>w' r. TcpServer_event trace_uv demo_addr_lib (tcp_echo_app trace_uv) (Received 9 2 [0x68, 0x69, 0x21]) demo_echo =
     Some w' \<and> wuv w' = UvWrite r 9 [0x68, 0x69] # wuv demo_echo \<and> sw_app w' = 2"
proof -
  obtain c where "sw_conns demo_echo 9 = Some c" "tc_connected c" using demo_echo_sel(5) by auto
  with conjunct2 [OF tcp_echo_server [OF trace_uv_laws demo_echo_reach], rule_format, of 9 c 2 "[0x68, 0x69, 0x21]"]
  show ?thesis using demo_echo_sel(6,7) by (auto simp: uv_do_def trace_uv_def)
qed

end
