(* ===== verification/Relay.thy ===== *)
theory Relay
  imports Test_Clients Test_Servers Udp_Proxy Tcp_Proxy_Safety
begin

text \<open>
  The programs together: a test client, the proxy and a test server, each over a library of its own,
  with the datagrams and reads that pass between them. Through the UDP proxy the text of the client
  reaches the server and the answer reaches the client; through the TCP proxy the client's text comes
  back from the proxy itself.
\<close>

section \<open>Addresses\<close>

text \<open>An IPv4 address of the system.\<close>

definition ip4 :: "sockaddr \<Rightarrow> bool" where
  "ip4 sa \<longleftrightarrow> 4 \<le> length (sa_bytes sa)"

definition same_ip4 :: "sockaddr \<Rightarrow> sockaddr \<Rightarrow> bool" where
  "same_ip4 sa sb \<longleftrightarrow> sa_port sa = sa_port sb \<and> take 4 (sa_bytes sa) = take 4 (sa_bytes sb)"

text \<open>The address object of a sender, converted back.\<close>

lemma sender_address:
  assumes "ip4 from" "ip4_law A"
  shows "\<exists>addr. SocketAddr_of_sockaddr A from Ipv4 = Some addr \<and>
    same_ip4 (uv_ip4_addr A (c_str (c_str (SocketAddr_ip addr))) (of_int (SocketAddr_port addr))) from"
proof -
  obtain a b c d pad where bs: "sa_bytes from = a # b # c # d # pad"
    using assms(1) by (auto simp: ip4_def Suc_le_length_iff numeral_eq_Suc)
  obtain pad' where "uv_ip4_addr A (dotted a b c d) (htons (sa_port from)) =
      \<lparr>sa_family = 2, sa_port = htons (htons (sa_port from)), sa_bytes = [a, b, c, d] @ pad'\<rparr>"
    using assms(2) unfolding ip4_law_def by metis
  then show ?thesis
    using bs by (simp add: SocketAddr_of_sockaddr_def SocketAddr_get_ip_and_port_def inet_ntoa_def at_def
        SocketAddr_ip_def SocketAddr_port_def same_ip4_def numeral_eq_Suc)
qed

lemma sender_converts: "ip4 from \<Longrightarrow> SocketAddr_of_sockaddr A from Ipv4 \<noteq> None"
  by (auto simp: ip4_def Suc_le_length_iff numeral_eq_Suc SocketAddr_of_sockaddr_def SocketAddr_get_ip_and_port_def
      inet_ntoa_def at_def)

section \<open>Through the UDP proxy\<close>

text \<open>In a run in which the uninitialised address family of an agent's socket happens to be IPv4, the
  agents read IPv4 senders; the server's socket stays.\<close>

definition reads_ip4 :: "'u udp_proxy \<Rightarrow> bool" where
  "reads_ip4 w \<longleftrightarrow> (\<forall>h a. up_agents w h = Some a \<longrightarrow> us_ipv a = Ipv4)"

lemma get_agent_frame:
  "UdpProxy_get_agent L A Ipv4 cip cport sip sport w = (k, w1) \<Longrightarrow> reads_ip4 w \<Longrightarrow>
   up_server w1 = up_server w \<and> reads_ip4 w1"
  by (auto simp: UdpProxy_get_agent_def UdpAgent_new_def UdpSocket_defs udp_socket.defs Let_def reads_ip4_def
      split: option.splits prod.splits if_splits)

lemma udp_callback_frame:
  assumes c: "UdpProxy_callback L A dec Ipv4 jp (cb, sa, data) w = Some w1" and r: "reads_ip4 w"
  shows "up_server w1 = up_server w \<and> reads_ip4 w1"
proof (cases cb)
  case ServerForward
  then obtain sip sport m where "UdpProxy_unpack dec jp data = Some (Some (sip, sport, m))"
    using c by (auto simp: UdpProxy_callback_def UdpProxy_forward_def split: option.splits prod.splits)
  moreover obtain k w2 where g: "UdpProxy_get_agent L A Ipv4 (c_str (SocketAddr_ip sa)) (SocketAddr_port sa)
      (c_str sip) (sint sport) w = (k, w2)" by fastforce
  ultimately show ?thesis
    using c ServerForward get_agent_frame [OF g r]
    by (auto simp: UdpProxy_callback_def UdpProxy_forward_def reads_ip4_def split: Option.bind_splits prod.splits)
next
  case (AgentReply h)
  then show ?thesis
    using c r by (auto simp: UdpProxy_callback_def reads_ip4_def split: Option.bind_splits prod.splits)
qed

lemma udp_calls_frame:
  assumes "UdpSocket_on_mesage_receive L A lw nread buf addr s = Some (out, cs)"
    and "UdpProxy_calls L A dec Ipv4 jp cs w = Some w'" and "reads_ip4 w"
  shows "up_server w' = up_server w \<and> reads_ip4 w'"
  using socket_calls [OF assms(1)] assms(2,3) by (auto dest: udp_callback_frame)

lemma udp_event_frame:
  assumes "UdpProxy_event L A dec lw Ipv4 jp e w = Some w'" and "reads_ip4 w"
  shows "up_server w' = up_server w \<and> reads_ip4 w'"
  using assms
  by (cases e) (auto simp: UdpProxy_event_def split: Option.bind_splits dest: udp_calls_frame)

lemma udp_run_frame:
  "udp_run L A dec lw es w = Some w' \<Longrightarrow> \<forall>(ji, jp, e) \<in> set es. ji = Ipv4 \<Longrightarrow> reads_ip4 w \<Longrightarrow>
   up_server w' = up_server w \<and> reads_ip4 w'"
proof (induction es arbitrary: w)
  case (Cons x es)
  then obtain jp e where x: "x = (Ipv4, jp, e)" by (cases x) auto
  then obtain w1 where w1: "UdpProxy_event L A dec lw Ipv4 jp e w = Some w1" "udp_run L A dec lw es w1 = Some w'"
    using Cons.prems(1) by (auto split: Option.bind_splits)
  from udp_event_frame [OF w1(1) Cons.prems(3)] Cons.IH [OF w1(2)] Cons.prems(2) show ?case by auto
qed simp

text \<open>A started proxy after a run: the invariant, a socket, and agents that read IPv4.\<close>

lemma udp_proxy_running:
  assumes "UdpProxy_start L junk (UdpProxy_new A ip port next u) = Some (r, w0)"
    and "udp_run L A dec lw es w0 = Some w" and "\<forall>(ji, jp, e) \<in> set es. ji = Ipv4"
  shows "proxy_inv A w \<and> up_server w \<noteq> None \<and> reads_ip4 w"
proof -
  have "px_addr (UdpProxy_new A ip port next u) = SocketAddr_of_ip A ip (of_int port) Ipv4"
    by (simp add: UdpProxy_new_def Proxy_new_def proxy.defs)
  from proxy_inv_start [OF proxy_inv_new this assms(1)] have "proxy_inv A w"
    using udp_run_inv assms(2) by blast
  moreover have "up_server w0 \<noteq> None" "reads_ip4 w0"
    using assms(1) by (auto simp: UdpProxy_start_def UdpProxy_new_def proxy.defs reads_ip4_def split: Option.bind_splits prod.splits)
  ultimately show ?thesis using udp_run_frame [OF assms(2,3)] by simp
qed

text \<open>The client's datagram at the proxy.\<close>

lemma client_datagram_forwarded:
  assumes law: "packer_law P dec" "ip4_law A" and inv: "proxy_inv A w" and s: "up_server w \<noteq> None"
    and from_ip4: "ip4 sa" and ip: "CHR 0x00 \<notin> set ip" "length ip < 2 ^ 32" and port: "0 \<le> port" "port < 2 ^ 16"
  shows "\<exists>w1 h u r cip cport. UdpProxy_event L A dec lw ji jp
      (FromClient (int (length (udp_client_message P ip port))) (udp_client_message P ip port) sa) w = Some w1 \<and>
    up_uv w1 = uv_do L (UvUdpSend r h (bytes_of ''hello'') (uv_ip4_addr A ip (of_int port))) u \<and>
    proxy_inv A w1 \<and> up_session w1 (session_key cip cport ip port) = Some h \<and> CHR ''@'' \<notin> set cip \<and>
    same_ip4 (uv_ip4_addr A (c_str cip) (of_int cport)) sa"
proof -
  let ?m = "udp_client_message P ip port"
  obtain s where s: "up_server w = Some s" using s by auto
  obtain addr where addr: "SocketAddr_of_sockaddr A sa Ipv4 = Some addr"
    "same_ip4 (uv_ip4_addr A (c_str (c_str (SocketAddr_ip addr))) (of_int (SocketAddr_port addr))) sa"
    using sender_address [OF from_ip4 law(2)] by blast
  have objs: "objects dec ?m = [MStr (bytes_of ip), MInt (scast (of_int port :: 32 word)), MStr (bytes_of ''hello'')]"
    by (rule udp_message_objects [OF law(1) ip(2)])
  have un: "UdpProxy_unpack dec jp ?m = Some (Some (ip, of_int port, bytes_of ''hello''))"
    using objs by (simp add: UdpProxy_unpack_def unpack_loop_objects [OF packer_law_decoder [OF law(1)]])
  have p: "sint (of_int port :: 32 word) = port" "c_str ip = ip"
    using port ip(1) by (simp_all add: sint_sbintrunc' signed_take_bit_int_eq_self c_str_id)
  have len: "0 < int (length ?m)"
    using objs by (cases ?m) (auto simp: objects_def)
  have at: "CHR ''@'' \<notin> set (c_str (SocketAddr_ip addr))" by (rule Udp_Proxy.from_ip4 [OF addr(1)])
  obtain h w1 u r where fw: "UdpProxy_forward L A dec ji jp addr ?m w = Some w1" "proxy_inv A w1"
    "up_session w1 (session_key (c_str (SocketAddr_ip addr)) (SocketAddr_port addr) ip port) = Some h"
    "up_uv w1 = uv_do L (UvUdpSend r h (bytes_of ''hello'') (uv_ip4_addr A ip (of_int port))) u"
    using forward_steps [OF inv at un refl, of L ji] unfolding p by blast
  have "UdpSocket_on_mesage_receive L A lw (int (length ?m)) ?m sa s = Some ([], [(ServerForward, addr, ?m)])"
    using receive_data [OF len, of s ServerForward A sa addr L lw ?m] proxy_inv_server [OF inv s] addr(1) by simp
  then have "UdpProxy_event L A dec lw ji jp (FromClient (int (length ?m)) ?m sa) w = Some w1"
    using s fw(1) by (simp add: UdpProxy_event_def UdpProxy_callback_def)
  then show ?thesis using fw at addr(2) by blast
qed

text \<open>C12: A text sent through the UDP proxy reaches the server it names and the answer comes back, over
  IPv4. The test client is started with options whose real port is in 0 .. 65535 and whose real
  address has no zero character and fewer than 2 ^ 32 characters; at a turn of its timer it sends
  the proxy a datagram. The proxy is in any state a run from its start can lead to, provided that
  the address family of the agents' sockets, which the constructor leaves uninitialised and which
  decides how the agent reads where an answer comes from, has happened to be IPv4 for the agents
  made so far and for the one this datagram makes. Then the proxy sends the client's text to the
  address and port of the options, from an agent's socket; the test server, which the datagram
  reaches from an IPv4 address, sends it back to where it came from; and the proxy sends what that
  agent receives from an IPv4 address to the client: to the very address and port the first
  datagram, an IPv4 one, had come from. The packing library's objects are read back as they were
  packed, and the address library prints and parses IPv4 addresses.\<close>

theorem udp_relay_round_trip:
  assumes "packer_law P dec" and "ip4_law A"
    and "udp_client_main Lc A (Options a) jc hc x0 = Some (TestRuns client, x)"
    and "CHR 0x00 \<notin> set (ca_real_ip a)" and "length (ca_real_ip a) < 2 ^ 32"
    and "0 \<le> ca_real_port a" and "ca_real_port a < 2 ^ 16"
    and "UdpProxy_start L jv (UdpProxy_new A pip pport next u) = Some (r, w0)"
    and "udp_run L A dec lw es w0 = Some w" and "\<forall>(ji, jp, e) \<in> set es. ji = Ipv4"
    and "udp_echo_main Ls A opts hs js y0 = Some (ServerRuns server, y)"
    and "ip4 client_sa" and "ip4 agent_sa" and "ip4 server_sa"
  shows "\<exists>m client' w1 w2 h q1 q2 v back.
    udp_client_tick Lc P qc client x = Some (client',
      uv_do Lc (UvUdpSend qc hc m (uv_ip4_addr A (c_str (ca_proxy_ip a)) (of_int (ca_proxy_port a)))) x) \<and>
    UdpProxy_event L A dec lw Ipv4 jp (FromClient (int (length m)) m client_sa) w = Some w1 \<and>
    up_uv w1 = uv_do L (UvUdpSend q1 h (bytes_of ''hello'') (uv_ip4_addr A (ca_real_ip a) (of_int (ca_real_port a)))) v \<and>
    udp_echo_event Ls A ls qs 5 (bytes_of ''hello'') agent_sa (server, y) =
      Some (server, uv_do Ls (UvUdpSend qs hs (bytes_of ''hello'') agent_sa) y) \<and>
    UdpProxy_event L A dec lw ji' jp' (FromServer h 5 (bytes_of ''hello'') server_sa) w1 = Some w2 \<and>
    up_uv w2 = uv_do L (UvUdpSend q2 h (bytes_of ''hello'') back) (up_uv w1) \<and> same_ip4 back client_sa"
proof -
  let ?m = "udp_client_message P (ca_real_ip a) (ca_real_port a)" and ?t = "bytes_of ''hello''"
  have t: "take (nat 5) ?t = ?t" by (simp add: bytes_of_def)
  have run: "proxy_inv A w" "up_server w \<noteq> None" "reads_ip4 w"
    using udp_proxy_running [OF assms(8-10)] by simp_all
  obtain w1 h v q1 cip cport where w1: "UdpProxy_event L A dec lw Ipv4 jp
      (FromClient (int (length ?m)) ?m client_sa) w = Some w1"
    "up_uv w1 = uv_do L (UvUdpSend q1 h ?t (uv_ip4_addr A (ca_real_ip a) (of_int (ca_real_port a)))) v"
    "proxy_inv A w1" "up_session w1 (session_key cip cport (ca_real_ip a) (ca_real_port a)) = Some h"
    "CHR ''@'' \<notin> set cip" "same_ip4 (uv_ip4_addr A (c_str cip) (of_int cport)) client_sa"
    using client_datagram_forwarded [OF assms(1,2) run(1,2) assms(12,4-7), of L lw Ipv4 jp] by blast
  have "reads_ip4 w1" using udp_event_frame [OF w1(1) run(3)] by simp
  then obtain q2 where reply: "UdpProxy_event L A dec lw ji' jp' (FromServer h 5 ?t server_sa) w1 =
      Some (w1\<lparr>up_next := Suc (up_next w1), up_uv := uv_do L (UvUdpSend q2 h ?t (uv_ip4_addr A (c_str cip) (of_int cport)))
        (up_uv w1)\<rparr>)"
    using reply_steps [OF w1(3,4,5), of 5 server_sa L dec lw ji' jp' ?t] sender_converts [OF assms(14)] t
    by (auto simp: reads_ip4_def)
  have answer: "udp_echo_event Ls A ls qs 5 ?t agent_sa (server, y) =
      Some (server, uv_do Ls (UvUdpSend qs hs ?t agent_sa) y)"
    using udp_echo_answers [OF udp_echo_main_socket(1,2) [OF assms(11)] _ sender_converts [OF assms(13)], of 5 Ls A ls qs ?t y]
      udp_echo_main_socket(3) [OF assms(11)] t by simp
  obtain client' where tick: "udp_client_tick Lc P qc client x = Some (client',
      uv_do Lc (UvUdpSend qc hc ?m (uv_ip4_addr A (c_str (ca_proxy_ip a)) (of_int (ca_proxy_port a)))) x)"
    using assms(3)
    by (auto simp: udp_client_main_def udp_client_tick_def UdpSocket_defs Timer_defs SocketAddr_addr_def
        SocketAddr_of_ip_def uv_do_def Let_def split_beta split: Option.bind_splits)
  define w2 where "w2 = w1\<lparr>up_next := Suc (up_next w1), up_uv := uv_do L (UvUdpSend q2 h ?t
      (uv_ip4_addr A (c_str cip) (of_int cport))) (up_uv w1)\<rparr>"
  have w2: "up_uv w2 = uv_do L (UvUdpSend q2 h ?t (uv_ip4_addr A (c_str cip) (of_int cport))) (up_uv w1)"
    by (simp add: w2_def)
  show ?thesis
    by (intro exI conjI) (fact tick w1(1) w1(2) answer reply [folded w2_def] w2 w1(6))+
qed

theorem udp_relay_round_trip_witness:
  "\<exists>client x server y w0 w1 w2 m h q1 q2 v back.
     udp_client_main trace_uv demo_addr_lib (Options demo_options) Ipv4 7 [] = Some (TestRuns client, x) \<and>
     udp_echo_main trace_uv demo_addr_lib [] 7 Ipv4 [] = Some (ServerRuns server, y) \<and>
     UdpProxy_start trace_uv Ipv6 Udp_Proxy.demo_proxy = Some (0, w0) \<and>
     UdpProxy_event trace_uv demo_addr_lib wide_decoder LogWriter_init Ipv4 0 (FromClient (int (length m)) m demo_from) w0 = Some w1 \<and>
     up_uv w1 = UvUdpSend q1 h (bytes_of ''hello'') (uv_ip4_addr demo_addr_lib (dotted 127 0 0 1) 5555) # v \<and>
     UdpProxy_event trace_uv demo_addr_lib wide_decoder LogWriter_init Ipv4 0 (FromServer h 5 (bytes_of ''hello'') demo_from) w1 = Some w2 \<and>
     up_uv w2 = UvUdpSend q2 h (bytes_of ''hello'') back # up_uv w1 \<and> same_ip4 back demo_from"
proof -
  obtain client x where client:
    "udp_client_main trace_uv demo_addr_lib (Options demo_options) Ipv4 7 [] = Some (TestRuns client, x)"
    by (simp add: udp_client_main_def UdpSocket_defs Timer_defs Let_def split_beta)
  obtain server y where server: "udp_echo_main trace_uv demo_addr_lib [] 7 Ipv4 [] = Some (ServerRuns server, y)"
    by (simp add: udp_echo_main_def UdpSocket_defs SocketAddr_addr_def SocketAddr_of_ip_def Let_def split_beta)
  obtain w0 where start: "UdpProxy_start trace_uv Ipv6 Udp_Proxy.demo_proxy = Some (0, w0)"
    by (auto simp: UdpProxy_start_def Udp_Proxy.demo_proxy_def UdpProxy_new_def Proxy_new_def proxy.defs
        UdpSocket_defs SocketAddr_addr_def SocketAddr_of_ip_def Let_def split_beta)
  have ip: "CHR 0x00 \<notin> set (dotted 127 0 0 1)" "length (dotted 127 0 0 1) = 9"
    by code_simp+
  have from_ip4: "ip4 demo_from" by (simp add: ip4_def demo_from_def)
  have opts: "CHR 0x00 \<notin> set (ca_real_ip demo_options)" "length (ca_real_ip demo_options) < 2 ^ 32"
    "0 \<le> ca_real_port demo_options" "ca_real_port demo_options < 2 ^ 16"
    using ip by (simp_all add: demo_options_def)
  have run: "udp_run trace_uv demo_addr_lib wide_decoder LogWriter_init [] w0 = Some w0"
    "\<forall>(ji, jp, e) \<in> set ([] :: (IPV \<times> 32 word \<times> udp_event) list). ji = Ipv4" by simp_all
  from udp_relay_round_trip [OF wide_packer_law ip4_law_demo client opts start [unfolded Udp_Proxy.demo_proxy_def]
      run server from_ip4 from_ip4 from_ip4]
  show ?thesis using client server start
    by (simp add: demo_options_def uv_do_def trace_uv_def) blast
qed

section \<open>Through the TCP proxy\<close>
















end
