(* ===== verification/Packet_Dissect.thy ===== *)
theory Packet_Dissect
  imports Socket_Addr
begin

unbundle bit_operations_syntax

text \<open>
  The packet printers of \<^verbatim>\<open>tests/test_pcap_tcp.cpp\<close> and \<^verbatim>\<open>tests/test_pcap_arp.cpp\<close>: what each does with a
  captured packet. The bytes libpcap captured are a list; the structures the code casts the packet to
  are offsets into it, and reading behind the captured bytes is undefined (\<open>None\<close>). What is printed is a
  value of \<open>dissect_log\<close>. Opening the device and the filter are calls of libpcap and left out.
\<close>

section \<open>Structures\<close>

text \<open>Fields of one, two and four bytes at an offset. A field of two bytes is read in the order of the
  little-endian hosts the code is built for.\<close>

definition field8 :: "byte list \<Rightarrow> nat \<Rightarrow> byte option" where
  "field8 p k = at p k"

definition field16 :: "byte list \<Rightarrow> nat \<Rightarrow> u16 option" where
  "field16 p k = do { a \<leftarrow> at p k; b \<leftarrow> at p (k + 1); Some (ucast a OR push_bit 8 (ucast b)) }"

definition field_addr :: "byte list \<Rightarrow> nat \<Rightarrow> string option" where
  "field_addr p k = do {
     a \<leftarrow> at p k; b \<leftarrow> at p (k + 1); c \<leftarrow> at p (k + 2); d \<leftarrow> at p (k + 3); Some (dotted a b c d) }"

definition ntohs :: "u16 \<Rightarrow> u16" where
  "ntohs x = htons x"

definition SIZE_ETHERNET :: nat where
  "SIZE_ETHERNET = 14"

text \<open>The IP header: length nibble, total length, protocol and the two addresses.\<close>

definition ip_vhl :: "byte list \<Rightarrow> nat \<Rightarrow> byte option" where "ip_vhl p ip = field8 p ip"
definition ip_len :: "byte list \<Rightarrow> nat \<Rightarrow> u16 option" where "ip_len p ip = field16 p (ip + 2)"
definition ip_p :: "byte list \<Rightarrow> nat \<Rightarrow> byte option" where "ip_p p ip = field8 p (ip + 9)"
definition ip_src :: "byte list \<Rightarrow> nat \<Rightarrow> string option" where "ip_src p ip = field_addr p (ip + 12)"
definition ip_dst :: "byte list \<Rightarrow> nat \<Rightarrow> string option" where "ip_dst p ip = field_addr p (ip + 16)"

definition IP_HL :: "byte \<Rightarrow> int" where
  "IP_HL vhl = uint (vhl AND 0x0f)"

text \<open>The TCP header: the source port and the data offset.\<close>

definition th_sport :: "byte list \<Rightarrow> nat \<Rightarrow> u16 option" where "th_sport p tcp = field16 p tcp"
definition th_offx2 :: "byte list \<Rightarrow> nat \<Rightarrow> byte option" where "th_offx2 p tcp = field8 p (tcp + 12)"

definition TH_OFF :: "byte \<Rightarrow> int" where
  "TH_OFF offx2 = uint (drop_bit 4 (offx2 AND 0xf0))"

section \<open>The TCP printer\<close>

datatype dissect_log =
    BadIpHeader int
  | IpPacket int string string
  | Protocol string
  | BadTcpHeader int
  | TcpPacket string int string int
  | PayloadSize int

text \<open>The static counter is an \<^verbatim>\<open>int\<close>: counting past its largest value is undefined.\<close>

definition count_up :: "int \<Rightarrow> int option" where
  "count_up count = (if count < 2 ^ 31 - 1 then Some (count + 1) else None)"

text \<open>The callback: \<open>count\<close> is its static counter. Both ports are read from \<^verbatim>\<open>th_sport\<close>.\<close>

definition got_packet_cb :: "byte list \<Rightarrow> int \<Rightarrow> (dissect_log list \<times> int) option" where
  "got_packet_cb packet count = do {
     let ip = SIZE_ETHERNET;
     vhl \<leftarrow> ip_vhl packet ip;
     let size_ip = IP_HL vhl * 4;
     if size_ip < 20 then Some ([BadIpHeader size_ip], count)
     else do {
       count \<leftarrow> count_up count;
       sip \<leftarrow> ip_src packet ip;
       dip \<leftarrow> ip_dst packet ip;
       proto \<leftarrow> ip_p packet ip;
       let out = [IpPacket count sip dip];
       if proto \<noteq> 6
       then Some (out @ [Protocol (if proto = 17 then ''UDP'' else if proto = 1 then ''ICMP''
              else if proto = 0 then ''IP'' else ''unknown'')], count)
       else do {
         let out = out @ [Protocol ''TCP''];
         let tcp = SIZE_ETHERNET + nat size_ip;
         offx2 \<leftarrow> th_offx2 packet tcp;
         let size_tcp = TH_OFF offx2 * 4;
         if size_tcp < 20 then Some (out @ [BadTcpHeader size_tcp], count)
         else do {
           sp \<leftarrow> th_sport packet tcp;
           dp \<leftarrow> th_sport packet tcp;
           len \<leftarrow> ip_len packet ip;
           Some (out @ [TcpPacket sip (uint (ntohs sp)) dip (uint (ntohs dp)),
             PayloadSize (uint (ntohs len) - (size_ip + size_tcp))], count) } } } }"

section \<open>The ARP printer\<close>

record arp_log =
  al_size :: int
  al_hardware :: string
  al_protocol :: string
  al_operation :: string
  al_addresses :: "(byte list \<times> byte list \<times> byte list \<times> byte list) option"

fun bytes_at :: "byte list \<Rightarrow> nat \<Rightarrow> nat \<Rightarrow> byte list option" where
  "bytes_at p k 0 = Some []"
| "bytes_at p k (Suc n) = do { b \<leftarrow> at p k; bs \<leftarrow> bytes_at p (Suc k) n; Some (b # bs) }"

text \<open>The body of the loop: \<open>len\<close> is the length of the packet on the wire, which is printed. The
  addresses are printed for Ethernet and IPv4.\<close>

definition arp_packet :: "int \<Rightarrow> byte list \<Rightarrow> arp_log option" where
  "arp_packet len packet = do {
     let arp = 14;
     htype \<leftarrow> field16 packet arp;
     ptype \<leftarrow> field16 packet (arp + 2);
     oper \<leftarrow> field16 packet (arp + 6);
     let known = (ntohs htype = 1 \<and> ntohs ptype = 0x0800);
     addresses \<leftarrow> (if known then do {
         sha \<leftarrow> bytes_at packet (arp + 8) 6;
         spa \<leftarrow> bytes_at packet (arp + 14) 4;
         tha \<leftarrow> bytes_at packet (arp + 18) 6;
         tpa \<leftarrow> bytes_at packet (arp + 24) 4;
         Some (Some (sha, spa, tha, tpa)) }
       else Some None);
     Some \<lparr>al_size = len,
       al_hardware = (if ntohs htype = 1 then ''Ethernet'' else ''Unknown''),
       al_protocol = (if ntohs ptype = 0x0800 then ''IPv4'' else ''Unknown''),
       al_operation = (if ntohs oper = 1 then ''ARP Request'' else ''ARP Reply''),
       al_addresses = addresses\<rparr> }"

section \<open>What is read\<close>

lemma at_beyond [simp]: "length p \<le> k \<Longrightarrow> at p k = None"
  by simp

lemma field8_None [simp]: "field8 p k = None \<longleftrightarrow> length p \<le> k"
  by (simp add: field8_def)

lemma field16_None [simp]: "field16 p k = None \<longleftrightarrow> length p \<le> k + 1"
  by (cases "length p \<le> k"; cases "length p \<le> k + 1") (simp_all add: field16_def not_le)

lemma field_addr_None [simp]: "field_addr p k = None \<longleftrightarrow> length p \<le> k + 3"
  by (cases "length p \<le> k + 3"; cases "length p \<le> k + 2"; cases "length p \<le> k + 1"; cases "length p \<le> k")
    (simp_all add: field_addr_def not_le)

text \<open>A packet is read within what was captured exactly when it is long enough for the headers its own
  fields announce; nothing checks that it is, so a short or forged packet reads behind it.\<close>

theorem dissect_overruns:
  assumes "count < 2 ^ 31 - 1"
  shows "got_packet_cb packet count = None \<longleftrightarrow> length packet < 15 \<or>
     20 \<le> IP_HL (packet ! 14) * 4 \<and> (length packet < 34 \<or>
       packet ! 23 = 6 \<and> length packet < 27 + nat (IP_HL (packet ! 14) * 4))"
proof -
  have up: "count_up count = Some (count + 1)" using assms by (simp add: count_up_def)
  show ?thesis
  proof (cases "length packet < 34")
    case True
    show ?thesis
    proof (cases "length packet < 15")
      case True
      then have "ip_vhl packet SIZE_ETHERNET = None" by (simp add: ip_vhl_def SIZE_ETHERNET_def)
      then show ?thesis using True by (simp add: got_packet_cb_def up)
    next
      case long: False
      have "ip_vhl packet SIZE_ETHERNET = Some (packet ! 14)" "ip_dst packet SIZE_ETHERNET = None"
        using True long by (simp_all add: ip_vhl_def ip_dst_def SIZE_ETHERNET_def field8_def)
      then show ?thesis using True long by (cases "ip_src packet SIZE_ETHERNET")
        (simp_all add: got_packet_cb_def up Let_def)
    qed
  next
    case False
    define tcp where "tcp = SIZE_ETHERNET + nat (IP_HL (packet ! 14) * 4)"
    obtain sip dip where a: "ip_src packet SIZE_ETHERNET = Some sip" "ip_dst packet SIZE_ETHERNET = Some dip"
      using False field_addr_None [of packet 26] field_addr_None [of packet 30]
      by (auto simp: ip_src_def ip_dst_def SIZE_ETHERNET_def simp del: field_addr_None)
    obtain len where l: "ip_len packet SIZE_ETHERNET = Some len"
      using False field16_None [of packet 16] by (auto simp: ip_len_def SIZE_ETHERNET_def simp del: field16_None)
    have f: "ip_vhl packet SIZE_ETHERNET = Some (packet ! 14)" "ip_p packet SIZE_ETHERNET = Some (packet ! 23)"
      using False by (simp_all add: ip_vhl_def ip_p_def SIZE_ETHERNET_def field8_def)
    show ?thesis
    proof (cases "length packet < tcp + 13")
      case True
      then have "th_offx2 packet tcp = None" by (simp add: th_offx2_def)
      then show ?thesis using a f False True by (simp add: got_packet_cb_def up Let_def tcp_def SIZE_ETHERNET_def)
    next
      case False2: False
      then obtain x sp where "th_offx2 packet tcp = Some x" "th_sport packet tcp = Some sp"
        using field8_None [of packet "tcp + 12"] field16_None [of packet tcp]
        by (auto simp: th_offx2_def th_sport_def simp del: field8_None field16_None)
      then show ?thesis using a f l False False2
        by (simp add: got_packet_cb_def up Let_def tcp_def SIZE_ETHERNET_def)
    qed
  qed
qed

section \<open>What is printed\<close>

lemma at_append: "at (xs @ ys) k = (if k < length xs then at xs k else at ys (k - length xs))"
  by (auto simp: at_def nth_append)

lemma at_Cons [simp]: "at (x # xs) 0 = Some x" "at (x # xs) (Suc k) = at xs k"
  by (simp_all add: at_def)

text \<open>A number of two bytes in network order, and a frame: an Ethernet header of 14 bytes, an IP header
  with \<open>n\<close> words of options, a TCP header with \<open>k\<close> words of options, and the payload.\<close>

definition be2 :: "u16 \<Rightarrow> byte list" where
  "be2 x = [ucast (drop_bit 8 x), ucast x]"

definition ip_header :: "nat \<Rightarrow> byte \<Rightarrow> u16 \<Rightarrow> byte list \<Rightarrow> byte \<Rightarrow> byte \<Rightarrow> u16 \<Rightarrow>
    byte \<times> byte \<times> byte \<times> byte \<Rightarrow> byte \<times> byte \<times> byte \<times> byte \<Rightarrow> byte list" where
  "ip_header n tos len idoff ttl proto csum = (\<lambda>(a, b, c, d) (e, f, g, h).
     [of_nat (64 + (5 + n)), tos] @ be2 len @ idoff @ [ttl, proto] @ be2 csum @ [a, b, c, d, e, f, g, h])"

definition tcp_header :: "nat \<Rightarrow> u16 \<Rightarrow> u16 \<Rightarrow> byte list \<Rightarrow> byte list \<Rightarrow> byte list" where
  "tcp_header k sport dport seqack rest = be2 sport @ be2 dport @ seqack @ [of_nat (16 * (5 + k))] @ rest"

lemma ntohs_be2:
  "at p k = Some (ucast (drop_bit 8 x)) \<Longrightarrow> at p (k + 1) = Some (ucast x) \<Longrightarrow>
   \<exists>v. field16 p k = Some v \<and> ntohs v = (x :: u16)"
proof -
  assume "at p k = Some (ucast (drop_bit 8 x))" "at p (k + 1) = Some (ucast x)"
  then have "field16 p k = Some (ucast (ucast (drop_bit 8 x) :: byte) OR push_bit 8 (ucast (ucast x :: byte)))"
    by (simp add: field16_def)
  moreover have "ntohs (ucast (ucast (drop_bit 8 x) :: byte) OR push_bit 8 (ucast (ucast x :: byte))) = x"
  proof (rule bit_word_eqI)
    fix n assume "n < LENGTH(16)"
    then show "bit (ntohs (ucast (ucast (drop_bit 8 x) :: byte) OR push_bit 8 (ucast (ucast x :: byte)))) n \<longleftrightarrow> bit x n"
      by (cases "n < 8") (auto simp: ntohs_def htons_def bit_simps)
  qed
  ultimately show ?thesis by blast
qed

lemma length_be2 [simp]: "length (be2 x) = 2"
  by (simp add: be2_def)

lemma at_shift: "length xs = m \<Longrightarrow> at (xs @ ys) (m + k) = at ys k"
  by (simp add: at_append)

lemma header_lengths:
  "n \<le> 10 \<Longrightarrow> IP_HL (of_nat (64 + (5 + n))) = 5 + int n"
  "n \<le> 10 \<Longrightarrow> TH_OFF (of_nat (16 * (5 + n))) = 5 + int n"
proof -
  have "\<forall>n \<in> set [0..<11]. IP_HL (of_nat (64 + (5 + n))) = 5 + int n \<and> TH_OFF (of_nat (16 * (5 + n))) = 5 + int n"
    by code_simp
  then show "n \<le> 10 \<Longrightarrow> IP_HL (of_nat (64 + (5 + n))) = 5 + int n"
    "n \<le> 10 \<Longrightarrow> TH_OFF (of_nat (16 * (5 + n))) = 5 + int n"
    by auto
qed

text \<open>The fields of a frame.\<close>

lemma frame_ip:
  assumes "length eth = 14" "length idoff = 4"
    and p: "p = eth @ ip_header n tos len idoff ttl proto csum (a, b, c, d) (e, f, g, h) @ rest"
  shows "ip_vhl p SIZE_ETHERNET = Some (of_nat (64 + (5 + n)))" "ip_p p SIZE_ETHERNET = Some proto"
    and "ip_src p SIZE_ETHERNET = Some (dotted a b c d)" "ip_dst p SIZE_ETHERNET = Some (dotted e f g h)"
    and "\<exists>v. ip_len p SIZE_ETHERNET = Some v \<and> ntohs v = len"
proof -
  obtain i j k l where id: "idoff = [i, j, k, l]"
    using assms(2) by (auto simp: numeral_eq_Suc length_Suc_conv)
  have hd: "at p (14 + m) = at (ip_header n tos len idoff ttl proto csum (a, b, c, d) (e, f, g, h) @ rest) m" for m
    unfolding p by (rule at_shift [OF assms(1)])
  note hd' = hd [of 0] hd [of 2] hd [of 3] hd [of 9] hd [of 12] hd [of 13] hd [of 14] hd [of 15] hd [of 16] hd [of 17]
    hd [of 18] hd [of 19]
  have at: "at p 14 = Some (of_nat (64 + (5 + n)))" "at p 23 = Some proto"
    "at p 26 = Some a" "at p 27 = Some b" "at p 28 = Some c" "at p 29 = Some d"
    "at p 30 = Some e" "at p 31 = Some f" "at p 32 = Some g" "at p 33 = Some h"
    "at p 16 = Some (ucast (drop_bit 8 len))" "at p 17 = Some (ucast len)"
    using hd' by (simp_all add: ip_header_def be2_def id numeral_eq_Suc)
  show "ip_vhl p SIZE_ETHERNET = Some (of_nat (64 + (5 + n)))" "ip_p p SIZE_ETHERNET = Some proto"
    "ip_src p SIZE_ETHERNET = Some (dotted a b c d)" "ip_dst p SIZE_ETHERNET = Some (dotted e f g h)"
    using at by (simp_all add: ip_vhl_def ip_p_def ip_src_def ip_dst_def field8_def field_addr_def SIZE_ETHERNET_def)
  show "\<exists>v. ip_len p SIZE_ETHERNET = Some v \<and> ntohs v = len"
    using ntohs_be2 [of p 16 len] at by (simp add: ip_len_def SIZE_ETHERNET_def)
qed

lemma frame_tcp:
  assumes "length pre = m" "length seqack = 8" and p: "p = pre @ tcp_header k sport dport seqack rest @ payload"
  shows "th_offx2 p m = Some (of_nat (16 * (5 + k)))" "\<exists>v. th_sport p m = Some v \<and> ntohs v = sport"
proof -
  have hd: "at p (m + j) = at (tcp_header k sport dport seqack rest @ payload) j" for j
    unfolding p by (rule at_shift [OF assms(1)])
  obtain s0 s1 s2 s3 s4 s5 s6 s7 where sa: "seqack = [s0, s1, s2, s3, s4, s5, s6, s7]"
    using assms(2) by (auto simp: numeral_eq_Suc length_Suc_conv)
  have at: "at p m = Some (ucast (drop_bit 8 sport))" "at p (m + 1) = Some (ucast sport)"
    "at p (m + 12) = Some (of_nat (16 * (5 + k)))"
    using hd [of 0] hd [of 1] hd [of 12] by (simp_all add: tcp_header_def be2_def sa numeral_eq_Suc)
  show "th_offx2 p m = Some (of_nat (16 * (5 + k)))" "\<exists>v. th_sport p m = Some v \<and> ntohs v = sport"
    using at ntohs_be2 [OF at(1,2)] by (simp_all add: th_offx2_def th_sport_def field8_def)
qed

text \<open>C35: The packet printer reads a TCP frame by its headers, except for one field. For every frame with IP
  and TCP options of any length and any payload, it prints the two addresses, the protocol, the
  source port and the length of the payload the header announces, which is the payload's when the
  total length is right; but as the destination port it prints the source port, whatever the
  destination port is.\<close>

theorem dissect_frame:
  assumes "length eth = 14" and "length idoff = 4" and "n \<le> 10" and "length ipopts = 4 * n"
    and "length seqack = 8" and "k \<le> 10" and "length rest = 7 + 4 * k"
    and "packet = eth @ ip_header n tos len idoff ttl 6 csum (a, b, c, d) (e, f, g, h) @ ipopts @
      tcp_header k sport dport seqack rest @ payload" and "count < 2 ^ 31 - 1"
  shows "got_packet_cb packet count = Some ([IpPacket (count + 1) (dotted a b c d) (dotted e f g h), Protocol ''TCP'',
      TcpPacket (dotted a b c d) (uint sport) (dotted e f g h) (uint sport),
      PayloadSize (uint len - (40 + 4 * int n + 4 * int k))], count + 1) \<and>
    (unat len = length packet - length eth \<longrightarrow> uint len - (40 + 4 * int n + 4 * int k) = int (length payload))"
proof -
  let ?ip = "ip_header n tos len idoff ttl 6 csum (a, b, c, d) (e, f, g, h)"
  note ip = frame_ip [OF assms(1,2,8)]
  have "length (eth @ ?ip @ ipopts) = SIZE_ETHERNET + nat (IP_HL (of_nat (64 + (5 + n))) * 4)"
    using assms(1,2,4) header_lengths(1) [OF assms(3)] by (simp add: ip_header_def SIZE_ETHERNET_def nat_add_distrib nat_mult_distrib)
  from frame_tcp [OF this assms(5), of packet k sport dport rest payload] assms(8)
  have tcp: "th_offx2 packet (SIZE_ETHERNET + nat (IP_HL (of_nat (64 + (5 + n))) * 4)) = Some (of_nat (16 * (5 + k)))"
    "\<exists>v. th_sport packet (SIZE_ETHERNET + nat (IP_HL (of_nat (64 + (5 + n))) * 4)) = Some v \<and> ntohs v = sport"
    by simp_all
  have "uint len - (40 + 4 * int n + 4 * int k) = int (length payload)" if "unat len = length packet - length eth"
  proof -
    have "uint len = int (unat len)" by simp
    then show ?thesis using that assms(1,2,4,5,7,8) by (simp add: ip_header_def tcp_header_def)
  qed
  moreover have "count_up count = Some (count + 1)" using assms(9) by (simp add: count_up_def)
  ultimately show ?thesis
    using ip tcp header_lengths(1) [OF assms(3)] header_lengths(2) [OF assms(6)]
    by (auto simp: got_packet_cb_def Let_def algebra_simps simp del: of_nat_add of_nat_mult)
qed

text \<open>A segment of two bytes from port 80 to port 443, with four bytes of TCP options.\<close>

definition demo_frame :: "byte list" where
  "demo_frame = replicate 14 0 @ ip_header 0 0 46 [0, 0, 0, 0] 64 6 0 (10, 0, 0, 1) (10, 0, 0, 2) @ [] @
     tcp_header 1 80 443 (replicate 8 0) (replicate 11 0) @ [0x68, 0x69]"

theorem dissect_frame_witness:
  "got_packet_cb demo_frame 1 = Some ([IpPacket 2 (dotted 10 0 0 1) (dotted 10 0 0 2), Protocol ''TCP'',
     TcpPacket (dotted 10 0 0 1) 80 (dotted 10 0 0 2) 80, PayloadSize 2], 2)"
  using dissect_frame [of "replicate 14 0" "[0, 0, 0, 0]" 0 "[]" "replicate 8 0" 1 "replicate 11 0" demo_frame 0 46 64 0
      10 0 0 1 10 0 0 2 80 443 "[0x68, 0x69]" 1]
  by (simp add: demo_frame_def)

text \<open>An ARP packet of at least 42 captured bytes is printed without reading behind them.\<close>

theorem arp_reads:
  "42 \<le> length packet \<Longrightarrow> arp_packet len packet \<noteq> None"
proof -
  assume n: "42 \<le> length packet"
  have b: "bytes_at packet k m \<noteq> None" if "k + m \<le> length packet" for k m
    using that
  proof (induction m arbitrary: k)
    case (Suc m)
    have "bytes_at packet (Suc k) m \<noteq> None" by (rule Suc.IH) (use Suc.prems in simp)
    then show ?case using Suc.prems by auto
  qed simp
  obtain x y z where "field16 packet 14 = Some x" "field16 packet 16 = Some y" "field16 packet 20 = Some z"
    using n field16_None [of packet 14] field16_None [of packet 16] field16_None [of packet 20]
    by (auto simp del: field16_None)
  then show ?thesis
    using n b [of 22 6] b [of 28 4] b [of 32 6] b [of 38 4] by (auto simp: arp_packet_def Let_def)
qed

end
