(* ===== verification/Packet_Capture.thy ===== *)
theory Packet_Capture
  imports Packet_Dissect
begin

text \<open>
  The capture programs \<^verbatim>\<open>tests/test_pcap_tcp.cpp\<close> and \<^verbatim>\<open>tests/test_pcap_arp.cpp\<close>: opening the device,
  the filter, and the loop over the packets. libpcap is the record \<open>pcap\<close> over a state of its own; a
  filter is compiled against the network address of the device. The results of option parsing are an
  argument.
\<close>

section \<open>The library and the options\<close>

record 'p pcap =
  pcap_lookupdev :: "'p \<Rightarrow> string option"
  pcap_open_live :: "string \<Rightarrow> int \<Rightarrow> int \<Rightarrow> int \<Rightarrow> 'p \<Rightarrow> 'p option"
  pcap_datalink :: "'p \<Rightarrow> int"
  pcap_lookupnet :: "string \<Rightarrow> 'p \<Rightarrow> 32 word option"
  pcap_compile :: "string \<Rightarrow> 32 word \<Rightarrow> 'p \<Rightarrow> bool"
  pcap_setfilter :: "string \<Rightarrow> 32 word \<Rightarrow> 'p \<Rightarrow> 'p option"
  pcap_loop :: "'p \<Rightarrow> byte list list"
  pcap_next :: "'p \<Rightarrow> (int \<times> byte list) option \<times> 'p"

datatype capture_options =
    CaptureParseError string
  | CaptureParsed bool "string option" string  \<comment> \<open>help, filter, device\<close>

text \<open>What a program comes to: an exit with a status, an exception nobody catches, or what it has
  printed before it ended with a status.\<close>

datatype 'l capture = CaptureExit int | NoDevice | Printed 'l int

definition DLT_EN10MB :: int where
  "DLT_EN10MB = 1"

definition BUFSIZ :: int where
  "BUFSIZ = 8192"

definition MAXBYTES2CAPTURE :: int where
  "MAXBYTES2CAPTURE = 2048"

definition get_default_device :: "'p pcap \<Rightarrow> 'p \<Rightarrow> string option" where
  "get_default_device P p = pcap_lookupdev P p"

definition device_of :: "'p pcap \<Rightarrow> string \<Rightarrow> 'p \<Rightarrow> string option" where
  "device_of P dev p = (if length dev = 0 then get_default_device P p else Some dev)"

text \<open>The network address is 0 when it cannot be found.\<close>

definition net_of :: "'p pcap \<Rightarrow> string \<Rightarrow> 'p \<Rightarrow> 32 word" where
  "net_of P dev p = (case pcap_lookupnet P dev p of Some net \<Rightarrow> net | None \<Rightarrow> 0)"

text \<open>From the compilation of the filter to the loop, which is \<open>rest\<close>.\<close>

definition with_filter :: "'p pcap \<Rightarrow> string \<Rightarrow> string \<Rightarrow> 'p \<Rightarrow> ('p \<Rightarrow> 'l capture option) \<Rightarrow> 'l capture option" where
  "with_filter P dev bpf p rest = (let net = net_of P dev p in
     if \<not> pcap_compile P bpf net p then Some (CaptureExit (- 1))
     else (case pcap_setfilter P bpf net p of None \<Rightarrow> Some (CaptureExit (- 1)) | Some p \<Rightarrow> rest p))"

section \<open>The TCP printer\<close>

text \<open>\<^verbatim>\<open>pcap_loop\<close> calls the callback for every packet; its static counter goes on.\<close>

fun print_packets :: "byte list list \<Rightarrow> int \<Rightarrow> (dissect_log list \<times> int) option" where
  "print_packets [] count = Some ([], count)"
| "print_packets (packet # packets) count = do {
     (out, count) \<leftarrow> got_packet_cb packet count;
     (outs, count) \<leftarrow> print_packets packets count;
     Some (out @ outs, count) }"

definition pcap_tcp_main :: "'p pcap \<Rightarrow> capture_options \<Rightarrow> 'p \<Rightarrow> dissect_log list capture option" where
  "pcap_tcp_main P opts p = (case opts of
     CaptureParseError e \<Rightarrow> Some (CaptureExit (- 1))
   | CaptureParsed help bpf dev \<Rightarrow>
       if help then Some (CaptureExit 0)
       else (case bpf of None \<Rightarrow> Some (CaptureExit 0) | Some bpf \<Rightarrow>
         (case device_of P dev p of None \<Rightarrow> Some NoDevice | Some dev \<Rightarrow>
           (case pcap_open_live P dev BUFSIZ 1 1000 p of None \<Rightarrow> Some (CaptureExit (- 1)) | Some p \<Rightarrow>
             if pcap_datalink P p \<noteq> DLT_EN10MB then Some (CaptureExit (- 1))
             else with_filter P dev bpf p (\<lambda>p. do {
               (out, count) \<leftarrow> print_packets (pcap_loop P p) 1;
               Some (Printed out 0) })))))"

section \<open>The ARP printer\<close>

text \<open>The loop ends, with an error, when \<^verbatim>\<open>pcap_next\<close> has no packet. Undefined behaviour inside it is \<open>Some
  None\<close>; that it does not end is \<open>None\<close>.\<close>

partial_function (option) arp_loop :: "'p pcap \<Rightarrow> 'p \<Rightarrow> arp_log list \<Rightarrow> arp_log list capture option option" where
  "arp_loop P p out = (case pcap_next P p of
     (None, p) \<Rightarrow> Some (Some (Printed out (- 1)))
   | (Some (len, packet), p) \<Rightarrow> (case arp_packet len packet of
       None \<Rightarrow> Some None
     | Some l \<Rightarrow> arp_loop P p (out @ [l])))"

text \<open>The option for help is declared but not looked at; the filter is fixed. A result of the loop is
  passed on as it is.\<close>

definition pcap_arp_main :: "'p pcap \<Rightarrow> capture_options \<Rightarrow> 'p \<Rightarrow> arp_log list capture option option" where
  "pcap_arp_main P opts p = (case opts of
     CaptureParseError e \<Rightarrow> Some (Some (CaptureExit (- 1)))
   | CaptureParsed help bpf dev \<Rightarrow>
       (case device_of P dev p of None \<Rightarrow> Some (Some NoDevice) | Some dev \<Rightarrow>
         (case pcap_open_live P dev MAXBYTES2CAPTURE 1 512 p of None \<Rightarrow> Some (Some (CaptureExit (- 1))) | Some p \<Rightarrow>
           (let net = net_of P dev p in
             if \<not> pcap_compile P ''arp'' net p then Some (Some (CaptureExit (- 1)))
             else (case pcap_setfilter P ''arp'' net p of None \<Rightarrow> Some (Some (CaptureExit (- 1)))
               | Some p \<Rightarrow> arp_loop P p [])))))"

section \<open>Facts\<close>

text \<open>The numbers of the packets that are printed.\<close>

definition numbers :: "dissect_log list \<Rightarrow> int list" where
  "numbers ls = concat (map (\<lambda>l. case l of IpPacket n s d \<Rightarrow> [n] | _ \<Rightarrow> []) ls)"

lemma numbers_simps [simp]:
  "numbers [] = []" "numbers (ls @ ls') = numbers ls @ numbers ls'"
  "numbers (IpPacket n s d # ls) = n # numbers ls"
  "numbers (BadIpHeader k # ls) = numbers ls" "numbers (Protocol q # ls) = numbers ls"
  "numbers (BadTcpHeader k # ls) = numbers ls" "numbers (TcpPacket s x d y # ls) = numbers ls"
  "numbers (PayloadSize k # ls) = numbers ls"
  by (simp_all add: numbers_def)

lemma packet_numbers:
  "got_packet_cb packet count = Some (out, count') \<Longrightarrow>
   (count' = count \<and> numbers out = []) \<or> (count' = count + 1 \<and> numbers out = [count + 1])"
  by (auto simp: got_packet_cb_def count_up_def Let_def split: Option.bind_splits if_splits)

text \<open>The packets are numbered without gaps in the order they are captured, those with a short IP
  header left out; but the counter starts at 1 and is counted up before it is printed, so that the
  first packet has the number 2.\<close>

theorem packets_numbered:
  "print_packets packets count = Some (out, count') \<Longrightarrow> numbers out = [count + 1 .. count'] \<and> count \<le> count'"
proof (induction packets arbitrary: count out)
  case (Cons packet packets)
  then obtain out1 count1 out2 where one: "got_packet_cb packet count = Some (out1, count1)"
    and rest: "print_packets packets count1 = Some (out2, count')" "out = out1 @ out2"
    by (auto split: Option.bind_splits)
  from Cons.IH [OF rest(1)] packet_numbers [OF one] show ?case
    using upto_rec1 [of "count + 1" count'] rest(2) by auto
qed simp

text \<open>The ARP program never reports success: it ends with -1 as soon as there is no packet.\<close>

lemma arp_loop_steps:
  "(pcap_next P p = (None, q) \<longrightarrow> arp_loop P p out = Some (Some (Printed out (- 1)))) \<and>
   (pcap_next P p = (Some (len, packet), q) \<longrightarrow> 42 \<le> length packet \<longrightarrow>
     (\<exists>l. arp_packet len packet = Some l \<and> arp_loop P p out = arp_loop P q (out @ [l])))"
  using arp_reads [of packet len] by (auto simp: arp_loop.simps)

fun arp_packets :: "(int \<times> byte list) list \<Rightarrow> arp_log list option" where
  "arp_packets [] = Some []"
| "arp_packets ((len, packet) # ps) = do { l \<leftarrow> arp_packet len packet; ls \<leftarrow> arp_packets ps; Some (l # ls) }"

text \<open>A run of the library that delivers these packets and then none.\<close>

fun delivers :: "'p pcap \<Rightarrow> 'p \<Rightarrow> (int \<times> byte list) list \<Rightarrow> bool" where
  "delivers P p [] \<longleftrightarrow> fst (pcap_next P p) = None"
| "delivers P p (x # xs) \<longleftrightarrow> fst (pcap_next P p) = Some x \<and> delivers P (snd (pcap_next P p)) xs"

theorem arp_loop_prints:
  assumes "delivers P p xs" and "list_all (\<lambda>(len, packet). 42 \<le> length packet) xs"
  shows "\<exists>ls. arp_packets xs = Some ls \<and> arp_loop P p out = Some (Some (Printed (out @ ls) (- 1)))"
  using assms
proof (induction xs arbitrary: p out)
  case Nil
  then show ?case using arp_loop_steps [of P p "snd (pcap_next P p)" out] by (cases "pcap_next P p") auto
next
  case (Cons x xs)
  obtain len packet where x: "x = (len, packet)" by fastforce
  obtain q where q: "pcap_next P p = (Some (len, packet), q)" "delivers P q xs"
    using Cons.prems(1) x by (cases "pcap_next P p") auto
  obtain l where l: "arp_packet len packet = Some l" "arp_loop P p out = arp_loop P q (out @ [l])"
    using arp_loop_steps [of P p q out len packet] q(1) Cons.prems(2) x by auto
  show ?case using Cons.IH [OF q(2), of "out @ [l]"] Cons.prems(2) l x by auto
qed

end
