(* ===== verification/Tcp_Server_Life.thy ===== *)
theory Tcp_Server_Life
  imports Tcp_Server_Props
begin

text \<open>
  The end of a connection of the server, event by event: the peer leaves or a read fails, libuv
  finishes the shutdown, libuv closes the handle.
\<close>

section \<open>Losing a connection\<close>

lemma lost_begins_close:
  fixes w :: "('u, 'w, 'a, 's) world"
  assumes laws: "uv_laws L" and inv: "server_inv L w" and c: "sw_conns w h = Some c" "\<not> uv_is_closing L h (wuv w)"
  shows "\<exists>w' c'. run_calls L app k (TcpConnection_on_socket_close c) w = Some w' \<and> server_inv L w' \<and> keeps L w w' \<and>
    sw_conns w' h = Some c' \<and> tc_closeCompleteCallback c' = Some SrvCloseDone \<and> tc_name c' = tc_name c \<and>
    uv_is_closing L h (wuv w') \<and> (\<forall>g. g \<noteq> h \<longrightarrow> uv_is_closing L g (wuv w') = uv_is_closing L g (wuv w)) \<and>
    sw_onConnectCloseCallback w' = sw_onConnectCloseCallback w"
proof -
  have ci: "tc_onConnectCloseCallback c = Some SrvCloseConnection" "map_of (sw_connections w) (tc_name c) = Some h"
    using table_conn [of L w h c] inv c by (auto simp: server_inv_def conn_inv_def)
  obtain c' u and cs :: "(srv_message, srv_close, srv_done, 'w) conn_call list" where
    cl: "TcpConnection_close L (Some SrvCloseDone) (c, wuv w) = ((c', u), cs)"
    by (metis prod.collapse)
  have "tc_handle c = h" using table_conn [of L w h c] inv c(1) by (auto simp: server_inv_def conn_inv_def)
  then have "cs = []" using close_open [OF laws _ cl] c(2) by simp
  then have "run_calls L app k (TcpConnection_on_socket_close c) w = Some (put_uv u (put_conn h c' w))"
    using ci c cl by (simp add: TcpConnection_on_socket_close_def TcpServer_close_connection_def TcpServer_get_connection_def)
  moreover have "sw_conns (put_uv u (put_conn h c' w)) h = Some c'" by (simp add: put_uv_def put_conn_def)
  moreover have "tc_closeCompleteCallback c' = Some SrvCloseDone" "tc_name c' = tc_name c"
    by (simp_all add: close_object [OF cl])
  ultimately show ?thesis using close_call [OF laws inv c(1), of app k] by auto
qed

text \<open>A read that fails closes the connection at once; the end of the stream asks for a shutdown, which
  leaves the connection in place.\<close>

lemma failed_read_closes:
  assumes laws: "uv_laws L" and inv: "server_inv L w" and c: "sw_conns w h = Some c" "\<not> uv_is_closing L h (wuv w)"
    and nread: "nread < 0" "nread \<noteq> UV_EOF"
  shows "\<exists>w' c'. TcpServer_event L A app (Received h nread buf) w = Some w' \<and> server_inv L w' \<and> keeps L w w' \<and>
    sw_conns w' h = Some c' \<and> tc_closeCompleteCallback c' = Some SrvCloseDone \<and> tc_name c' = tc_name c \<and>
    uv_is_closing L h (wuv w') \<and> (\<forall>g. g \<noteq> h \<longrightarrow> uv_is_closing L g (wuv w') = uv_is_closing L g (wuv w)) \<and>
    sw_onConnectCloseCallback w' = sw_onConnectCloseCallback w"
proof -
  let ?c = "c\<lparr>tc_connected := False\<rparr>"
  let ?w = "put_log Error (uv_err_name L nread) (put_conn h ?c w\<lparr>sw_io := sw_io w\<rparr>)"
  have w: "server_inv L ?w" "keeps L w ?w" "sw_conns ?w h = Some ?c" "wuv ?w = wuv w"
    "sw_onConnectCloseCallback ?w = sw_onConnectCloseCallback w"
    using lost_inv [OF inv c(1)] by (auto simp: put_log_def put_conn_def)
  have "TcpServer_event L A app (Received h nread buf) w = run_calls L app h (TcpConnection_on_socket_close ?c) ?w"
    using c(1) nread by (simp add: TcpServer_event_def TcpConnection_on_mesage_receive_def
        TcpConnection_set_connect_status_def Let_def)
  then show ?thesis
    using lost_begins_close [OF laws w(1,3), of app h] c(2) w(2,4,5) keeps_trans [OF w(2)] by auto
qed

lemma eof_asks_shutdown:
  fixes w :: "('u, 'w, 'a, 's) world"
  assumes laws: "uv_laws L" and inv: "server_inv L w" and c: "sw_conns w h = Some c"
    and ok: "fst (uv L (UvShutdown (io_next (sw_io w)) h) (wuv w)) = 0"
  shows "\<exists>w' c'. TcpServer_event L A app (Received h UV_EOF buf) w = Some w' \<and> server_inv L w' \<and> keeps L w w' \<and>
    sw_conns w' h = Some c' \<and> tc_name c' = tc_name c \<and> map_of (io_shutdowns (sw_io w')) (io_next (sw_io w)) = Some h \<and>
    (\<forall>g. uv_is_closing L g (wuv w') = uv_is_closing L g (wuv w)) \<and>
    sw_onConnectCloseCallback w' = sw_onConnectCloseCallback w"
proof -
  let ?c = "c\<lparr>tc_connected := False\<rparr>" and ?r = "io_next (sw_io w)"
  have ci: "conn_inv L (wuv w) h c" "tc_handle c = h"
    using table_conn [of L w h c] inv c by (auto simp: server_inv_def conn_inv_def)
  let ?io = "(sw_io w)\<lparr>io_uv := uv_do L (UvShutdown ?r h) (wuv w), io_next := Suc ?r,
      io_shutdowns := (?r, h) # io_shutdowns (sw_io w)\<rparr>"
  let ?w = "put_log Error (uv_err_name L UV_EOF) (put_conn h ?c w\<lparr>sw_io := ?io\<rparr>)"
  have cl: "uv_is_closing L g (wuv ?w) = uv_is_closing L g (wuv w)" for g
    using laws by (simp add: put_log_def uv_simps)
  have "TcpServer_event L A app (Received h UV_EOF buf) w = Some ?w"
    using c ok ci(2) by (simp add: TcpServer_event_def TcpConnection_on_mesage_receive_def UV_EOF_def
        TcpConnection_set_connect_status_def uv_do_def Let_def split_beta)
  moreover have "table_inv L ?w"
    using inv c ci cl by (intro table_inv_update [of L w h c ?c ?w])
      (simp_all add: server_inv_def put_conn_def put_log_def conn_inv_def)
  moreover have "heap_inv ?w"
    using inv c by (auto simp: server_inv_def heap_inv_def put_conn_def put_log_def intro: less_SucI)
  moreover have "keeps L w ?w" "idle_inv ?w"
    using inv c cl by (auto simp: server_inv_def idle_inv_def put_conn_def put_log_def keeps_def)
  ultimately show ?thesis
    using cl by (intro exI [of _ ?w] exI [of _ ?c]) (simp add: server_inv_def put_log_def put_conn_def)
qed

section \<open>From the loss to the release\<close>

text \<open>C6: A peer that leaves is let go. When a read of an open connection fails the handle begins to close at
  once; when the stream has ended, and libuv takes the shutdown, it does when the shutdown is done, and
  the connection stays open and in the table until then. When libuv has closed the handle the
  application is told, once and while it still finds the connection under its name; then the entry is
  gone and the connection freed. No other handle is closed and no other connection freed.\<close>

theorem peer_leaves:
  assumes "uv_laws L" and "app_ok L V app" and "srv_reach L A V app w"
    and "sw_conns w h = Some c" and "\<not> uv_is_closing L h (wuv w)" and "nread < 0"
    and "fst (uv L (UvShutdown (io_next (sw_io w)) h) (wuv w)) = 0"
  shows "\<exists>w1 w2 w3 w4. TcpServer_event L A app (Received h nread buf) w = Some w1 \<and>
    (if nread = UV_EOF
     then \<not> uv_is_closing L h (wuv w1) \<and> TcpServer_get_connection (tc_name c) w1 = Some h \<and>
       TcpServer_event L A app (ShutdownDone (io_next (sw_io w))) w1 = Some w2
     else w2 = w1) \<and>
    uv_is_closing L h (wuv w2) \<and> (\<forall>g. g \<noteq> h \<longrightarrow> uv_is_closing L g (wuv w2) = uv_is_closing L g (wuv w)) \<and>
    TcpServer_get_connection (tc_name c) w2 = Some h \<and>
    app_opt app (sw_onConnectCloseCallback w) (\<lambda>a. AppConnectClose a h) w2 = Some w3 \<and>
    TcpServer_event L A app (Closed h) w2 = Some w4 \<and> w4 = TcpServer_remove_connection (tc_name c) w3 \<and>
    TcpServer_get_connection (tc_name c) w4 = None \<and> sw_conns w4 h = None \<and>
    (\<forall>g. g \<noteq> h \<longrightarrow> map_option tc_name (sw_conns w4 g) = map_option tc_name (sw_conns w g))"
proof -
  have inv: "server_inv L w" by (rule srv_reach_inv [OF assms(3,1,2)])
  obtain w1 w2 c2 where first: "TcpServer_event L A app (Received h nread buf) w = Some w1"
    "if nread = UV_EOF
     then \<not> uv_is_closing L h (wuv w1) \<and> TcpServer_get_connection (tc_name c) w1 = Some h \<and>
       TcpServer_event L A app (ShutdownDone (io_next (sw_io w))) w1 = Some w2
     else w2 = w1" and
    w2: "server_inv L w2" "keeps L w w2" "sw_conns w2 h = Some c2" "tc_closeCompleteCallback c2 = Some SrvCloseDone"
      "tc_name c2 = tc_name c" "uv_is_closing L h (wuv w2)"
      "\<forall>g. g \<noteq> h \<longrightarrow> uv_is_closing L g (wuv w2) = uv_is_closing L g (wuv w)"
      "sw_onConnectCloseCallback w2 = sw_onConnectCloseCallback w"
  proof (cases "nread = UV_EOF")
    case False
    then show ?thesis
      using failed_read_closes [OF assms(1) inv assms(4,5,6) False, of A app buf] that by fastforce
  next
    case True
    obtain w1 c1 where w1: "TcpServer_event L A app (Received h UV_EOF buf) w = Some w1" "server_inv L w1" "keeps L w w1"
      "sw_conns w1 h = Some c1" "tc_name c1 = tc_name c" "map_of (io_shutdowns (sw_io w1)) (io_next (sw_io w)) = Some h"
      "\<forall>g. uv_is_closing L g (wuv w1) = uv_is_closing L g (wuv w)"
      "sw_onConnectCloseCallback w1 = sw_onConnectCloseCallback w"
      using eof_asks_shutdown [OF assms(1) inv assms(4,7), of A app buf] by auto
    let ?w = "w1\<lparr>sw_io := (sw_io w1)\<lparr>io_shutdowns := AList.delete (io_next (sw_io w)) (io_shutdowns (sw_io w1))\<rparr>\<rparr>"
    have w: "server_inv L ?w \<and> keeps L w1 ?w" by (rule server_inv_same [OF w1(2)]) simp_all
    have ev: "TcpServer_event L A app (ShutdownDone (io_next (sw_io w))) w1 =
        run_calls L app h (TcpConnection_on_socket_close c1) ?w"
      using w1(4,6) by (simp add: TcpServer_event_def shutdown_done_def)
    have get: "TcpServer_get_connection (tc_name c) w1 = Some h"
      using table_conn [of L w1 h c1] w1(2,4,5) by (simp add: server_inv_def TcpServer_get_connection_def)
    obtain w2 c2 where "TcpServer_event L A app (ShutdownDone (io_next (sw_io w))) w1 = Some w2" "server_inv L w2"
      "keeps L w w2" "sw_conns w2 h = Some c2" "tc_closeCompleteCallback c2 = Some SrvCloseDone" "tc_name c2 = tc_name c"
      "uv_is_closing L h (wuv w2)" "\<forall>g. g \<noteq> h \<longrightarrow> uv_is_closing L g (wuv w2) = uv_is_closing L g (wuv w)"
      "sw_onConnectCloseCallback w2 = sw_onConnectCloseCallback w"
      using lost_begins_close [OF assms(1) conjunct1 [OF w], of h c1 app h] w1 w assms(5)
        keeps_trans [OF keeps_trans [OF w1(3) conjunct2 [OF w]]] unfolding ev by auto
    then show ?thesis using that [of w1 w2 c2] w1(1,7) True get assms(5) by simp
  qed
  have get2: "TcpServer_get_connection (tc_name c) w2 = Some h"
    using table_conn [of L w2 h c2] w2(1,3,5) by (simp add: server_inv_def TcpServer_get_connection_def)
  obtain w3 w4 where fin: "app_opt app (sw_onConnectCloseCallback w2) (\<lambda>a. AppConnectClose a h) w2 = Some w3"
    "keeps L w2 w3" "server_inv L w3" "run_calls L app h (TcpConnection_close_complete c2) w2 = Some w4"
    "w4 = w3\<lparr>sw_connections := AList.delete (tc_name c2) (sw_connections w3), sw_conns := (sw_conns w3)(h := None),
      sw_released := (sw_released w3)(h := sw_conns w3 h)\<rparr>"
    using close_done [OF assms(2) w2(1,3,4), of h] by blast
  obtain c3 where c3: "sw_conns w3 h = Some c3" "tc_name c3 = tc_name c2"
    using fin(2) w2(3) unfolding keeps_def by (metis option.simps(9) map_option_eq_Some)
  have t3: "table_inv L w3" using fin(3) by (simp add: server_inv_def)
  have rem: "w4 = TcpServer_remove_connection (tc_name c) w3"
    using release_last [OF t3, of "tc_name c2" h] table_conn [OF t3 c3(1)] c3(2) fin(5) w2(5) by simp
  have "TcpServer_event L A app (Closed h) w2 = Some w4"
    using fin(4) w2(3) by (simp add: TcpServer_event_def)
  moreover have "TcpServer_get_connection (tc_name c) w4 = None" "sw_conns w4 h = None"
    using fin(5) w2(5) by (simp_all add: TcpServer_get_connection_def AList.delete_conv)
  moreover have "\<forall>g. g \<noteq> h \<longrightarrow> map_option tc_name (sw_conns w4 g) = map_option tc_name (sw_conns w g)"
    using fin(2,5) w2(2) by (simp add: keeps_def)
  ultimately show ?thesis
    using first w2(6,7) get2 fin(1)[unfolded w2(8)] rem by (intro exI [of _ w1] exI [of _ w2] exI [of _ w3] exI [of _ w4]) (intro conjI)
qed

text \<open>A server with one client.\<close>

definition demo_served :: "(uv_call list, string, string, unit) world" where
  "demo_served = the (TcpServer_event trace_uv demo_addr_lib (\<lambda>x w. Some w) (Accepted 0 9)
     (snd (the (TcpServer_listen trace_uv demo_addr demo_server))))"

lemma demo_served_runs:
  "map_option fst (TcpServer_listen trace_uv demo_addr demo_server) = Some 0"
  "\<not> Option.is_none (TcpServer_event trace_uv demo_addr_lib (\<lambda>x w. Some w) (Accepted 0 9)
     (snd (the (TcpServer_listen trace_uv demo_addr demo_server))))"
  "map_option tc_connected (sw_conns demo_served 9) = Some True" "\<not> uv_is_closing trace_uv 9 (wuv demo_served)" "io_next (sw_io demo_served) = 11"
  by code_simp+

lemma demo_served_listen:
  "case TcpServer_listen trace_uv demo_addr demo_server of Some (r, w) \<Rightarrow> \<not> Option.is_none (sw_acceptor w) \<and>
     Option.is_none (sw_conns w 9) \<and> sw_connections w = [] \<and> sw_ipv w = Ipv4 | None \<Rightarrow> False"
  by code_simp

lemma demo_served_reach: "srv_reach trace_uv demo_addr_lib (\<lambda>buf. True) (\<lambda>x w. Some w) demo_served"
proof -
  obtain w where w: "TcpServer_listen trace_uv demo_addr demo_server = Some (0, w)"
    "sw_acceptor w \<noteq> None" "sw_conns w 9 = None" "sw_connections w = []" "sw_ipv w = Ipv4"
    using demo_served_runs(1) demo_served_listen by (auto simp: Option.is_none_def)
  have "unstarted demo_server" unfolding demo_server_def by (intro unstarted_new)
  from srv_reach.listen [OF this w(1)]
  have "srv_reach trace_uv demo_addr_lib (\<lambda>buf. True) (\<lambda>x w. Some w) w" .
  then show ?thesis
  proof (rule srv_reach.event)
    show "deliverable demo_addr_lib trace_uv (\<lambda>buf. True) (Accepted 0 9) w"
      using w by (auto simp: deliverable_def SocketAddr_addr_to_str_def SocketAddr_get_ip_and_port_def inet_ntoa_def at_def
          trace_uv_def)
    show "TcpServer_event trace_uv demo_addr_lib (\<lambda>x w. Some w) (Accepted 0 9) w = Some demo_served"
      using demo_served_runs(2) unfolding demo_served_def w(1) by (auto simp: Option.is_none_def)
  qed
qed

theorem peer_leaves_witness:
  "\<exists>w1 w2 w4. TcpServer_event trace_uv demo_addr_lib (\<lambda>x w. Some w) (Received 9 UV_EOF []) demo_served = Some w1 \<and>
     TcpServer_event trace_uv demo_addr_lib (\<lambda>x w. Some w) (ShutdownDone 11) w1 = Some w2 \<and> uv_is_closing trace_uv 9 (wuv w2) \<and>
     TcpServer_event trace_uv demo_addr_lib (\<lambda>x w. Some w) (Closed 9) w2 = Some w4 \<and> sw_conns w4 9 = None"
proof -
  obtain c where c: "sw_conns demo_served 9 = Some c" using demo_served_runs(3) by auto
  have neg: "UV_EOF < 0" by (simp add: UV_EOF_def)
  have ok: "fst (uv trace_uv (UvShutdown (io_next (sw_io demo_served)) 9) (wuv demo_served)) = 0" by (simp add: trace_uv_def)
  from peer_leaves [OF trace_uv_laws idle_app_ok demo_served_reach c demo_served_runs(4) neg ok, of "[]"]
  show ?thesis using demo_served_runs(5) by auto
qed

end
