(* ===== verification/Posted_Writes.thy ===== *)
theory Posted_Writes
  imports Tcp_Server_Life
begin

text \<open>
  Writes from other threads: \<^verbatim>\<open>TcpConnection::write_in_loop\<close> (\<^verbatim>\<open>ae/tcp_connection.cpp\<close>) and
  \<^verbatim>\<open>TcpServer::write_in_loop\<close> (\<^verbatim>\<open>ae/tcp_server.cpp\<close>) over \<^verbatim>\<open>EventLoop::run_in_this_loop\<close> and the
  queue of \<^verbatim>\<open>Async\<close>. The posting threads and the loop thread interleave as in \<open>Async_Task\<close>, what is
  posted are writes, and the loop thread also takes the events of the server. A thread posts through
  a connection it refers to.
\<close>

section \<open>The system\<close>

type_synonym 'w post = "hid \<times> byte list \<times> 'w option"

text \<open>What became of a posted write: libuv has the request, or its callback was told a status.\<close>

datatype write_outcome = Queued rid | Reported int

definition write_outcome :: "'u libuv \<Rightarrow> 'w post \<Rightarrow> ('u, 'w, 'a, 's) world \<Rightarrow> write_outcome" where
  "write_outcome L = (\<lambda>(h, buf, callback) w. case sw_conns w h of
     None \<Rightarrow> Reported Disconnected
   | Some c \<Rightarrow>
       if tc_connected c
       then let r = io_next (sw_io w); rst = fst (uv L (UvWrite r (tc_handle c) (uv_buf buf)) (wuv w))
            in if rst = 0 then Queued r else Reported rst
       else Reported Disconnected)"

text \<open>The system of the threads, the server, and the writes carried out so far with their outcomes.\<close>

record ('u, 'w, 'a, 's) posting =
  pg_system :: "('w post, loop_close) system"
  pg_world :: "('u, 'w, 'a, 's) world"
  pg_done :: "('w post \<times> write_outcome) list"

text \<open>The steps that go on by themselves: those of \<open>own_step\<close>. The one that runs a posted function writes
  to the server's world. There is no such step when the write has no callback and its connection is
  gone: the function calls an empty function object then, and nobody catches the exception.\<close>

inductive loop_step :: "'u libuv \<Rightarrow> ('u, 'w, 'a, 's) app \<Rightarrow> ('u, 'w, 'a, 's) posting \<Rightarrow>
    ('u, 'w, 'a, 's) posting \<Rightarrow> bool" for L app where
  other: "own_step (pg_system p) s \<Longrightarrow> sy_executed s = sy_executed (pg_system p) \<Longrightarrow>
    loop_step L app p (p\<lparr>pg_system := s\<rparr>)"
| run: "own_step (pg_system p) s \<Longrightarrow> sy_executed s = sy_executed (pg_system p) @ [k] \<Longrightarrow>
    run_posted_write L app k (pg_world p) = Some w \<Longrightarrow>
    loop_step L app p (p\<lparr>pg_system := s, pg_world := w,
      pg_done := pg_done p @ [(k, write_outcome L k (pg_world p))]\<rparr>)"

definition post_crashes :: "('u, 'w, 'a, 's) posting \<Rightarrow> bool" where
  "post_crashes p \<longleftrightarrow> (case sy_local (pg_system p) of
     (h, buf, callback) # q \<Rightarrow> callback = None \<and> sw_conns (pg_world p) h = None | [] \<Rightarrow> False)"

text \<open>The states: the server listens; threads post writes to connections they refer to; between two
  wake-ups the loop thread takes the events libuv delivers, and a new client has an address that no
  connection still referred to has.\<close>

definition fresh_client :: "srv_event \<Rightarrow> ('u, 'w, 'a, 's) world \<Rightarrow> bool" where
  "fresh_client e w \<longleftrightarrow> (case e of Accepted status client \<Rightarrow> held client w = None | _ \<Rightarrow> True)"

inductive posting_reach :: "'u libuv \<Rightarrow> addr_lib \<Rightarrow> (byte list \<Rightarrow> bool) \<Rightarrow> ('u, 'w, 'a, 's) app \<Rightarrow>
    ('u, 'w, 'a, 's) posting \<Rightarrow> bool" for L A V app where
  start: "srv_reach L A V app w \<Longrightarrow>
    posting_reach L A V app \<lparr>pg_system = system_init, pg_world = w, pg_done = []\<rparr>"
| post: "posting_reach L A V app p \<Longrightarrow> post_step (pg_system p) s \<Longrightarrow>
    sy_posted s = sy_posted (pg_system p) @ [(h, buf, cb)] \<Longrightarrow> held h (pg_world p) \<noteq> None \<Longrightarrow>
    posting_reach L A V app (p\<lparr>pg_system := s\<rparr>)"
| event: "posting_reach L A V app p \<Longrightarrow> sy_phase (pg_system p) = Waiting \<Longrightarrow>
    deliverable A L V e (pg_world p) \<Longrightarrow> fresh_client e (pg_world p) \<Longrightarrow>
    TcpServer_event L A app e (pg_world p) = Some w \<Longrightarrow> posting_reach L A V app (p\<lparr>pg_world := w\<rparr>)"
| loop: "posting_reach L A V app p \<Longrightarrow> loop_step L app p p' \<Longrightarrow> posting_reach L A V app p'"

section \<open>One posted write\<close>

lemma posted_write_good:
  fixes w :: "('u, 'w, 'a, 's) world"
  assumes laws: "uv_laws L" and app: "app_ok L V app" and inv: "server_inv L w"
    and alive: "cb \<noteq> None \<or> sw_conns w h \<noteq> None"
  shows "\<exists>w'. run_posted_write L app (h, buf, cb) w = Some w' \<and> server_inv L w' \<and> keeps L w w'"
proof (cases "sw_conns w h")
  case None
  then obtain f where "cb = Some f" using alive by blast
  moreover have "call_ok V (AppWrite f i) w" for i by simp
  ultimately show ?thesis
    using app inv None unfolding app_ok_def
    by (fastforce simp: run_posted_write_def TcpConnection_write_in_loop_def)
next
  case (Some c)
  obtain rst io and cs :: "(srv_message, srv_close, srv_done, 'w) conn_call list"
    where wr: "TcpConnection_write L buf cb c (sw_io w) = (rst, io, cs)" by (metis surj_pair)
  let ?w = "w\<lparr>sw_io := io\<rparr>"
  have w: "server_inv L ?w \<and> keeps L w ?w"
    using server_inv_same [OF inv, of ?w] write_io [OF laws wr] by simp
  obtain w' where "run_calls L app h cs ?w = Some w'" "server_inv L w'" "keeps L ?w w'"
    using report_calls [OF app] w write_reports(1) [OF wr] by blast
  then show ?thesis
    using w keeps_trans [of L w ?w w'] Some wr
    by (auto simp: run_posted_write_def TcpConnection_write_in_loop_def)
qed

lemma posted_write_crash:
  "sw_conns w h = None \<Longrightarrow> run_posted_write L app (h, buf, None) w = None"
  by (simp add: run_posted_write_def TcpConnection_write_in_loop_def)


section \<open>The whole system\<close>

definition posting_inv :: "'u libuv \<Rightarrow> ('u, 'w, 'a, 's) posting \<Rightarrow> bool" where
  "posting_inv L p \<longleftrightarrow> async_inv (pg_system p) \<and> server_inv L (pg_world p) \<and>
     map fst (pg_done p) = sy_executed (pg_system p)"

inductive_cases loop_stepE: "loop_step L app p p'"

lemma loop_step_own: "loop_step L app p p' \<Longrightarrow> own_step (pg_system p) (pg_system p')"
  by (erule loop_stepE) simp_all

text \<open>The server never holds the threads up: every step of theirs can be taken, but for the write that
  crashes.\<close>

lemma loop_step_simulates:
  assumes laws: "uv_laws L" and app: "app_ok L V app" and inv: "posting_inv L p" and own: "own_step (pg_system p) s"
    and ok: "sy_executed s = sy_executed (pg_system p) \<or> \<not> post_crashes p"
  shows "\<exists>p'. loop_step L app p p' \<and> pg_system p' = s"
proof (cases "sy_executed s = sy_executed (pg_system p)")
  case True
  then show ?thesis using loop_step.other [OF own] by force
next
  case False
  then obtain h buf cb q where k: "sy_local (pg_system p) = (h, buf, cb) # q"
    "sy_executed s = sy_executed (pg_system p) @ [(h, buf, cb)]" using own_step_executes [OF own] by (metis prod_cases3)
  have "cb \<noteq> None \<or> sw_conns (pg_world p) h \<noteq> None" using ok False k(1) by (simp add: post_crashes_def)
  moreover have "server_inv L (pg_world p)" using inv by (simp add: posting_inv_def)
  ultimately obtain w' where "run_posted_write L app (h, buf, cb) (pg_world p) = Some w'"
    using posted_write_good [OF laws app, of "pg_world p" cb h buf] by blast
  from loop_step.run [OF own k(2) this] show ?thesis by force
qed

lemma loop_step_blocked:
  assumes "own_step (pg_system p) s" "sy_executed s \<noteq> sy_executed (pg_system p)" "post_crashes p"
  shows "\<not> (loop_step L app p p' \<and> pg_system p' = s)"
proof
  assume a: "loop_step L app p p' \<and> pg_system p' = s"
  then obtain k w where k: "sy_executed s = sy_executed (pg_system p) @ [k]" "run_posted_write L app k (pg_world p) = Some w"
    using assms(2) by (auto elim!: loop_stepE)
  then obtain q where "sy_local (pg_system p) = k # q" using own_step_executes [OF assms(1)] by auto
  then show False using k(2) assms(3) by (cases k) (auto simp: post_crashes_def posted_write_crash)
qed

lemma loop_step_inv:
  assumes laws: "uv_laws L" and app: "app_ok L V app" and step: "loop_step L app p p'" and inv: "posting_inv L p"
  shows "posting_inv L p'"
  using step
proof cases
  case (other s)
  then show ?thesis
    using inv own_step_inv [OF other(2)] own_step_posted [OF other(2)] by (simp add: posting_inv_def)
next
  case (run s k w)
  obtain h buf cb where k: "k = (h, buf, cb)" by (metis prod_cases3)
  have "cb \<noteq> None \<or> sw_conns (pg_world p) h \<noteq> None"
  proof (rule ccontr)
    assume "\<not> (cb \<noteq> None \<or> sw_conns (pg_world p) h \<noteq> None)"
    then show False using run(4) by (simp add: k posted_write_crash)
  qed
  moreover have "server_inv L (pg_world p)" using inv by (simp add: posting_inv_def)
  ultimately have "server_inv L w"
    using posted_write_good [OF laws app, of "pg_world p" cb h buf] run(4) k by auto
  then show ?thesis
    using run inv own_step_inv [OF run(2)] own_step_posted [OF run(2)] by (simp add: posting_inv_def)
qed

lemma posting_reach_inv:
  "posting_reach L A V app p \<Longrightarrow> uv_laws L \<Longrightarrow> app_ok L V app \<Longrightarrow> posting_inv L p"
proof (induction rule: posting_reach.induct)
  case (start w)
  then show ?case
    using srv_reach_inv [of L A V app w] init_inv
    by (simp add: posting_inv_def system_init_def)
next
  case (post p s h buf cb)
  have "async_inv s" using post_step_inv post by (auto simp: posting_inv_def)
  moreover have "sy_executed s = sy_executed (pg_system p)" using post(2) by (auto elim: post_stepE)
  ultimately show ?case using post by (auto simp: posting_inv_def)
next
  case (event p e w)
  then show ?case using event_good [of L V app "pg_world p" A e] by (auto simp: posting_inv_def)
next
  case (loop p p')
  then show ?case using loop_step_inv by blast
qed

lemma loop_steps_inv:
  "(loop_step L app)\<^sup>*\<^sup>* p q \<Longrightarrow> uv_laws L \<Longrightarrow> app_ok L V app \<Longrightarrow> posting_inv L p \<Longrightarrow> posting_inv L q"
  by (induction rule: rtranclp_induct) (auto intro: loop_step_inv)

lemma loop_steps_own: "(loop_step L app)\<^sup>*\<^sup>* p q \<Longrightarrow> own_step\<^sup>*\<^sup>* (pg_system p) (pg_system q)"
  by (induction rule: rtranclp_induct) (auto intro: rtranclp.rtrancl_into_rtrancl dest: loop_step_own)

text \<open>Where no write lacks a callback nothing crashes, and the threads are simulated step by step.\<close>

lemma loop_steps_simulate:
  assumes "uv_laws L" "app_ok L V app" "posting_inv L p" "own_step\<^sup>*\<^sup>* (pg_system p) s"
    and "\<forall>(h, buf, cb) \<in> set (sy_posted (pg_system p)). cb \<noteq> None"
  shows "\<exists>q. (loop_step L app)\<^sup>*\<^sup>* p q \<and> pg_system q = s"
  using assms(4)
proof (induction rule: rtranclp_induct)
  case (step s s')
  then obtain q where q: "(loop_step L app)\<^sup>*\<^sup>* p q" "pg_system q = s" by blast
  note inv = loop_steps_inv [OF q(1) assms(1-3)]
  have "set (sy_local (pg_system q)) \<subseteq> set (sy_posted (pg_system p))"
    using inv own_steps_posted [OF loop_steps_own [OF q(1)]] by (auto simp: posting_inv_def inv_defs)
  then have "\<not> post_crashes q" using assms(5) by (auto simp: post_crashes_def split: list.splits)
  then obtain q' where "loop_step L app q q'" "pg_system q' = s'"
    using loop_step_simulates [OF assms(1,2) inv] step(2) q(2) by blast
  then show ?case using q(1) rtranclp.rtrancl_into_rtrancl by metis
qed auto

section \<open>Properties\<close>

text \<open>C23: Every write that is posted is carried out. Threads post writes, with a callback or without, to
  connections they keep a reference to; the application keeps to its interface and no client is
  accepted that has the peer name of a connection in the table. Then, whatever the interleaving of
  the posting threads, the loop thread and the events of the server, the writes carried out so far,
  those the loop thread has taken and those in the queue are the writes posted, in the order they
  were posted in. The one step the server can block is the run of a write that has no callback and
  whose connection is gone, which crashes; every other step of the threads can be taken. And left to
  themselves the threads come to an end, with all that was posted carried out, unless a write
  crashes or a wake-up met the handle before it was initialised.\<close>

theorem posted_writes_done:
  assumes "uv_laws L" and "app_ok L V app" and "posting_reach L A V app p"
  shows "sy_posted (pg_system p) = map fst (pg_done p) @ sy_local (pg_system p) @ as_callbacks (sy_async (pg_system p)) \<and>
    (\<forall>s. own_step (pg_system p) s \<longrightarrow>
      (\<exists>p'. loop_step L app p p' \<and> pg_system p' = s) \<longleftrightarrow> sy_executed s = sy_executed (pg_system p) \<or> \<not> post_crashes p) \<and>
    \<not> (\<exists>f. f 0 = p \<and> (\<forall>i. loop_step L app (f i) (f (Suc i)))) \<and>
    (\<forall>q. (loop_step L app)\<^sup>*\<^sup>* p q \<and> (\<forall>q'. \<not> loop_step L app q q') \<and> \<not> sy_bad (pg_system q) \<and> \<not> post_crashes q \<longrightarrow>
      map fst (pg_done q) = sy_posted (pg_system p))"
proof (intro conjI allI impI)
  note inv = posting_reach_inv [OF assms(3,1,2)]
  show "sy_posted (pg_system p) = map fst (pg_done p) @ sy_local (pg_system p) @ as_callbacks (sy_async (pg_system p))"
    using inv by (simp add: posting_inv_def inv_defs)
  show "(\<exists>p'. loop_step L app p p' \<and> pg_system p' = s) \<longleftrightarrow> sy_executed s = sy_executed (pg_system p) \<or> \<not> post_crashes p"
    if "own_step (pg_system p) s" for s
    using loop_step_simulates [OF assms(1,2) inv that] loop_step_blocked [OF that, of L app] by blast
  show "\<not> (\<exists>f. f 0 = p \<and> (\<forall>i. loop_step L app (f i) (f (Suc i))))"
  proof
    assume "\<exists>f. f 0 = p \<and> (\<forall>i. loop_step L app (f i) (f (Suc i)))"
    then obtain f where "f 0 = p" "\<forall>i. loop_step L app (f i) (f (Suc i))" by blast
    then have "pg_system (f 0) = pg_system p \<and> (\<forall>i. own_step (pg_system (f i)) (pg_system (f (Suc i))))"
      using loop_step_own by blast
    moreover have "async_inv (pg_system p)" using inv by (simp add: posting_inv_def)
    ultimately show False
      using no_endless_run [of "pg_system p"] by (simp add: exI [of _ "\<lambda>i. pg_system (f i)"])
  qed
  show "map fst (pg_done q) = sy_posted (pg_system p)"
    if q: "(loop_step L app)\<^sup>*\<^sup>* p q \<and> (\<forall>q'. \<not> loop_step L app q q') \<and> \<not> sy_bad (pg_system q) \<and> \<not> post_crashes q" for q
  proof -
    have inv_q: "posting_inv L q" using loop_steps_inv [OF _ assms(1,2) inv] q by blast
    then have "\<not> own_step (pg_system q) s" for s
      using loop_step_simulates [OF assms(1,2) inv_q] q by blast
    then have "sy_executed (pg_system q) = sy_posted (pg_system q)"
      using stuck_done [of "pg_system q"] inv_q q by (simp add: posting_inv_def)
    then show ?thesis
      using inv_q own_steps_posted [OF loop_steps_own, of L app p q] q by (simp add: posting_inv_def)
  qed
qed


section \<open>A run\<close>

text \<open>Another thread posts a write to a server with one client before the loop has started.\<close>

definition demo_posting :: "(uv_call list, string, string, unit) posting" where
  "demo_posting = \<lparr>pg_system = early_post system_init (9, [0x68, 0x69], Some ''sent''), pg_world = demo_served, pg_done = []\<rparr>"

lemma demo_posting_reach:
  "posting_reach trace_uv demo_addr_lib (\<lambda>buf. True) (\<lambda>x w. Some w) demo_posting"
proof -
  have "sw_conns demo_served 9 \<noteq> None" using demo_served_runs(3) by auto
  then have "posting_reach trace_uv demo_addr_lib (\<lambda>buf. True) (\<lambda>x w. Some w)
      (\<lparr>pg_system = system_init, pg_world = demo_served, pg_done = []\<rparr>\<lparr>pg_system := early_post system_init (9, [0x68, 0x69], Some ''sent'')\<rparr>)"
    by (intro posting_reach.post [OF posting_reach.start [OF demo_served_reach], where h = 9 and buf = "[0x68, 0x69]" and cb = "Some ''sent''"])
      (auto simp: early_post_def system_init_def held_def intro: post_step.push [of system_init, unfolded system_init_def, simplified])
  then show ?thesis by (simp add: demo_posting_def)
qed

theorem posted_writes_done_witness:
  "\<exists>q. (loop_step trace_uv (\<lambda>x w. Some w))\<^sup>*\<^sup>* demo_posting q \<and>
     map fst (pg_done q) = [(9, [0x68, 0x69], Some ''sent'')] \<and> sy_executed (pg_system q) = map fst (pg_done q)"
proof -
  let ?k = "(9, [0x68, 0x69], Some ''sent'') :: string post"
  have p: "pg_system demo_posting = early_post system_init ?k" by (simp add: demo_posting_def)
  note inv = posting_reach_inv [OF demo_posting_reach trace_uv_laws idle_app_ok]
  have posted: "\<forall>(h, buf, cb) \<in> set (sy_posted (pg_system demo_posting)). cb \<noteq> None"
    by (simp add: p early_post_def system_init_def)
  obtain q where q: "(loop_step trace_uv (\<lambda>x w. Some w))\<^sup>*\<^sup>* demo_posting q" "pg_system q = drained ?k"
    using loop_steps_simulate [OF trace_uv_laws idle_app_ok inv _ posted, of "drained ?k"] drained_run [of ?k] unfolding p by blast
  have stuck: "\<not> loop_step trace_uv (\<lambda>x w. Some w) q q'" for q'
    using loop_step_own [of _ _ q q'] drained_stuck [of ?k] q(2) by auto
  have s: "\<not> sy_bad (pg_system q)" "sy_executed (pg_system q) = [?k]" "sy_posted (pg_system demo_posting) = [?k]"
    "\<not> post_crashes q"
    using q(2) by (simp_all add: drained_def p early_post_def system_init_def post_crashes_def)
  have "map fst (pg_done q) = sy_posted (pg_system demo_posting)"
    using posted_writes_done [OF trace_uv_laws idle_app_ok demo_posting_reach] q(1) stuck s(1,4) by blast
  then show ?thesis using q(1) s(2,3) by (intro exI [of _ q]) simp
qed



end
