(* ===== verification/Tcp_Server_Idle.thy ===== *)
theory Tcp_Server_Idle
  imports Tcp_Server_Life Tcp_Server_Moves
begin

text \<open>
  Idle connections over whole runs of the server (\<^verbatim>\<open>ae/tcp_server.cpp\<close>, \<^verbatim>\<open>ae/timer_wheel.h\<close>): every open
  connection has a wrapper of its own in the wheel, only data of the connection itself renews it,
  and so a silent connection is let go when the timeout is over. \<open>tracked\<close> is the invariant,
  \<open>event_tracks\<close> what every event does to the idle time of a wrapper.
\<close>

section \<open>Quiet steps\<close>

text \<open>A step that makes no connection, moves none to another wrapper and reopens no handle; if it leaves
  the wheel and the wrappers as well it is quiet.\<close>

definition conns_still :: "'u libuv \<Rightarrow> ('u, 'w, 'a, 's) world \<Rightarrow> ('u, 'w, 'a, 's) world \<Rightarrow> bool" where
  "conns_still L w w' \<longleftrightarrow> io_next (sw_io w) \<le> io_next (sw_io w') \<and>
     (\<forall>g c'. sw_conns w' g = Some c' \<longrightarrow> (\<exists>c. sw_conns w g = Some c \<and> tc_wrapper c' = tc_wrapper c) \<and>
       (uv_is_closing L g (wuv w) \<longrightarrow> uv_is_closing L g (wuv w')))"

definition still :: "'u libuv \<Rightarrow> ('u, 'w, 'a, 's) world \<Rightarrow> ('u, 'w, 'a, 's) world \<Rightarrow> bool" where
  "still L w w' \<longleftrightarrow> conns_still L w w' \<and> sw_wheel w' = sw_wheel w \<and> sw_wrappers w' = sw_wrappers w"

text \<open>An application that leaves the wheel alone.\<close>

definition quiet_app :: "'u libuv \<Rightarrow> (byte list \<Rightarrow> bool) \<Rightarrow> ('u, 'w, 'a, 's) app \<Rightarrow> bool" where
  "quiet_app L V app \<longleftrightarrow> app_ok L V app \<and>
     (\<forall>x w w'. server_inv L w \<longrightarrow> call_ok V x w \<longrightarrow> app x w = Some w' \<longrightarrow> still L w w')"

lemma conns_still_refl [simp]: "conns_still L w w"
  by (simp add: conns_still_def)

lemma conns_stillI:
  assumes "io_next (sw_io w) \<le> io_next (sw_io w')"
    and "\<And>g c'. sw_conns w' g = Some c' \<Longrightarrow> \<exists>c. sw_conns w g = Some c \<and> tc_wrapper c' = tc_wrapper c"
    and "\<And>g. sw_conns w' g \<noteq> None \<Longrightarrow> uv_is_closing L g (wuv w) \<Longrightarrow> uv_is_closing L g (wuv w')"
  shows "conns_still L w w'"
  using assms unfolding conns_still_def by blast

lemma conns_stillD:
  assumes "conns_still L w w'"
  shows "io_next (sw_io w) \<le> io_next (sw_io w')"
    and "sw_conns w' g = Some c' \<Longrightarrow> \<exists>c. sw_conns w g = Some c \<and> tc_wrapper c' = tc_wrapper c"
    and "sw_conns w' g \<noteq> None \<Longrightarrow> uv_is_closing L g (wuv w) \<Longrightarrow> uv_is_closing L g (wuv w')"
  using assms unfolding conns_still_def by blast+

lemma conns_still_trans:
  assumes a: "conns_still L w w1" and b: "conns_still L w1 w2"
  shows "conns_still L w w2"
proof (rule conns_stillI)
  show "io_next (sw_io w) \<le> io_next (sw_io w2)" using conns_stillD(1) [OF a] conns_stillD(1) [OF b] by simp
  show "\<exists>c. sw_conns w g = Some c \<and> tc_wrapper c' = tc_wrapper c" if "sw_conns w2 g = Some c'" for g c'
    using conns_stillD(2) [OF b that] conns_stillD(2) [OF a] by metis
  show "uv_is_closing L g (wuv w2)" if g: "sw_conns w2 g \<noteq> None" "uv_is_closing L g (wuv w)" for g
  proof -
    have "sw_conns w1 g \<noteq> None" using g(1) conns_stillD(2) [OF b] by auto
    then show ?thesis using g conns_stillD(3) [OF a] conns_stillD(3) [OF b] by blast
  qed
qed

lemma conns_still_same:
  "io_next (sw_io w) \<le> io_next (sw_io w') \<Longrightarrow> sw_conns w' = sw_conns w \<Longrightarrow>
   (\<And>g. sw_conns w g \<noteq> None \<Longrightarrow> uv_is_closing L g (wuv w') = uv_is_closing L g (wuv w)) \<Longrightarrow> conns_still L w w'"
  by (intro conns_stillI) auto

lemma still_refl [simp]: "still L w w"
  by (simp add: still_def)

lemma still_trans: "still L w w1 \<Longrightarrow> still L w1 w2 \<Longrightarrow> still L w w2"
  by (auto simp: still_def intro: conns_still_trans)

lemma still_log [simp]: "still L w (put_log l s w)"
  by (simp add: still_def put_log_def conns_still_same)

lemma quiet_step:
  "quiet_app L V app \<Longrightarrow> server_inv L w \<Longrightarrow> call_ok V x w \<Longrightarrow> app x w = Some w' \<Longrightarrow> still L w w'"
  by (simp add: quiet_app_def)

lemma quiet_opt:
  "quiet_app L V app \<Longrightarrow> server_inv L w \<Longrightarrow> (\<And>a. call_ok V (mk a) w) \<Longrightarrow> app_opt app cb mk w = Some w' \<Longrightarrow> still L w w'"
  by (cases cb) (auto simp: app_opt_def intro: quiet_step)

lemma quiet_ok: "quiet_app L V app \<Longrightarrow> app_ok L V app"
  by (simp add: quiet_app_def)

section \<open>What the server's calls do\<close>

lemma close_still:
  fixes w :: "('u, 'w, 'a, 's) world"
  assumes laws: "uv_laws L" and inv: "server_inv L w" and c: "sw_conns w h = Some c"
    and run: "run_calls L app k (TcpConnection_on_socket_close c) w = Some w'"
  shows "still L w w'"
proof -
  have ci: "tc_handle c = h" "map_of (sw_connections w) (tc_name c) = Some h" "conn_inv L (wuv w) h c"
    using table_conn [of L w h c] inv c by (auto simp: server_inv_def conn_inv_def)
  show ?thesis
  proof (cases "uv_is_closing L h (wuv w)")
    case True
    then show ?thesis using ci(3) run by (simp add: conn_inv_def TcpConnection_on_socket_close_def)
  next
    case False
    obtain c' u and cs :: "(srv_message, srv_close, srv_done, 'w) conn_call list" where
      cl: "TcpConnection_close L (Some SrvCloseDone) (c, wuv w) = ((c', u), cs)"
      by (metis prod.collapse)
    note o = close_open [OF laws _ cl, unfolded ci(1), OF False]
    have "w' = put_uv u (put_conn h c' w)"
      using run ci False c cl o
      by (simp add: conn_inv_def TcpConnection_on_socket_close_def TcpServer_close_connection_def
          TcpServer_get_connection_def)
    moreover have "tc_wrapper c' = tc_wrapper c" by (simp add: close_object [OF cl])
    ultimately show ?thesis
      using c o by (auto simp: still_def put_uv_def put_conn_def intro!: conns_stillI split: if_splits)
  qed
qed

lemma closed_still:
  assumes q: "quiet_app L V app" and inv: "server_inv L w" and c: "sw_conns w h = Some c"
    and run: "run_calls L app h (TcpConnection_close_complete c) w = Some w'"
  shows "still L w w'"
proof (cases "tc_closeCompleteCallback c")
  case None
  then show ?thesis using run by (simp add: TcpConnection_close_complete_def)
next
  case (Some d)
  then have d: "tc_closeCompleteCallback c = Some SrvCloseDone" by (cases d) simp
  obtain w1 where w1: "app_opt app (sw_onConnectCloseCallback w) (\<lambda>a. AppConnectClose a h) w = Some w1" and
    w': "w' = w1\<lparr>sw_connections := AList.delete (tc_name c) (sw_connections w1), sw_conns := (sw_conns w1)(h := None),
      sw_released := (sw_released w1)(h := sw_conns w1 h)\<rparr>"
    using close_done [OF quiet_ok [OF q] inv c d, of h] run by auto
  have "still L w w1" by (rule quiet_opt [OF q inv _ w1]) (simp add: c)
  moreover have "still L w1 w'" by (auto simp: w' still_def intro!: conns_stillI split: if_splits)
  ultimately show ?thesis by (rule still_trans)
qed

lemma reports_still:
  assumes q: "quiet_app L V app"
  shows "server_inv L w \<Longrightarrow> list_all report cs \<Longrightarrow> run_calls L app h cs w = Some w' \<Longrightarrow> still L w w'"
proof (induction cs arbitrary: w)
  case (Cons c cs)
  then obtain w1 where w1: "run_calls L app h [c] w = Some w1" "run_calls L app h cs w1 = Some w'"
    by (auto split: Option.bind_splits)
  have r: "list_all report [c]" using Cons.prems(2) by simp
  from report_calls [OF quiet_ok [OF q] Cons.prems(1) r, of h] w1(1) have "server_inv L w1" by auto
  moreover have "still L w w1"
  proof (cases c)
    case (CallWrite f i)
    then show ?thesis using w1(1) by (intro quiet_step [OF q Cons.prems(1), of "AppWrite f i"]) auto
  qed (use r w1(1) in auto)
  ultimately show ?case using Cons.IH [of w1] Cons.prems(2) w1(2) still_trans by auto
qed simp

section \<open>Wrappers\<close>

text \<open>Every open connection has a wrapper in the wheel, no two connections share one, and the addresses
  of wrappers are taken.\<close>

definition tracked :: "'u libuv \<Rightarrow> ('u, 'w, 'a, 's) world \<Rightarrow> bool" where
  "tracked L w \<longleftrightarrow> (\<forall>x. sw_wrappers w x \<noteq> None \<longrightarrow> x < io_next (sw_io w)) \<and>
     (\<forall>g c x. sw_conns w g = Some c \<longrightarrow> tc_wrapper c = Some x \<longrightarrow> x < io_next (sw_io w) \<and>
        (\<forall>k. sw_wrappers w x = Some k \<longrightarrow> k = g)) \<and>
     (\<forall>g c. sw_conns w g = Some c \<longrightarrow> \<not> uv_is_closing L g (wuv w) \<longrightarrow> 0 < TimerWheel_get_timeout (sw_wheel w) \<longrightarrow>
        (\<exists>x. tc_wrapper c = Some x \<and> x \<in> members (sw_wheel w) \<and> sw_wrappers w x = Some g))"

lemma trackedI:
  assumes "\<And>x. sw_wrappers w x \<noteq> None \<Longrightarrow> x < io_next (sw_io w)"
    and "\<And>g c x. sw_conns w g = Some c \<Longrightarrow> tc_wrapper c = Some x \<Longrightarrow> x < io_next (sw_io w)"
    and "\<And>g c x k. sw_conns w g = Some c \<Longrightarrow> tc_wrapper c = Some x \<Longrightarrow> sw_wrappers w x = Some k \<Longrightarrow> k = g"
    and "\<And>g c. sw_conns w g = Some c \<Longrightarrow> \<not> uv_is_closing L g (wuv w) \<Longrightarrow> 0 < TimerWheel_get_timeout (sw_wheel w) \<Longrightarrow>
       \<exists>x. tc_wrapper c = Some x \<and> x \<in> members (sw_wheel w) \<and> sw_wrappers w x = Some g"
  shows "tracked L w"
  using assms unfolding tracked_def by blast

lemma trackedD:
  assumes "tracked L w"
  shows "sw_wrappers w x = Some k \<Longrightarrow> x < io_next (sw_io w)"
    and "sw_conns w g = Some c \<Longrightarrow> tc_wrapper c = Some x \<Longrightarrow> x < io_next (sw_io w)"
    and "sw_conns w g = Some c \<Longrightarrow> tc_wrapper c = Some x \<Longrightarrow> sw_wrappers w x = Some k \<Longrightarrow> k = g"
    and "sw_conns w g = Some c \<Longrightarrow> \<not> uv_is_closing L g (wuv w) \<Longrightarrow> 0 < TimerWheel_get_timeout (sw_wheel w) \<Longrightarrow>
       \<exists>x. tc_wrapper c = Some x \<and> x \<in> members (sw_wheel w) \<and> sw_wrappers w x = Some g"
  using assms unfolding tracked_def by blast+

text \<open>A step after which every wrapper that is left is where it was.\<close>

lemma tracked_step:
  assumes t: "tracked L w" and s: "conns_still L w w'"
    and left: "\<And>x k. sw_wrappers w' x = Some k \<Longrightarrow> sw_wrappers w x = Some k"
    and limit: "tw_timeoutSec (sw_wheel w') = tw_timeoutSec (sw_wheel w)"
    and open_: "\<And>g x. sw_conns w' g \<noteq> None \<Longrightarrow> \<not> uv_is_closing L g (wuv w') \<Longrightarrow> x \<in> members (sw_wheel w) \<Longrightarrow>
       sw_wrappers w x = Some g \<Longrightarrow> x \<in> members (sw_wheel w') \<and> sw_wrappers w' x = Some g"
  shows "tracked L w'"
proof (rule trackedI)
  have nx: "io_next (sw_io w) \<le> io_next (sw_io w')" using s by (simp add: conns_still_def)
  have conn: "\<exists>c0. sw_conns w g = Some c0 \<and> tc_wrapper c = tc_wrapper c0 \<and>
      (\<not> uv_is_closing L g (wuv w') \<longrightarrow> \<not> uv_is_closing L g (wuv w))" if "sw_conns w' g = Some c" for g c
    using s that unfolding conns_still_def by blast
  show "x < io_next (sw_io w')" if "sw_wrappers w' x \<noteq> None" for x
    using that left trackedD(1) [OF t] nx by (metis not_None_eq order.strict_trans2)
  show "x < io_next (sw_io w')" if "sw_conns w' g = Some c" "tc_wrapper c = Some x" for g c x
    using conn [OF that(1)] that(2) trackedD(2) [OF t] nx by (metis order.strict_trans2)
  show "k = g" if "sw_conns w' g = Some c" "tc_wrapper c = Some x" "sw_wrappers w' x = Some k" for g c x k
    using conn [OF that(1)] that(2) left [OF that(3)] trackedD(3) [OF t] by metis
  show "\<exists>x. tc_wrapper c = Some x \<and> x \<in> members (sw_wheel w') \<and> sw_wrappers w' x = Some g"
    if c: "sw_conns w' g = Some c" "\<not> uv_is_closing L g (wuv w')" "0 < TimerWheel_get_timeout (sw_wheel w')" for g c
  proof -
    obtain c0 where c0: "sw_conns w g = Some c0" "tc_wrapper c = tc_wrapper c0" "\<not> uv_is_closing L g (wuv w)"
      using conn [OF c(1)] c(2) by blast
    have "0 < TimerWheel_get_timeout (sw_wheel w)" using c(3) limit by (simp add: TimerWheel_get_timeout_def)
    from trackedD(4) [OF t c0(1,3) this] c0(2) open_ [of g] c(1,2) show ?thesis by fastforce
  qed
qed

lemma still_tracked: "tracked L w \<Longrightarrow> still L w w' \<Longrightarrow> tracked L w'"
  by (rule tracked_step) (auto simp: still_def)

text \<open>An existing wrapper is touched.\<close>

lemma touch_tracked:
  assumes "tracked L w" "wheel_ok (sw_wheel w)" "TimerWheel_insert (Some x) (sw_wheel w) = Some wh"
  shows "tracked L (w\<lparr>sw_wheel := wh\<rparr>)"
  using insert_members [OF assms(2,3)] assms(2,3)
  by (intro tracked_step [OF assms(1)]) (auto simp: conns_still_same insert_ok)

section \<open>Events\<close>

lemma received_still:
  fixes w :: "('u, 'w, 'a, 's) world"
  assumes laws: "uv_laws L" and inv: "server_inv L w" and c: "sw_conns w h = Some c" and n: "nread \<le> 0"
    and run: "TcpServer_event L A app (Received h nread buf) w = Some w'"
  shows "still L w w'"
proof -
  obtain c' io and cs :: "(srv_message, srv_close, srv_done, 'w) conn_call list" where
    r: "TcpConnection_on_mesage_receive L nread buf c (sw_io w) = ((c', io), cs)" by (metis prod.collapse)
  let ?w = "put_conn h c' w\<lparr>sw_io := io\<rparr>"
  have w': "run_calls L app h cs ?w = Some w'" using run c r by (simp add: TcpServer_event_def)
  have "tc_wrapper c' = tc_wrapper c"
    using r by (auto simp: TcpConnection_on_mesage_receive_def TcpConnection_set_connect_status_def Let_def
        split: if_splits prod.splits)
  then have "still L w ?w"
    using c receive_io [OF r] laws by (auto simp: still_def put_conn_def intro!: conns_stillI split: if_splits)
  moreover have "still L ?w w'"
  proof -
    consider "nread = 0" | "nread = UV_EOF" | "nread < 0" "nread \<noteq> UV_EOF" using n by linarith
    then show ?thesis
    proof cases
      case 1
      then show ?thesis using r w' by (simp add: TcpConnection_on_mesage_receive_def)
    next
      case 2
      then have "cs = [Log Error (uv_err_name L UV_EOF)]"
        using r by (auto simp: TcpConnection_on_mesage_receive_def UV_EOF_def Let_def split: prod.splits if_splits)
      then show ?thesis using w' by auto
    next
      case 3
      let ?c = "c\<lparr>tc_connected := False\<rparr>"
      have e: "c' = ?c" "io = sw_io w" "cs = Log Error (uv_err_name L nread) # TcpConnection_on_socket_close ?c"
        using r 3 by (auto simp: TcpConnection_on_mesage_receive_def TcpConnection_set_connect_status_def Let_def)
      let ?v = "put_log Error (uv_err_name L nread) ?w"
      have "run_calls L app h (TcpConnection_on_socket_close ?c) ?v = Some w'" using w' e by simp
      moreover have "server_inv L ?v" using lost_inv [OF inv c] unfolding e(1,2) by blast
      moreover have "sw_conns ?v h = Some ?c" using e(1) by (simp add: put_log_def put_conn_def)
      ultimately have "still L ?v w'" using close_still [OF laws] by blast
      then show ?thesis using still_trans still_log by blast
    qed
  qed
  ultimately show ?thesis by (rule still_trans)
qed

text \<open>Data from the peer: when the application has been told the wrapper goes to the current slot.\<close>

lemma received_touches:
  assumes q: "quiet_app L V app" and inv: "server_inv L w" and c: "sw_conns w h = Some c"
    and n: "0 < nread" "V (take (nat nread) buf)"
    and run: "TcpServer_event L A app (Received h nread buf) w = Some w'"
  obtains w1 where "still L w w1" "w' = w1"
  | w1 c1 x wh where "still L w w1" "sw_conns w1 h = Some c1" "tc_wrapper c1 = Some x" "wheel_ok (sw_wheel w1)"
      "TimerWheel_insert (Some x) (sw_wheel w1) = Some wh" "w' = w1\<lparr>sw_wheel := wh\<rparr>"
proof -
  have id: "put_conn h c w\<lparr>sw_io := sw_io w\<rparr> = w" using c by (simp add: put_conn_def map_upd_triv)
  have calls: "run_calls L app h (TcpConnection_on_message (take (nat nread) buf) c) w = Some w'"
    using run c n(1) id by (simp add: TcpServer_event_def TcpConnection_on_mesage_receive_def)
  show ?thesis
  proof (cases "tc_onMessageCallback c")
    case None
    then have "w' = w" using calls by (simp add: TcpConnection_on_message_def)
    then show ?thesis by (intro that(1) [of w]) simp_all
  next
    case (Some m)
    then have msg: "TcpServer_on_message app h (take (nat nread) buf) w = Some w'"
      using calls by (cases m) (simp add: TcpConnection_on_message_def)
    have ok: "call_ok V (AppMessage a h (take (nat nread) buf)) w" for a using c n(2) by simp
    obtain w1 where w1: "app_opt app (sw_onMessageCallback w) (\<lambda>a. AppMessage a h (take (nat nread) buf)) w = Some w1"
      and inv1: "server_inv L w1" "keeps L w w1"
      using app_opt_ok [OF quiet_ok [OF q] inv, of "\<lambda>a. AppMessage a h (take (nat nread) buf)"] ok by blast
    have s: "still L w w1" by (rule quiet_opt [OF q inv _ w1]) (rule ok)
    obtain c1 where c1: "sw_conns w1 h = Some c1" using keeps_dom [OF inv1(2), of h] c by auto
    have ins: "(if TimerWheel_get_timeout (sw_wheel w1) > 0 then do {
        wheel \<leftarrow> TimerWheel_insert (TcpConnection_get_wrapper (wheel_alive w1) c1) (sw_wheel w1);
        Some (w1\<lparr>sw_wheel := wheel\<rparr>) } else Some w1) = Some w'"
      using msg c w1 c1 by (simp add: TcpServer_on_message_def Let_def cong: if_cong)
    show ?thesis
    proof (cases "TimerWheel_get_timeout (sw_wheel w1) > 0 \<and> TcpConnection_get_wrapper (wheel_alive w1) c1 \<noteq> None")
      case True
      then obtain x where x: "TcpConnection_get_wrapper (wheel_alive w1) c1 = Some x" "tc_wrapper c1 = Some x"
        by (auto simp: TcpConnection_get_wrapper_def split: option.splits if_splits)
      have "wheel_ok (sw_wheel w1)" using timeout_wheel [of w1] inv1(1) True by (simp add: server_inv_def)
      moreover obtain wh where "TimerWheel_insert (Some x) (sw_wheel w1) = Some wh" "w' = w1\<lparr>sw_wheel := wh\<rparr>"
        using ins x(1) True by (cases "TimerWheel_insert (Some x) (sw_wheel w1)") simp_all
      ultimately show ?thesis using that(2) [OF s c1 x(2)] by blast
    next
      case False
      then have "w' = w1" using ins by (auto simp: TimerWheel_insert_def split: if_splits)
      then show ?thesis using that(1) [OF s] by blast
    qed
  qed
qed

lemma others_still:
  fixes w :: "('u, 'w, 'a, 's) world"
  assumes laws: "uv_laws L" and q: "quiet_app L V app" and inv: "server_inv L w" and del: "deliverable A L V e w"
    and run: "TcpServer_event L A app e w = Some w'"
    and e: "e = Closed h \<or> e = ShutdownDone r \<or> e = WriteCompleted r status"
  shows "still L w w'"
  using e
proof (elim disjE)
  assume e: "e = Closed h"
  then obtain c where c: "sw_conns w h = Some c" using del by (auto simp: deliverable_def)
  then show ?thesis using closed_still [OF q inv c] run e by (simp add: TcpServer_event_def)
next
  assume e: "e = ShutdownDone r"
  obtain g c where c: "map_of (io_shutdowns (sw_io w)) r = Some g" "sw_conns w g = Some c"
    using del e by (auto simp: deliverable_def)
  let ?w = "w\<lparr>sw_io := (sw_io w)\<lparr>io_shutdowns := AList.delete r (io_shutdowns (sw_io w))\<rparr>\<rparr>"
  have "server_inv L ?w" using server_inv_same [OF inv, of ?w] by simp
  moreover have "run_calls L app g (TcpConnection_on_socket_close c) ?w = Some w'"
    using run e c by (simp add: TcpServer_event_def shutdown_done_def)
  ultimately have "still L ?w w'" using close_still [OF laws, of ?w g c] c(2) by simp
  moreover have "still L w ?w" by (simp add: still_def conns_still_same)
  ultimately show ?thesis using still_trans by blast
next
  assume e: "e = WriteCompleted r status"
  obtain io and cs :: "(srv_message, srv_close, srv_done, 'w) conn_call list" where
    d: "write_done r status (sw_io w) = Some (io, cs)" and w': "run_calls L app 0 cs (w\<lparr>sw_io := io\<rparr>) = Some w'"
    using run e by (auto simp: TcpServer_event_def split: Option.bind_splits)
  have io: "io_uv io = wuv w" "io_next io = io_next (sw_io w)"
    using d by (auto simp: write_done_def split: Option.bind_splits)
  have "server_inv L (w\<lparr>sw_io := io\<rparr>)" using server_inv_same [OF inv, of "w\<lparr>sw_io := io\<rparr>"] io by simp
  then have "still L (w\<lparr>sw_io := io\<rparr>) w'" using reports_still [OF q _ write_reports(2) [OF d] w'] by blast
  moreover have "still L w (w\<lparr>sw_io := io\<rparr>)" using io by (simp add: still_def conns_still_same)
  ultimately show ?thesis using still_trans by blast
qed

lemma close_all_still:
  assumes laws: "uv_laws L"
  shows "server_inv L w \<Longrightarrow> close_all L app xs w = Some w' \<Longrightarrow> still L w w' \<and> server_inv L w'"
proof (induction xs arbitrary: w)
  case (Cons p xs)
  obtain n h where p: "p = (n, h)" by fastforce
  obtain c w1 where c: "sw_conns w h = Some c" "run_calls L app h (TcpConnection_on_socket_close c) w = Some w1"
    and rest: "close_all L app xs w1 = Some w'"
    using Cons.prems(2) p by (auto split: Option.bind_splits if_splits)
  have "still L w w1" "server_inv L w1"
    using close_still [OF laws Cons.prems(1) c] close_call [OF laws Cons.prems(1) c(1), of app h] c(2) by auto
  then show ?case using Cons.IH [OF _ rest] still_trans by blast
qed simp

lemma acceptor_closed_still:
  assumes laws: "uv_laws L" and q: "quiet_app L V app" and inv: "server_inv L w"
    and run: "TcpServer_event L A app AcceptorClosed w = Some w'"
  shows "still L w w'"
proof -
  obtain acc :: "(srv_accept, 'c) tcp_acceptor" and cs where "server_closed L app cs w = Some w'"
    using run by (auto simp: TcpServer_event_def split: Option.bind_splits)
  show ?thesis
  proof (cases cs)
    case Nil
    then show ?thesis using \<open>server_closed L app cs w = Some w'\<close> by (simp add: server_closed_def)
  next
    case (Cons cb ds)
    then obtain w1 where w1: "close_all L app (sw_connections w) w = Some w1" "app (AppServerClosed cb) w1 = Some w'"
      using \<open>server_closed L app cs w = Some w'\<close> by (auto simp: server_closed_def split: Option.bind_splits)
    from close_all_still [OF laws inv w1(1)] have "still L w w1" "server_inv L w1" by auto
    moreover from this(2) have "still L w1 w'" by (rule quiet_step [OF q _ _ w1(2)]) simp
    ultimately show ?thesis using still_trans by blast
  qed
qed

lemma drop_still:
  assumes laws: "uv_laws L"
  shows "server_inv L w \<Longrightarrow> \<forall>x \<in> set xs. x \<notin> members (sw_wheel w) \<Longrightarrow> drop_wrappers L app xs w = Some w' \<Longrightarrow>
    conns_still L w w' \<and> (\<forall>x k. sw_wrappers w' x = Some k \<longrightarrow> sw_wrappers w x = Some k)"
proof (induction xs arbitrary: w)
  case (Cons x xs)
  let ?w = "w\<lparr>sw_wrappers := (sw_wrappers w)(x := None)\<rparr>"
  obtain h w1 where h: "sw_wrappers w x = Some h"
    and w1: "run_calls L app h (ConnectionWrapper_destroy (sw_conns w h)) ?w = Some w1"
    and rest: "drop_wrappers L app xs w1 = Some w'"
    using Cons.prems(3) by (auto split: Option.bind_splits)
  have x: "x \<notin> members (sw_wheel w)" using Cons.prems(2) by simp
  have inv1: "server_inv L w1" "sw_wheel w1 = sw_wheel w"
    using drop_wrapper_inv [OF laws Cons.prems(1) h x, of app] w1 by auto
  have inv': "server_inv L ?w"
    using Cons.prems(1) x table_inv_same [of L w ?w] by (auto simp: server_inv_def idle_inv_def heap_inv_def)
  have "still L ?w w1"
  proof (cases "sw_conns w h")
    case None
    then show ?thesis using w1 by (simp add: ConnectionWrapper_destroy_def)
  next
    case (Some c)
    then show ?thesis using w1 close_still [OF laws inv', of h c app h] by (simp add: ConnectionWrapper_destroy_def)
  qed
  then have 1: "conns_still L w w1" "sw_wrappers w1 = (sw_wrappers w)(x := None)"
    using conns_still_trans [of L w ?w w1] by (simp_all add: still_def conns_still_same)
  have 2: "conns_still L w1 w'" "\<forall>x k. sw_wrappers w' x = Some k \<longrightarrow> sw_wrappers w1 x = Some k"
    using Cons.IH [OF inv1(1) _ rest] Cons.prems(2) inv1(2) by auto
  have "sw_wrappers w y = Some k" if "sw_wrappers w' y = Some k" for y k
    using 2(2) [rule_format, OF that] 1(2) by (simp split: if_splits)
  then show ?case using conns_still_trans [OF 1(1) 2(1)] by blast
qed simp

text \<open>A new connection gets a wrapper of its own.\<close>

lemma wrapped_tracked:
  assumes t: "tracked L w" and new: "sw_conns w h = None" and c: "tc_wrapper c = None"
    and closing: "\<forall>g. uv_is_closing L g (wuv w') = uv_is_closing L g (wuv w)"
    and ok: "0 < TimerWheel_get_timeout (sw_wheel w) \<longrightarrow> wheel_ok (sw_wheel w)"
    and w': "if TimerWheel_get_timeout (sw_wheel w) > 0
     then TimerWheel_insert (Some (io_next (sw_io w))) (sw_wheel w) = Some (sw_wheel w') \<and>
       sw_wrappers w' = (sw_wrappers w)(io_next (sw_io w) \<mapsto> h) \<and> io_next (sw_io w') = Suc (io_next (sw_io w)) \<and>
       sw_conns w' = (sw_conns w)(h \<mapsto> TcpConnection_set_wrapper (Some (io_next (sw_io w))) c)
     else sw_wheel w' = sw_wheel w \<and> sw_wrappers w' = sw_wrappers w \<and> io_next (sw_io w') = io_next (sw_io w) \<and>
       sw_conns w' = (sw_conns w)(h \<mapsto> c)"
  shows "tracked L w' \<and> tw_timeoutSec (sw_wheel w') = tw_timeoutSec (sw_wheel w) \<and>
    (\<forall>x g. sw_wrappers w x = Some g \<longrightarrow> sw_wrappers w' x = Some g \<and>
       wheel_age (sw_wheel w') x = wheel_age (sw_wheel w) x)"
proof (cases "0 < TimerWheel_get_timeout (sw_wheel w)")
  case False
  then have e: "sw_wheel w' = sw_wheel w" "sw_wrappers w' = sw_wrappers w" "io_next (sw_io w') = io_next (sw_io w)"
    "sw_conns w' = (sw_conns w)(h \<mapsto> c)" using w' by simp_all
  have "tracked L w'"
    using c False by (intro trackedI)
      (auto simp: e split: if_splits intro: trackedD(1) [OF t] trackedD(2) [OF t] trackedD(3) [OF t])
  then show ?thesis by (simp add: e)
next
  case True
  let ?y = "io_next (sw_io w)"
  have e: "TimerWheel_insert (Some ?y) (sw_wheel w) = Some (sw_wheel w')"
    "sw_wrappers w' = (sw_wrappers w)(?y \<mapsto> h)" "io_next (sw_io w') = Suc ?y"
    "sw_conns w' = (sw_conns w)(h \<mapsto> TcpConnection_set_wrapper (Some ?y) c)"
    using w' True by simp_all
  have ok: "wheel_ok (sw_wheel w)" using ok True by blast
  note mem = insert_members [OF ok e(1)]
  have lim: "tw_timeoutSec (sw_wheel w') = tw_timeoutSec (sw_wheel w)" 
    using insert_keeps_ok [OF ok e(1)] by (simp add: word_unat_eq_iff)
  have y: "x \<noteq> ?y" if "sw_wrappers w x = Some k" for x k using trackedD(1) [OF t that] by simp
  have y': "x \<noteq> ?y" if "sw_conns w g = Some d" "tc_wrapper d = Some x" for g d x using trackedD(2) [OF t that] by simp
  have set: "tc_wrapper (TcpConnection_set_wrapper xo c) = xo" for xo by (simp add: TcpConnection_set_wrapper_def)
  have "tracked L w'"
  proof (rule trackedI)
    show "x < io_next (sw_io w')" if "sw_wrappers w' x \<noteq> None" for x
      using that trackedD(1) [OF t, of x] by (auto simp: e(2,3) split: if_splits intro: less_SucI)
    show "x < io_next (sw_io w')" if "sw_conns w' g = Some d" "tc_wrapper d = Some x" for g d x
      using that trackedD(2) [OF t, of g d x] by (auto simp: e(3,4) set split: if_splits)
    show "k = g" if "sw_conns w' g = Some d" "tc_wrapper d = Some x" "sw_wrappers w' x = Some k" for g d x k
    proof (cases "x = ?y")
      case True
      then show ?thesis using that y' [of g d x] by (auto simp: e(2,4) split: if_splits)
    next
      case False
      then show ?thesis using that trackedD(3) [OF t, of g d x k] by (auto simp: e(2,4) set split: if_splits)
    qed
    show "\<exists>x. tc_wrapper d = Some x \<and> x \<in> members (sw_wheel w') \<and> sw_wrappers w' x = Some g"
      if d: "sw_conns w' g = Some d" "\<not> uv_is_closing L g (wuv w')" for g d
    proof (cases "g = h")
      case True
      then show ?thesis using d by (auto simp: e(2,4) set mem)
    next
      case False
      then obtain x where "tc_wrapper d = Some x" "x \<in> members (sw_wheel w)" "sw_wrappers w x = Some g"
        using trackedD(4) [OF t, of g d] d closing \<open>0 < TimerWheel_get_timeout (sw_wheel w)\<close> by (auto simp: e(4))
      then show ?thesis using y by (auto simp: e(2) mem)
    qed
  qed
  moreover have "wheel_age (sw_wheel w') x = wheel_age (sw_wheel w) x" if "sw_wrappers w x = Some k" for x k
    using wheel_age_insert [OF ok e(1)] y [OF that] by simp
  ultimately show ?thesis using lim y by (simp add: e(2))
qed

lemma timeout_ok: "server_inv L w \<Longrightarrow> 0 < TimerWheel_get_timeout (sw_wheel w) \<longrightarrow> wheel_ok (sw_wheel w)"
  by (simp add: server_inv_def timeout_wheel)

lemma accepted_tracks:
  assumes laws: "uv_laws L" and q: "quiet_app L V app" and inv: "server_inv L w" and t: "tracked L w"
    and del: "deliverable A L V (Accepted status client) w"
    and run: "TcpServer_event L A app (Accepted status client) w = Some w'"
  shows "tracked L w' \<and> tw_timeoutSec (sw_wheel w') = tw_timeoutSec (sw_wheel w) \<and>
    (\<forall>x g. sw_wrappers w x = Some g \<longrightarrow> sw_wrappers w' x = Some g \<and>
       wheel_age (sw_wheel w') x = wheel_age (sw_wheel w) x)"
proof -
  obtain acc cs u where acc: "sw_acceptor w = Some acc"
    and on: "TcpAcceptor_on_connection L status client acc (wuv w) = (cs, u)"
    using del by (auto simp: deliverable_def) (metis surj_pair)
  have free: "sw_conns w client = None" using del by (simp add: deliverable_def)
  let ?w = "put_uv u (w\<lparr>sw_io := (sw_io w)\<lparr>io_next := max (io_next (sw_io w)) (Suc client)\<rparr>\<rparr>)"
  have calls: "accept_calls L A app cs ?w = Some w'" using run acc on by (simp add: TcpServer_event_def)
  have same: "server_inv L ?w \<and> still L w ?w"
    if others: "\<And>g. g \<noteq> client \<Longrightarrow> uv_is_closing L g u = uv_is_closing L g (wuv w)"
  proof -
    have "uv_is_closing L g (wuv ?w) = uv_is_closing L g (wuv w)" if "sw_conns w g \<noteq> None" for g
      using others [of g] free that by (cases "g = client") (simp_all add: put_uv_def)
    then have "server_inv L ?w \<and> keeps L w ?w" "conns_still L w ?w"
      using server_inv_same [OF inv, of ?w] conns_still_same [of w ?w L] by (simp_all add: put_uv_def)
    then show ?thesis by (simp add: still_def put_uv_def)
  qed
  have quiet: ?thesis if "still L w w'"
    using still_tracked [OF t that] that by (simp add: still_def)
  from laws on show ?thesis
  proof (cases rule: on_connection_cases)
    case (1 s)
    then have "still L ?w w'" using calls by auto
    then show ?thesis using same 1 still_trans by (intro quiet) blast
  next
    case 3
    then have "w' = ?w" using calls by simp
    then show ?thesis using same 3 by (intro quiet) simp
  next
    case (2 n)
    have w: "server_inv L ?w" "still L w ?w" using same 2 by auto
    have acc: "TcpServer_on_accept L A app client ?w = Some w'"
      using calls 2(2) by (cases n) (auto split: Option.bind_splits)
    obtain key where key: "SocketAddr_addr_to_str A (uv_getpeername L client u) (sw_ipv w) = Some key"
      "map_of (sw_connections w) key = None" using del by (auto simp: deliverable_def)
    have pre: "sw_conns ?w client = None" "\<not> uv_is_closing L client (wuv ?w)" "client < io_next (sw_io ?w)"
      "SocketAddr_addr_to_str A (uv_getpeername L client (wuv ?w)) (sw_ipv ?w) = Some key"
      "map_of (sw_connections ?w) key = None"
      using free 2 key by (simp_all add: put_uv_def less_max_iff_disj)
    obtain c w3 where w3: "app_opt app (sw_onNewConnectCallback w3) (\<lambda>a. AppNewConnect a client) w3 = Some w'"
      "server_inv L w3" "sw_conns w3 client \<noteq> None" "tc_wrapper c = None"
      "\<forall>g. uv_is_closing L g (wuv w3) = uv_is_closing L g (wuv ?w)"
      "if TimerWheel_get_timeout (sw_wheel ?w) > 0
     then TimerWheel_insert (Some (io_next (sw_io ?w))) (sw_wheel ?w) = Some (sw_wheel w3) \<and>
       sw_wrappers w3 = (sw_wrappers ?w)(io_next (sw_io ?w) \<mapsto> client) \<and> io_next (sw_io w3) = Suc (io_next (sw_io ?w)) \<and>
       sw_conns w3 = (sw_conns ?w)(client \<mapsto> TcpConnection_set_wrapper (Some (io_next (sw_io ?w))) c)
     else sw_wheel w3 = sw_wheel ?w \<and> sw_wrappers w3 = sw_wrappers ?w \<and> io_next (sw_io w3) = io_next (sw_io ?w) \<and>
       sw_conns w3 = (sw_conns ?w)(client \<mapsto> c)"
      using accept_steps [OF laws quiet_ok [OF q] w(1) pre] acc by (metis option.inject)
    have "still L w3 w'" by (rule quiet_opt [OF q w3(2) _ w3(1)]) (use w3(3) in simp)
    moreover from wrapped_tracked [OF still_tracked [OF t w(2)] pre(1) w3(4,5) timeout_ok [OF w(1)] w3(6)]
    have "tracked L w3 \<and> tw_timeoutSec (sw_wheel w3) = tw_timeoutSec (sw_wheel ?w) \<and>
      (\<forall>x g. sw_wrappers ?w x = Some g \<longrightarrow> sw_wrappers w3 x = Some g \<and>
       wheel_age (sw_wheel w3) x = wheel_age (sw_wheel ?w) x)" .
    ultimately show ?thesis
      using still_tracked [of L w3 w'] w(2) by (simp add: still_def)
  qed
qed

text \<open>A turn of the wheel.\<close>

lemma turn_tracks:
  assumes laws: "uv_laws L" and inv: "server_inv L w" and t: "tracked L w"
    and run: "TcpServer_event L A app WheelTurn w = Some w'"
  shows "tracked L w' \<and> tw_timeoutSec (sw_wheel w') = tw_timeoutSec (sw_wheel w) \<and>
    (\<forall>x h d. wheel_age (sw_wheel w) x = Some d \<longrightarrow> sw_wrappers w x = Some h \<longrightarrow>
       (if Suc d = slots (sw_wheel w) then sw_conns w' h = None \<or> uv_is_closing L h (wuv w')
        else sw_wrappers w' x = Some h \<and> wheel_age (sw_wheel w') x = Some (Suc d)))"
proof (rule wheel_turn_cases [OF laws inv, of A app])
  fix wh w1
  assume wh: "TimerWheel_wheel_callback (sw_wheel w) = Some wh"
    and w1: "TcpServer_event L A app WheelTurn w = Some w1" "sw_wheel w1 = wh"
    and drop: "\<And>x h. x \<in> members (sw_wheel w) - members wh \<Longrightarrow> sw_wrappers w x = Some h \<Longrightarrow>
       sw_conns w h \<noteq> None \<Longrightarrow> uv_is_closing L h (wuv w1)"
    and kept: "\<And>x. x \<in> members wh \<Longrightarrow> sw_wrappers w1 x = sw_wrappers w x"
  have w': "w' = w1" using run w1(1) by simp
  show ?thesis
  proof (cases "tw_timeoutSec (sw_wheel w) = 0")
    case True
    then have "wh = sw_wheel w" using wh by (simp add: TimerWheel_wheel_callback_def)
    then have "w' = w" using run True wh by (simp add: TcpServer_event_def wheel_turn_def)
    then show ?thesis using t True by (simp add: wheel_age_def)
  next
    case False
    then have ok: "wheel_ok (sw_wheel w)" using inv by (simp add: server_inv_def idle_inv_def)
    note ok' = callback_keeps_ok [OF ok wh]
    note age = wheel_age_tick [OF ok wh]
    have lim: "tw_timeoutSec wh = tw_timeoutSec (sw_wheel w)" using ok' by (simp add: word_unat_eq_iff)
    let ?v = "w\<lparr>sw_wheel := wh\<rparr>"
    let ?xs = "sorted_list_of_set (members (sw_wheel w) - members wh)"
    have fin: "finite (members (sw_wheel w) - members wh)" using inv by (simp add: server_inv_def idle_inv_def)
    have "table_inv L ?v" "heap_inv ?v"
      using inv table_inv_same [of L w ?v] by (simp_all add: server_inv_def heap_inv_def)
    moreover have "idle_inv ?v"
      using inv ok' tick_members [OF ok wh] by (auto simp: server_inv_def idle_inv_def intro: finite_subset)
    ultimately have "server_inv L ?v" by (simp add: server_inv_def)
    moreover have "drop_wrappers L app ?xs ?v = Some w'"
      using run wh by (simp add: TcpServer_event_def wheel_turn_def)
    ultimately have "conns_still L ?v w' \<and> (\<forall>x k. sw_wrappers w' x = Some k \<longrightarrow> sw_wrappers ?v x = Some k)"
      using drop_still [OF laws, of ?v ?xs app w'] fin by simp
    then have s: "conns_still L w w'" "\<forall>x k. sw_wrappers w' x = Some k \<longrightarrow> sw_wrappers w x = Some k"
      using conns_still_trans [of L w ?v w'] by (simp_all add: conns_still_same)
    have alive: "sw_conns w h \<noteq> None" if "sw_conns w' h \<noteq> None" for h
      using that conns_stillD(2) [OF s(1)] by auto
    have "tracked L w'"
    proof (rule tracked_step [OF t s(1)])
      show "x \<in> members (sw_wheel w') \<and> sw_wrappers w' x = Some g"
        if "sw_conns w' g \<noteq> None" "\<not> uv_is_closing L g (wuv w')" "x \<in> members (sw_wheel w)" "sw_wrappers w x = Some g" for g x
      proof -
        have "x \<in> members wh" using drop [of x g] that alive [of g] w' by auto
        then show ?thesis using kept that(4) w1(2) w' by simp
      qed
    qed (use s(2) lim w1(2) w' in auto)
    moreover have "if Suc d = slots (sw_wheel w) then sw_conns w' h = None \<or> uv_is_closing L h (wuv w')
        else sw_wrappers w' x = Some h \<and> wheel_age (sw_wheel w') x = Some (Suc d)"
      if d: "wheel_age (sw_wheel w) x = Some d" "sw_wrappers w x = Some h" for x h d
    proof -
      have "d < slots (sw_wheel w)" using d(1) by (auto simp: wheel_age_def dest!: find_SomeD)
      then show ?thesis
        using d age [of x] members_age [OF ok, of x] members_age [of wh x] ok' drop [of x h] kept [of x] alive [of h] w1(2) w'
        by auto
    qed
    moreover have "tw_timeoutSec (sw_wheel w') = tw_timeoutSec (sw_wheel w)" using lim w1(2) w' by simp
    ultimately show ?thesis by blast
  qed
qed

definition no_data :: "hid \<Rightarrow> srv_event \<Rightarrow> bool" where
  "no_data h e \<longleftrightarrow> (case e of Received g nread buf \<Rightarrow> g = h \<longrightarrow> nread \<le> 0 | _ \<Rightarrow> True)"

lemma event_tracks:
  assumes laws: "uv_laws L" and q: "quiet_app L V app" and inv: "server_inv L w" and t: "tracked L w"
    and del: "deliverable A L V e w" and run: "TcpServer_event L A app e w = Some w'"
  shows "tracked L w' \<and> tw_timeoutSec (sw_wheel w') = tw_timeoutSec (sw_wheel w) \<and>
    (e \<noteq> WheelTurn \<longrightarrow> no_data h e \<longrightarrow> sw_wrappers w x = Some h \<longrightarrow>
       sw_wrappers w' x = Some h \<and> wheel_age (sw_wheel w') x = wheel_age (sw_wheel w) x)"
proof -
  have quiet: ?thesis if "still L w w'"
    using still_tracked [OF t that] that by (simp add: still_def)
  show ?thesis
  proof (cases e)
    case (Accepted status client)
    then show ?thesis using accepted_tracks [OF laws q inv t] del run by blast
  next
    case (Received g nread buf)
    obtain c where c: "sw_conns w g = Some c" "0 < nread \<longrightarrow> V (take (nat nread) buf)"
      using del Received by (auto simp: deliverable_def)
    show ?thesis
    proof (cases "0 < nread")
      case False
      then have "nread \<le> 0" by simp
      then show ?thesis using received_still [OF laws inv c(1)] run Received by (intro quiet) blast
    next
      case True
      have V: "V (take (nat nread) buf)" using c(2) True by simp
      from q inv c(1) True V run [unfolded Received] show ?thesis
      proof (cases rule: received_touches)
        case (1 w1)
        then show ?thesis by (intro quiet) simp
      next
        case (2 w1 c1 y wh)
        have t1: "tracked L w1" by (rule still_tracked [OF t 2(1)])
        have "wheel_age wh x = wheel_age (sw_wheel w1) x" if "g \<noteq> h" "sw_wrappers w x = Some h"
        proof -
          have "sw_wrappers w1 x = Some h" using 2(1) that(2) by (simp add: still_def)
          then have "x \<noteq> y" using trackedD(3) [OF t1 2(2,3)] that(1) by auto
          then show ?thesis using wheel_age_insert [OF 2(4,5)] by simp
        qed
        then show ?thesis
          using touch_tracked [OF t1 2(4,5)] insert_keeps_ok [OF 2(4,5)] 2(1,6) True
          by (auto simp: still_def no_data_def Received word_unat_eq_iff)
      qed
    qed
  next
    case WheelTurn
    then show ?thesis using turn_tracks [OF laws inv t] run by blast
  next
    case AcceptorClosed
    then show ?thesis using acceptor_closed_still [OF laws q inv] run by (intro quiet) blast
  next
    case (Closed g)
    show ?thesis by (rule quiet, rule others_still [OF laws q inv del run]) (simp add: Closed)
  next
    case (ShutdownDone r)
    show ?thesis by (rule quiet, rule others_still [OF laws q inv del run]) (simp add: ShutdownDone)
  next
    case (WriteCompleted r status)
    show ?thesis by (rule quiet, rule others_still [OF laws q inv del run]) (simp add: WriteCompleted)
  qed
qed

section \<open>Runs\<close>

inductive srv_run :: "'u libuv \<Rightarrow> addr_lib \<Rightarrow> (byte list \<Rightarrow> bool) \<Rightarrow> ('u, 'w, 'a, 's) app \<Rightarrow>
    ('u, 'w, 'a, 's) world \<Rightarrow> srv_event list \<Rightarrow> ('u, 'w, 'a, 's) world \<Rightarrow> bool"
  for L A V app where
  stop: "srv_run L A V app w [] w"
| step: "deliverable A L V e w \<Longrightarrow> TcpServer_event L A app e w = Some w1 \<Longrightarrow> srv_run L A V app w1 es w' \<Longrightarrow>
    srv_run L A V app w (e # es) w'"

inductive_cases srv_run_ConsE: "srv_run L A V app w (e # es) w'"

definition turns :: "srv_event list \<Rightarrow> nat" where
  "turns es = length (filter (\<lambda>e. e = WheelTurn) es)"

lemma turns_simps [simp]:
  "turns [] = 0" "turns (e # es) = (if e = WheelTurn then Suc (turns es) else turns es)"
  by (simp_all add: turns_def)

text \<open>A wrapper of idle time \<open>d\<close>: its connection is let go when the turns that are left are over.\<close>

lemma run_closes:
  assumes laws: "uv_laws L" and q: "quiet_app L V app"
  shows "srv_run L A V app w es w' \<Longrightarrow> server_inv L w \<Longrightarrow> tracked L w \<Longrightarrow> sw_wrappers w x = Some h \<Longrightarrow>
    wheel_age (sw_wheel w) x = Some d \<Longrightarrow> list_all (no_data h) es \<Longrightarrow> slots (sw_wheel w) \<le> d + turns es \<Longrightarrow>
    \<exists>es1 es2 w1. es = es1 @ es2 \<and> srv_run L A V app w es1 w1 \<and> (sw_conns w1 h = None \<or> uv_is_closing L h (wuv w1))"
proof (induction arbitrary: d rule: srv_run.induct)
  case (stop w)
  have "d < slots (sw_wheel w)" using stop(4) by (auto simp: wheel_age_def dest!: find_SomeD)
  then show ?case using stop(6) by simp
next
  case (step e w w1 es w')
  have inv1: "server_inv L w1" using event_good [OF laws quiet_ok [OF q] step.prems(1) step(1)] step(2) by auto
  note tr = event_tracks [OF laws q step.prems(1,2) step(1,2), of h x]
  note go = srv_run.step [OF step(1,2)]
  show ?case
  proof (cases "e = WheelTurn \<and> Suc d = slots (sw_wheel w)")
    case True
    then have "sw_conns w1 h = None \<or> uv_is_closing L h (wuv w1)"
      using turn_tracks [OF laws step.prems(1,2)] step(2) step.prems(3,4) by metis
    then show ?thesis using go [OF srv_run.stop] by (intro exI [of _ "[e]"] exI [of _ es] exI [of _ w1]) simp
  next
    case False
    let ?d = "if e = WheelTurn then Suc d else d"
    have "sw_wrappers w1 x = Some h \<and> wheel_age (sw_wheel w1) x = Some ?d"
    proof (cases "e = WheelTurn")
      case True
      then show ?thesis
        using turn_tracks [OF laws step.prems(1,2)] step(2) step.prems(3,4) False by simp
    next
      case False
      then show ?thesis using tr step.prems(3-5) by simp
    qed
    then obtain es1 es2 w2 where "es = es1 @ es2" "srv_run L A V app w1 es1 w2"
      "sw_conns w2 h = None \<or> uv_is_closing L h (wuv w2)"
      using step.IH [OF inv1, of ?d] tr step.prems(5,6) by (auto split: if_splits)
    then show ?thesis using go by (metis append_Cons)
  qed
qed

lemma reach_tracked:
  assumes "uv_laws L" "quiet_app L V app"
  shows "srv_reach L A V app w \<Longrightarrow> tracked L w"
proof (induction rule: srv_reach.induct)
  case (listen w addr w')
  have "sw_conns w' = sw_conns w" "sw_wrappers w' = sw_wrappers w"
    using listen(2) by (auto simp: TcpServer_listen_def put_uv_def Let_def split: Option.bind_splits if_splits prod.splits)
  then show ?case using listen(1) by (simp add: unstarted_def tracked_def)
next
  case (event w e w')
  from event_tracks [OF assms srv_reach_inv [OF event(1) assms(1) quiet_ok [OF assms(2)]] event.IH event(2,3)]
  show ?case by blast
qed

section \<open>Properties\<close>

text \<open>C3: A connection that stays silent is let go. Take a server with a timeout, in any state it can
  reach, whose application leaves the wheel alone, and any run of events libuv delivers in which
  the connection receives no data and the wheel turns as often as the timeout has seconds. Whatever
  else happens (other connections' data, new clients, connections that close, writes that complete),
  there is a point in the run at which the connection is closing or gone.\<close>

theorem silent_connection_closed:
  assumes "uv_laws L" and "quiet_app L V app" and "srv_reach L A V app w"
    and "0 < TimerWheel_get_timeout (sw_wheel w)" and "srv_run L A V app w es w'"
    and "list_all (no_data h) es" and "slots (sw_wheel w) \<le> turns es"
  shows "\<exists>es1 es2 w1. es = es1 @ es2 \<and> srv_run L A V app w es1 w1 \<and>
    (sw_conns w1 h = None \<or> uv_is_closing L h (wuv w1))"
proof (cases "sw_conns w h = None \<or> uv_is_closing L h (wuv w)")
  case True
  then show ?thesis by (intro exI [of _ "[]"] exI [of _ es] exI [of _ w]) (simp add: srv_run.stop)
next
  case False
  have inv: "server_inv L w" by (rule srv_reach_inv [OF assms(3,1) quiet_ok [OF assms(2)]])
  have t: "tracked L w" by (rule reach_tracked [OF assms(1-3)])
  obtain c where c: "sw_conns w h = Some c" using False by auto
  obtain x where x: "x \<in> members (sw_wheel w)" "sw_wrappers w x = Some h"
    using trackedD(4) [OF t c _ assms(4)] False by blast
  have "wheel_ok (sw_wheel w)" using timeout_ok [OF inv] assms(4) by blast
  then obtain d where d: "wheel_age (sw_wheel w) x = Some d" using members_age [of "sw_wheel w" x] x(1) by auto
  have "slots (sw_wheel w) \<le> d + turns es" using assms(7) by simp
  from run_closes [OF assms(1,2,5) inv t x(2) d assms(6) this] show ?thesis .
qed

lemma idle_quiet: "quiet_app L V (\<lambda>x w. Some w)"
  by (simp add: quiet_app_def idle_app_ok)

text \<open>The client of a server with a timeout of two seconds says nothing for two turns.\<close>

lemma demo_served_wheel: "TimerWheel_get_timeout (sw_wheel demo_served) = 2" "slots (sw_wheel demo_served) = 2"
  by code_simp+

theorem silent_connection_closed_witness:
  "\<exists>es1 es2 w1. [WheelTurn, WheelTurn] = es1 @ es2 \<and>
     srv_run trace_uv demo_addr_lib (\<lambda>buf. True) (\<lambda>x w. Some w) demo_served es1 w1 \<and>
     (sw_conns w1 9 = None \<or> uv_is_closing trace_uv 9 (wuv w1))"
proof -
  have turn: "deliverable demo_addr_lib trace_uv (\<lambda>buf. True) WheelTurn v" for v :: "(uv_call list, string, string, unit) world"
    by (simp add: deliverable_def)
  have inv: "server_inv trace_uv demo_served" by (rule srv_reach_inv [OF demo_served_reach trace_uv_laws idle_app_ok])
  obtain w1 where w1: "TcpServer_event trace_uv demo_addr_lib (\<lambda>x w. Some w) WheelTurn demo_served = Some w1" "server_inv trace_uv w1"
    using event_good [OF trace_uv_laws idle_app_ok inv turn] by blast
  obtain w2 where w2: "TcpServer_event trace_uv demo_addr_lib (\<lambda>x w. Some w) WheelTurn w1 = Some w2"
    using event_good [OF trace_uv_laws idle_app_ok w1(2) turn] by blast
  have run: "srv_run trace_uv demo_addr_lib (\<lambda>buf. True) (\<lambda>x w. Some w) demo_served [WheelTurn, WheelTurn] w2"
    by (rule srv_run.step [OF turn w1(1) srv_run.step [OF turn w2 srv_run.stop]])
  show ?thesis
    by (rule silent_connection_closed [OF trace_uv_laws idle_quiet demo_served_reach _ run])
      (simp_all add: demo_served_wheel no_data_def)
qed

text \<open>The timeout is read back as an \<^verbatim>\<open>int\<close>: from \<open>2 ^ 31\<close> seconds on it is negative, and connections get
  no wrapper.\<close>

theorem huge_timeout_off:
  "0 < TimerWheel_get_timeout w \<longleftrightarrow> tw_timeoutSec w \<noteq> 0 \<and> uint (tw_timeoutSec w) < 2 ^ 31"
proof -
  define k where "k = uint (tw_timeoutSec w)"
  have k: "0 \<le> k" "k < 2 ^ 32" using unsigned_greater_eq unsigned_less [of "tw_timeoutSec w"] by (simp_all add: k_def)
  have s: "TimerWheel_get_timeout w = signed_take_bit 31 k"
    by (simp add: TimerWheel_get_timeout_def sint_uint k_def)
  have z: "tw_timeoutSec w = 0 \<longleftrightarrow> k = 0" by (simp add: k_def uint_0_iff)
  show ?thesis
  proof (cases "k < 2 ^ 31")
    case True
    then have "signed_take_bit 31 k = k" using k by (intro signed_take_bit_int_eq_self) simp_all
    then show ?thesis using True k(1) s z unfolding k_def by linarith
  next
    case False
    have "take_bit (Suc 31) k = take_bit (Suc 31) (k - 2 ^ 32)" by (simp add: take_bit_eq_mod)
    then have "signed_take_bit 31 k = signed_take_bit 31 (k - 2 ^ 32)"
      by (simp only: signed_take_bit_eq_iff_take_bit_eq)
    also have "\<dots> = k - 2 ^ 32" using False k by (intro signed_take_bit_int_eq_self) simp_all
    finally show ?thesis using False k s by (simp add: k_def)
  qed
qed

end
