(* ===== verification/Idle_Applications.thy ===== *)
theory Idle_Applications
  imports Tcp_Server_Idle Test_Servers Tcp_Proxy_Safety
begin

text \<open>
  The applications of the repository leave the wheel of their server alone (\<open>quiet_app\<close>): the echo
  server of \<^verbatim>\<open>tests/test_tcp_server.cpp\<close> and the TCP proxy of \<^verbatim>\<open>app/tcp_proxy.cpp\<close>. With a timeout set, their
  silent clients are let go.
\<close>

lemma echo_quiet:
  assumes laws: "uv_laws L"
  shows "quiet_app L V (tcp_echo_app L)"
  unfolding quiet_app_def
proof (intro conjI allI impI)
  show "app_ok L V (tcp_echo_app L)" by (rule echo_app_ok [OF laws])
  fix x and w w' :: "('a, 'b) echo_world"
  assume ok: "call_ok V x w" and run: "tcp_echo_app L x w = Some w'"
  show "still L w w'"
  proof (cases "\<exists>a h buf. x = AppMessage a h buf")
    case True
    then obtain h buf where x: "x = AppMessage EchoMessage h buf" by (metis echo_cb.exhaust)
    then obtain c where "sw_conns w h = Some c" using ok by auto
    from echo_callback_steps [OF laws this, of buf] show ?thesis
      using run x by (auto simp: tcp_echo_app_def still_def intro: conns_still_same)
  next
    case False
    then show ?thesis using run by (cases x) (auto simp: tcp_echo_app_def)
  qed
qed

lemma proxy_quiet:
  fixes L :: "'u libuv"
  assumes laws: "uv_laws L"
  shows "quiet_app L (valid_message dec jc jp) (TcpProxy_app L A dec jc jp :: ('u, 'w, proxy_cb, tcp_proxy) app)"
  unfolding quiet_app_def
proof (intro conjI allI impI)
  show "app_ok L (valid_message dec jc jp) (TcpProxy_app L A dec jc jp :: ('u, 'w, proxy_cb, tcp_proxy) app)"
    by (rule proxy_app_ok [OF laws])
  fix x :: "(proxy_cb, 'w) app_call" and w w' :: "('u, 'w) proxy_world"
  assume inv: "server_inv L w" and ok: "call_ok (valid_message dec jc jp) x w"
    and run: "TcpProxy_app L A dec jc jp x w = Some w'"
  show "still L w w'"
  proof (cases "\<exists>cb h data. x = AppMessage cb h data")
    case True
    then obtain h data where x: "x = AppMessage ProxyMessage h data" by (metis proxy_cb.exhaust)
    obtain c where c: "held h w = Some c" using ok x by (auto simp: held_def)
    obtain command sip sport message
      where un: "TcpProxy_unpack dec jc jp data = Some (Some (command, sip, sport, message))"
      using ok x by (auto simp: valid_message_def)
    obtain a io where con: "TcpProxy_connect_real_server L A h (c_str sip) (sint sport) message w =
        Some (put_agent (io_next (sw_io w)) a io w)"
      and new: "new_agent L w h message a io"
      using connect_real_server [OF c] by blast
    have nx: "io_next (sw_io w) \<le> io_next (ci_io io)" using new by (simp add: new_agent_def Let_def)
    have "uv_is_closing L g (cuv io) = uv_is_closing L g (wuv w)" if "sw_conns w g \<noteq> None" for g
    proof -
      have "g < io_next (sw_io w)" using inv that by (simp add: server_inv_def heap_inv_def)
      then show ?thesis using new_agent_closing [OF new laws] by simp
    qed
    then have "still L w (put_agent (io_next (sw_io w)) a io w)"
      using nx by (auto simp: still_def put_agent_def intro: conns_still_same)
    then show ?thesis
      using run x un con by (auto simp: TcpProxy_app_def TcpProxy_on_message_def split: if_splits)
  next
    case False
    then show ?thesis using run by (cases x) (auto simp: TcpProxy_app_def)
  qed
qed

end
