(* ===== verification/Test_Samples.thy ===== *)
theory Test_Samples
  imports Libuv Msgpack_Packer
begin

text \<open>
  Three samples of \<^verbatim>\<open>src/tests\<close>: packing and reading back with msgpack (\<^verbatim>\<open>test_msgpack.cpp\<close>), a ping-pong
  over a pipe of libuv (\<^verbatim>\<open>test_pipe_client.cpp\<close>, \<^verbatim>\<open>test_pipe_server.cpp\<close>), and masking by exclusive or
  (\<^verbatim>\<open>test_xor.cpp\<close>). The requests of the pipe programs are allocated with \<^verbatim>\<open>malloc\<close> and freed by their
  callbacks: \<open>ps_requests\<close> is the memory they are in.
\<close>

section \<open>msgpack\<close>

definition msgpack_buffer :: "packer \<Rightarrow> byte list" where
  "msgpack_buffer P =
     (let real_ip = bytes_of ''127.0.0.1''; message = bytes_of ''hello'' in
      pack_str P (length real_ip) @ pack_str_body P real_ip @ pack_int P 4444 @
      pack_str P 5 @ pack_str_body P (take 5 message))"

text \<open>The loop prints each object with its number.\<close>

definition msgpack_main :: "packer \<Rightarrow> decoder \<Rightarrow> (nat \<times> msgobj) list option option" where
  "msgpack_main P dec = unpack_loop dec (\<lambda>i obj out. Some (out @ [(Suc i, obj)])) (msgpack_buffer P) 0 0 []"

lemma assigns_numbered:
  "assigns (\<lambda>i obj out. Some (out @ [(Suc i, obj)])) i objs out = Some (out @ zip [Suc i..<Suc i + length objs] objs)"
proof (induction objs arbitrary: i out)
  case (Cons obj objs)
  then show ?case using upt_conv_Cons [of "Suc i" "Suc i + length (obj # objs)"] by (simp del: upt_Suc)
qed simp

text \<open>What is packed is what is printed, in order.\<close>

theorem msgpack_sample:
  assumes "packer_law P dec"
  shows "msgpack_main P dec = Some (Some
    [(1, MStr (bytes_of ''127.0.0.1'')), (2, MInt 4444), (3, MStr (bytes_of ''hello''))])"
proof -
  let ?items = "[IStr (bytes_of ''127.0.0.1''), IInt 4444, IStr (bytes_of ''hello'')]"
  have "msgpack_buffer P = concat (map (pack_item P) ?items)"
    by (simp add: msgpack_buffer_def eval_nat_numeral)
  moreover have "\<forall>x \<in> set ?items. item_fits x" by simp
  ultimately have "objects dec (msgpack_buffer P) = map item_obj ?items" using objects_packed [OF assms] by metis
  then show ?thesis
    using packer_law_decoder [OF assms] by (simp add: msgpack_main_def unpack_loop_objects assigns_numbered)
qed

section \<open>Masking\<close>

text \<open>A signed and an unsigned character; the integers are those that are printed.\<close>

definition xor_main :: "int list" where
  "xor_main =
     (let a = 0x7F :: byte; b = 0x80 :: byte; c = xor a b; d = xor c b in [sint a, uint b, uint c, sint d])"

theorem xor_sample: "xor_main = [127, 128, 255, 127]"
  by code_simp

section \<open>The pipe programs\<close>

datatype pipe_callback = AfterWrite | EchoWrite

datatype pipe_call =
    PipeInit hid | PipeConnect rid hid | PipeBind hid | PipeListen hid | PipeAccept hid hid
  | PipeReadStart hid | PipeWrite rid hid "byte list" | PipeClose hid

text \<open>An assertion that fails, and the use of memory after it was freed.\<close>

datatype pipe_error = AssertFailed | UseAfterFree

record pipe_state =
  ps_requests :: "rid \<rightharpoonup> hid"
  ps_pending :: "rid \<rightharpoonup> pipe_callback"  \<comment> \<open>the writes libuv has\<close>
  ps_next :: nat
  ps_calls :: "pipe_call list"

definition pipe_do :: "pipe_call \<Rightarrow> pipe_state \<Rightarrow> pipe_state" where
  "pipe_do c s = s\<lparr>ps_calls := ps_calls s @ [c]\<rparr>"

definition new_write :: "hid \<Rightarrow> byte list \<Rightarrow> pipe_callback \<Rightarrow> pipe_state \<Rightarrow> pipe_state" where
  "new_write h buf cb s = (let r = ps_next s in
     pipe_do (PipeWrite r h buf) (s\<lparr>ps_next := Suc r, ps_requests := (ps_requests s)(r \<mapsto> h),
       ps_pending := (ps_pending s)(r \<mapsto> cb)\<rparr>))"

definition free_request :: "rid \<Rightarrow> pipe_state \<Rightarrow> pipe_state" where
  "free_request r s = s\<lparr>ps_requests := (ps_requests s)(r := None)\<rparr>"

text \<open>The client. The callback of its first write reads the handle from the request it has just freed.\<close>

definition pipe_client_main :: "pipe_state \<Rightarrow> pipe_state" where
  "pipe_client_main s = (let pipe = ps_next s; connect = Suc pipe in
     pipe_do (PipeConnect connect pipe) (pipe_do (PipeInit pipe)
       (s\<lparr>ps_next := Suc connect, ps_requests := (ps_requests s)(connect \<mapsto> pipe)\<rparr>)))"

definition client_on_connect :: "rid \<Rightarrow> int \<Rightarrow> pipe_state \<Rightarrow> pipe_error + pipe_state" where
  "client_on_connect r status s =
     (if status \<noteq> 0 then Inl AssertFailed
      else (case ps_requests s r of None \<Rightarrow> Inl UseAfterFree
        | Some h \<Rightarrow> Inr (new_write h (bytes_of ''PING'' @ [0]) AfterWrite s)))"

definition after_write_cb :: "rid \<Rightarrow> pipe_state \<Rightarrow> pipe_error + pipe_state" where
  "after_write_cb r s = (let s = free_request r s in
     (case ps_requests s r of None \<Rightarrow> Inl UseAfterFree | Some h \<Rightarrow> Inr (pipe_do (PipeReadStart h) s)))"

definition echo_write_cb :: "rid \<Rightarrow> pipe_state \<Rightarrow> pipe_error + pipe_state" where
  "echo_write_cb r s = Inr (free_request r s)"

text \<open>The read callbacks of both programs differ in the text.\<close>

definition echo_read_cb :: "string \<Rightarrow> hid \<Rightarrow> int \<Rightarrow> pipe_state \<Rightarrow> pipe_state" where
  "echo_read_cb answer h nread s =
     (if nread > 0 then new_write h (bytes_of answer) EchoWrite s
      else if nread < 0 then pipe_do (PipeClose h) s else s)"

definition client_read_cb :: "hid \<Rightarrow> int \<Rightarrow> pipe_state \<Rightarrow> pipe_state" where
  "client_read_cb = echo_read_cb ''PING''"

text \<open>The server. \<open>rst\<close> is what \<^verbatim>\<open>uv_accept\<close> returns.\<close>

definition pipe_server_main :: "pipe_state \<Rightarrow> pipe_state" where
  "pipe_server_main s = (let pipe = ps_next s in
     pipe_do (PipeListen pipe) (pipe_do (PipeBind pipe) (pipe_do (PipeInit pipe) (s\<lparr>ps_next := Suc pipe\<rparr>))))"

definition server_on_connect :: "hid \<Rightarrow> int \<Rightarrow> int \<Rightarrow> pipe_state \<Rightarrow> pipe_error + pipe_state" where
  "server_on_connect stream status rst s =
     (if status \<noteq> 0 then Inl AssertFailed
      else let client = ps_next s;
               s = pipe_do (PipeAccept stream client) (pipe_do (PipeInit client) (s\<lparr>ps_next := Suc client\<rparr>))
           in if rst \<noteq> 0 then Inl AssertFailed else Inr (pipe_do (PipeReadStart client) s))"

datatype pipe_event = PipeConnected hid int int | PipeReceived hid int | PipeWritten rid int

text \<open>libuv calls the callback of a pending write once.\<close>

definition pipe_written :: "rid \<Rightarrow> pipe_state \<Rightarrow> pipe_error + pipe_state" where
  "pipe_written r s = (let s' = s\<lparr>ps_pending := (ps_pending s)(r := None)\<rparr> in
     (case ps_pending s r of
        Some AfterWrite \<Rightarrow> after_write_cb r s' | Some EchoWrite \<Rightarrow> echo_write_cb r s' | None \<Rightarrow> Inr s))"

definition pipe_server_event :: "pipe_event \<Rightarrow> pipe_state \<Rightarrow> pipe_error + pipe_state" where
  "pipe_server_event e s = (case e of
     PipeConnected stream status rst \<Rightarrow> server_on_connect stream status rst s
   | PipeReceived h nread \<Rightarrow> Inr (echo_read_cb ''PONG'' h nread s)
   | PipeWritten r status \<Rightarrow> pipe_written r s)"

definition pipe_client_event :: "pipe_event \<Rightarrow> pipe_state \<Rightarrow> pipe_error + pipe_state" where
  "pipe_client_event e s = (case e of
     PipeConnected r status rst \<Rightarrow> client_on_connect r status s
   | PipeReceived h nread \<Rightarrow> Inr (client_read_cb h nread s)
   | PipeWritten r status \<Rightarrow> pipe_written r s)"

fun pipe_events :: "(pipe_event \<Rightarrow> pipe_state \<Rightarrow> pipe_error + pipe_state) \<Rightarrow> pipe_event list \<Rightarrow> pipe_state \<Rightarrow>
    pipe_error + pipe_state" where
  "pipe_events step [] s = Inr s"
| "pipe_events step (e # es) s = (case step e s of Inl x \<Rightarrow> Inl x | Inr s \<Rightarrow> pipe_events step es s)"

lemmas pipe_defs = pipe_do_def new_write_def free_request_def echo_read_cb_def echo_write_cb_def after_write_cb_def
  pipe_written_def server_on_connect_def client_on_connect_def pipe_server_event_def pipe_client_event_def
  pipe_server_main_def pipe_client_main_def

text \<open>The client ends in the use of freed memory: whatever the connection reports and however the write
  ends, it never starts to read.\<close>

theorem pipe_client_uaf:
  "pipe_events pipe_client_event [PipeConnected (Suc (ps_next s)) status rst, PipeWritten (ps_next s + 2) wstatus]
     (pipe_client_main s) = Inl (if status \<noteq> 0 then AssertFailed else UseAfterFree)"
  by (simp add: pipe_defs Let_def)

text \<open>The server only stops on failed assertions: in a run in which clients connect without an error, every
  request is freed once its write has ended, and each read of data is answered by one write.\<close>

definition pipe_writes :: "pipe_call list \<Rightarrow> (hid \<times> byte list) list" where
  "pipe_writes cs = concat (map (\<lambda>c. case c of PipeWrite r h buf \<Rightarrow> [(h, buf)] | _ \<Rightarrow> []) cs)"

definition server_pending :: "pipe_state \<Rightarrow> bool" where
  "server_pending s \<longleftrightarrow> dom (ps_requests s) = dom (ps_pending s) \<and> (\<forall>cb \<in> ran (ps_pending s). cb = EchoWrite)"

definition connects_ok :: "pipe_event \<Rightarrow> bool" where
  "connects_ok e \<longleftrightarrow> (case e of PipeConnected g status rst \<Rightarrow> status = 0 \<and> rst = 0 | _ \<Rightarrow> True)"

definition data_from :: "pipe_event \<Rightarrow> hid list" where
  "data_from e = (case e of PipeReceived h nread \<Rightarrow> if nread > 0 then [h] else [] | _ \<Rightarrow> [])"

lemma pipe_writes_simps [simp]:
  "pipe_writes [] = []" "pipe_writes (cs @ ds) = pipe_writes cs @ pipe_writes ds"
  "pipe_writes (PipeWrite r h buf # cs) = (h, buf) # pipe_writes cs" "pipe_writes (PipeReadStart h # cs) = pipe_writes cs"
  "pipe_writes (PipeInit h # cs) = pipe_writes cs" "pipe_writes (PipeAccept g h # cs) = pipe_writes cs"
  "pipe_writes (PipeClose h # cs) = pipe_writes cs"
  by (simp_all add: pipe_writes_def)

lemma server_event_step:
  assumes "server_pending s" "connects_ok e"
  shows "\<exists>s'. pipe_server_event e s = Inr s' \<and> server_pending s' \<and>
    pipe_writes (ps_calls s') = pipe_writes (ps_calls s) @ map (\<lambda>h. (h, bytes_of ''PONG'')) (data_from e)"
proof (cases e)
  case (PipeConnected g status rst)
  then show ?thesis using assms by (simp add: connects_ok_def data_from_def pipe_defs Let_def server_pending_def)
next
  case (PipeReceived h nread)
  then show ?thesis
    using assms(1) by (auto simp: data_from_def pipe_defs Let_def server_pending_def ran_def)
next
  case (PipeWritten r status)
  show ?thesis
  proof (cases "ps_pending s r")
    case None
    then show ?thesis using assms(1) PipeWritten by (simp add: data_from_def pipe_defs)
  next
    case (Some cb)
    then have "cb = EchoWrite" using assms(1) by (auto simp: server_pending_def ran_def)
    then show ?thesis
      using assms(1) PipeWritten Some by (auto simp: data_from_def pipe_defs server_pending_def ran_def)
  qed
qed

theorem pipe_server_answers:
  assumes "server_pending s" "list_all connects_ok es"
  shows "\<exists>s'. pipe_events pipe_server_event es s = Inr s' \<and> server_pending s' \<and>
    pipe_writes (ps_calls s') = pipe_writes (ps_calls s) @ map (\<lambda>h. (h, bytes_of ''PONG'')) (concat (map data_from es))"
  using assms
proof (induction es arbitrary: s)
  case (Cons e es)
  obtain s1 where s1: "pipe_server_event e s = Inr s1" "server_pending s1"
    "pipe_writes (ps_calls s1) = pipe_writes (ps_calls s) @ map (\<lambda>h. (h, bytes_of ''PONG'')) (data_from e)"
    using server_event_step [of s e] Cons.prems by auto
  show ?case using Cons.IH [OF s1(2)] Cons.prems(2) s1 by auto
qed simp

end
